(* ===== verification/Prelude.thy ===== *)
theory Prelude
  imports Main "HOL-Library.Word"
begin

text \<open>
  The shared ground of the development: the collections of rewrite rules the component
  theories extend, and the facts on lists, fixed-size arrays and machine words that more
  than one component uses.

  A C array of fixed size is a list of that length. Reading or writing outside it is not a
  list operation here: the models test the index and fault, so that no proof ever relies on
  the unspecified value of a list access out of range.
\<close>

named_theorems io_simps "weakest preconditions of the program combinators"
named_theorems steady_intros "programs that never spin without a system call"
named_theorems cstr_simps "C strings and buffers"
named_theorems inv_simps "invariants and the operations that keep them"

subsection \<open>Arrays as lists\<close>

lemma set_list_update_distinct:
  assumes "distinct xs" and "i < length xs"
  shows "set (xs[i := x]) = insert x (set xs - {xs ! i})"
  using assms by (simp add: set_update_distinct)

lemma upd_out_of_take:
  "k \<le> i \<Longrightarrow> take k (xs[i := x]) = take k xs"
  by (simp add: take_update_cancel)

lemma filter_update_drop:
  assumes "i < length xs" and "P (xs ! i)" and "\<not> P x"
  shows "length (filter P (xs[i := x])) = length (filter P xs) - 1"
proof -
  have "xs = take i xs @ xs ! i # drop (Suc i) xs"
    using assms(1) by (rule id_take_nth_drop)
  then have "length (filter P xs) = length (filter P (take i xs @ xs ! i # drop (Suc i) xs))"
    by simp
  moreover have "xs[i := x] = take i xs @ x # drop (Suc i) xs"
    using assms(1) by (rule upd_conv_take_nth_drop)
  ultimately show ?thesis using assms(2,3) by simp
qed

lemma filter_update_add:
  assumes "i < length xs" and "\<not> P (xs ! i)" and "P x"
  shows "length (filter P (xs[i := x])) = Suc (length (filter P xs))"
proof -
  have "xs = take i xs @ xs ! i # drop (Suc i) xs"
    using assms(1) by (rule id_take_nth_drop)
  then have "length (filter P xs) = length (filter P (take i xs @ xs ! i # drop (Suc i) xs))"
    by simp
  moreover have "xs[i := x] = take i xs @ x # drop (Suc i) xs"
    using assms(1) by (rule upd_conv_take_nth_drop)
  ultimately show ?thesis using assms(2,3) by simp
qed

text \<open>The window between two offsets of an array, after bytes are put at the upper one.\<close>

lemma window_fill:
  assumes "p \<le> i" and "i \<le> length a"
  shows "take (i + length bs - p) (drop p (take i a @ bs @ r)) = take (i - p) (drop p a) @ bs"
proof -
  define q where "q = take (i - p) (drop p a)"
  have len: "length q = i - p" using assms by (simp add: q_def)
  have "drop p (take i a @ bs @ r) = q @ bs @ r" using assms by (simp add: q_def drop_take)
  moreover have "i + length bs - p = length q + length bs" using assms(1) len by simp
  ultimately show ?thesis by (simp add: q_def)
qed

subsection \<open>Bounded integers\<close>

text \<open>The range of a 32-bit C \<open>int\<close>.\<close>

definition INT_MAX :: int where "INT_MAX = 2147483647"
definition INT_MIN :: int where "INT_MIN = - 2147483648"

definition in_int :: "int \<Rightarrow> bool" where
  "in_int v \<longleftrightarrow> INT_MIN \<le> v \<and> v \<le> INT_MAX"

text \<open>Conversion of any value to \<open>int\<close> keeps the low 32 bits, read as two's complement.\<close>

definition to_int32 :: "int \<Rightarrow> int" where
  "to_int32 v = sint (word_of_int v :: 32 word)"

lemma to_int32_id [simp]: "in_int v \<Longrightarrow> to_int32 v = v"
  by (simp add: to_int32_def in_int_def INT_MAX_def INT_MIN_def signed_of_int
      signed_take_bit_int_eq_self)

end
