(* ===== verification/C_Strings.thy ===== *)
theory C_Strings
  imports Prelude
begin

text \<open>
  C strings and byte buffers: a \<open>char\<close> array is a list of its bytes, and the string it holds
  is what stands before the first NUL. The library calls the programs use on strings
  (\<open>strlen\<close>, \<open>sprintf\<close>, \<open>strcat\<close>, \<open>memset\<close>, \<open>memcpy\<close>, \<open>atoi\<close>) are here, with the array's bounds
  checked: a write that does not fit is \<open>None\<close>. The last section holds the byte order
  conversions of \<open>arpa/inet.h\<close>.
\<close>

type_synonym buf = "char list"

abbreviation NUL :: char where "NUL \<equiv> CHR 0x00"
abbreviation CR :: char where "CR \<equiv> CHR 0x0D"
abbreviation LF :: char where "LF \<equiv> CHR 0x0A"

definition crlf :: string where "crlf = [CR, LF]"

subsection \<open>The string in a buffer\<close>

definition cstr :: "buf \<Rightarrow> string" where
  "cstr b = takeWhile (\<lambda>c. c \<noteq> NUL) b"

definition terminated :: "buf \<Rightarrow> bool" where
  "terminated b \<longleftrightarrow> NUL \<in> set b"

definition zeros :: "nat \<Rightarrow> buf" where
  "zeros n = replicate n NUL"

text \<open>\<open>store off bs b\<close> writes \<open>bs\<close> into \<open>b\<close> at offset \<open>off\<close>; \<open>None\<close> when it runs past the end.\<close>

definition store :: "nat \<Rightarrow> char list \<Rightarrow> buf \<Rightarrow> buf option" where
  "store off bs b =
     (if off + length bs \<le> length b
      then Some (take off b @ bs @ drop (off + length bs) b) else None)"

text \<open>\<open>sprintf\<close> and \<open>strcpy\<close> write the characters and a NUL.\<close>

definition put_cstr :: "nat \<Rightarrow> string \<Rightarrow> buf \<Rightarrow> buf option" where
  "put_cstr off s b = store off (s @ [NUL]) b"

text \<open>\<open>strcat\<close> writes over the NUL that ends the string in the buffer.\<close>

definition strcat :: "string \<Rightarrow> buf \<Rightarrow> buf option" where
  "strcat s b = (if terminated b then put_cstr (length (cstr b)) s b else None)"

text \<open>\<open>snprintf\<close> cuts the text to what fits beside the NUL and never overflows.\<close>

definition snput :: "string \<Rightarrow> buf \<Rightarrow> buf" where
  "snput s b = (if b = [] then [] else
     (let s' = take (length b - 1) s in s' @ [NUL] @ drop (length s' + 1) b))"

lemma cstr_simps_basic [cstr_simps, simp]:
  "cstr [] = []"
  "cstr (c # b) = (if c = NUL then [] else c # cstr b)"
  by (simp_all add: cstr_def)

lemma cstr_append: "NUL \<notin> set s \<Longrightarrow> cstr (s @ b) = s @ cstr b"
  by (induction s) auto

lemma cstr_append_NUL [cstr_simps, simp]: "NUL \<notin> set s \<Longrightarrow> cstr (s @ NUL # b) = s"
  by (simp add: cstr_append)

lemma cstr_put: "cstr (s @ NUL # r) = cstr s"
  by (induction s) auto

lemma cstr_id: "NUL \<notin> set s \<Longrightarrow> cstr s = s"
  by (induction s) auto

lemma cstr_no_NUL [simp]: "NUL \<notin> set (cstr b)"
  by (induction b) auto

lemma length_cstr_le: "length (cstr b) \<le> length b"
  by (induction b) auto

lemma length_cstr_less: "terminated b \<Longrightarrow> length (cstr b) < length b"
  by (induction b) (auto simp: terminated_def)

lemma zeros_simps [cstr_simps, simp]:
  "length (zeros n) = n" "cstr (zeros n) = []"
proof -
  show "length (zeros n) = n" by (simp add: zeros_def)
  show "cstr (zeros n) = []" by (induction n) (auto simp: zeros_def)
qed

lemma terminated_zeros [simp]: "terminated (zeros n) \<longleftrightarrow> 0 < n"
  by (auto simp: terminated_def zeros_def)

lemma zeros_nil [simp]: "zeros n = [] \<longleftrightarrow> n = 0"
  by (simp add: zeros_def)

lemma cstr_append_zeros [cstr_simps, simp]: "cstr (s @ zeros n) = cstr s"
proof (induction s)
  case Nil
  then show ?case by (cases n) (auto simp: zeros_def)
qed auto

lemma terminated_append [cstr_simps, simp]:
  "terminated (a @ b) \<longleftrightarrow> terminated a \<or> terminated b"
  "terminated (c # b) \<longleftrightarrow> c = NUL \<or> terminated b"
  "\<not> terminated []"
  by (auto simp: terminated_def)

lemma store_length: "store off bs b = Some b' \<Longrightarrow> length b' = length b"
  by (auto simp: store_def split: if_splits)

lemma store_zeros:
  "length bs \<le> n \<Longrightarrow> store 0 bs (zeros n) = Some (bs @ zeros (n - length bs))"
  by (simp add: store_def zeros_def)

lemma put_cstr_None: "put_cstr off s b = None \<longleftrightarrow> length b < off + length s + 1"
  by (auto simp: put_cstr_def store_def)

lemma put_cstr_0:
  "put_cstr 0 s b = (if length s < length b then Some (s @ NUL # drop (Suc (length s)) b) else None)"
  by (simp add: put_cstr_def store_def Suc_le_eq)

lemma put_zeros:
  "put_cstr 0 s (zeros n) = (if length s < n then Some (s @ zeros (n - length s)) else None)"
  by (cases "n - length s") (auto simp: put_cstr_0 zeros_def)

lemma put_cstr_length: "put_cstr off s b = Some b' \<Longrightarrow> length b' = length b"
  by (auto simp: put_cstr_def dest: store_length)

lemma cstr_take_cstr: "cstr (take (length (cstr b)) b) = cstr b"
  by (induction b) auto

lemma take_length_cstr: "take (length (cstr b)) b = cstr b"
  by (induction b) auto

lemma strcat_spec:
  assumes "terminated b" and "NUL \<notin> set s"
  shows "strcat s b = (if length (cstr b) + length s < length b
           then Some (cstr b @ s @ NUL # drop (length (cstr b) + length s + 1) b) else None)"
  using assms by (auto simp: strcat_def put_cstr_def store_def take_length_cstr)

lemma snput_length [simp]: "length (snput s b) = length b"
proof (cases b)
  case (Cons c b')
  then show ?thesis by (simp add: snput_def Let_def min_def)
qed (simp add: snput_def)

lemma snput_cstr:
  assumes "NUL \<notin> set s" and "length s < length b"
  shows "cstr (snput s b) = s"
proof -
  have "b \<noteq> []" and "take (length b - 1) s = s" using assms(2) by auto
  then show ?thesis using assms(1) by (simp add: snput_def Let_def)
qed

subsection \<open>Decimal numbers\<close>

definition digit :: "nat \<Rightarrow> char" where
  "digit d = char_of (48 + d)"

definition is_digit :: "char \<Rightarrow> bool" where
  "is_digit c \<longleftrightarrow> 48 \<le> (of_char c :: nat) \<and> (of_char c :: nat) \<le> 57"

definition digit_val :: "char \<Rightarrow> nat" where
  "digit_val c = of_char c - 48"

fun dec :: "nat \<Rightarrow> string" where
  "dec n = (if n < 10 then [digit n] else dec (n div 10) @ [digit (n mod 10)])"

declare dec.simps [simp del]

text \<open>\<open>printf\<close>'s \<open>%d\<close> and \<open>%ld\<close>.\<close>

definition show_int :: "int \<Rightarrow> string" where
  "show_int v = (if v < 0 then ''-'' @ dec (nat (- v)) else dec (nat v))"

text \<open>
  \<open>strtol\<close> in base 10: leading white space, an optional sign, the longest run of digits. glibc's
  \<open>atoi\<close> is \<open>(int) strtol\<close>, which stops at the bounds of a 64-bit \<open>long\<close>.
\<close>

definition is_space :: "char \<Rightarrow> bool" where
  "is_space c \<longleftrightarrow> (of_char c :: nat) = 32 \<or> (9 \<le> (of_char c :: nat) \<and> (of_char c :: nat) \<le> 13)"

fun digits_val :: "nat \<Rightarrow> string \<Rightarrow> nat" where
  "digits_val acc [] = acc"
| "digits_val acc (c # cs) = (if is_digit c then digits_val (10 * acc + digit_val c) cs else acc)"

definition strtol :: "string \<Rightarrow> int" where
  "strtol s =
     (let s' = dropWhile is_space s;
          v = (case s' of
                 [] \<Rightarrow> 0
               | c # cs \<Rightarrow> if c = CHR ''-'' then - int (digits_val 0 cs)
                           else if c = CHR ''+'' then int (digits_val 0 cs)
                           else int (digits_val 0 s'))
      in max (- 9223372036854775808) (min 9223372036854775807 v))"

definition atoi :: "string \<Rightarrow> int" where
  "atoi s = to_int32 (strtol s)"

lemma is_digit_digit [simp]: "d < 10 \<Longrightarrow> is_digit (digit d)"
  by (simp add: is_digit_def digit_def)

lemma digit_val_digit [simp]: "d < 10 \<Longrightarrow> digit_val (digit d) = d"
  by (simp add: digit_val_def digit_def)

lemma dec_digits: "c \<in> set (dec n) \<Longrightarrow> is_digit c"
proof (induction n rule: dec.induct)
  case (1 n)
  then show ?case by (subst (asm) (2) dec.simps) (auto split: if_splits)
qed

lemma dec_not_Nil [simp]: "dec n \<noteq> []"
  by (subst dec.simps) simp

lemma digits_val_append:
  "\<forall>c \<in> set s. is_digit c \<Longrightarrow> digits_val acc (s @ r) = digits_val (digits_val acc s) r"
  by (induction s arbitrary: acc) auto

lemma digits_val_dec: "digits_val 0 (dec n) = n"
proof (induction n rule: dec.induct)
  case (1 n)
  show ?case
  proof (cases "n < 10")
    case True
    then show ?thesis by (subst dec.simps) simp
  next
    case False
    then have "digits_val 0 (dec (n div 10)) = n div 10" using 1 by simp
    with False show ?thesis
      by (subst dec.simps) (simp add: digits_val_append dec_digits)
  qed
qed

lemma digits_val_stop:
  "r = [] \<or> \<not> is_digit (hd r) \<Longrightarrow> digits_val acc r = acc"
  by (cases r) auto

lemma length_dec: "0 < k \<Longrightarrow> n < 10 ^ k \<Longrightarrow> length (dec n) \<le> k"
proof (induction n arbitrary: k rule: dec.induct)
  case (1 n k)
  show ?case
  proof (cases "n < 10")
    case True
    with 1 show ?thesis by (subst dec.simps) simp
  next
    case False
    obtain j where j: "k = Suc j" using "1.prems"(1) by (cases k) auto
    with False "1.prems" have "0 < j" by (cases j) auto
    moreover have "n div 10 < 10 ^ j" using "1.prems"(2) j by auto
    ultimately have "length (dec (n div 10)) \<le> j" using "1.IH" False by blast
    with False j show ?thesis by (subst dec.simps) simp
  qed
qed

lemma not_space_digit: "is_digit c \<Longrightarrow> \<not> is_space c"
  by (auto simp: is_digit_def is_space_def)

lemma digit_not_special: "is_digit c \<Longrightarrow> c \<noteq> CHR ''-'' \<and> c \<noteq> CHR ''+'' \<and> c \<noteq> NUL"
  by (auto simp: is_digit_def)

lemma NUL_notin_dec [simp]: "NUL \<notin> set (dec n)"
  using dec_digits digit_not_special by blast

lemma NUL_notin_show_int [simp]: "NUL \<notin> set (show_int v)"
  by (simp add: show_int_def)

lemma length_show_int:
  assumes "in_int v"
  shows "length (show_int v) \<le> 11"
proof -
  have "nat \<bar>v\<bar> < 10 ^ 10" using assms by (auto simp: in_int_def INT_MAX_def INT_MIN_def)
  then have "length (dec (nat \<bar>v\<bar>)) \<le> 10" by (intro length_dec) auto
  then show ?thesis by (auto simp: show_int_def abs_if split: if_splits)
qed

text \<open>Reading back what \<open>%d\<close> printed gives the number, whatever non-digit follows it.\<close>

lemma strtol_show_int:
  assumes "in_int v" and "r = [] \<or> \<not> is_digit (hd r)"
  shows "strtol (show_int v @ r) = v"
proof -
  obtain c cs where d: "dec (nat \<bar>v\<bar>) = c # cs" by (cases "dec (nat \<bar>v\<bar>)") auto
  then have c: "is_digit c" using dec_digits [of c "nat \<bar>v\<bar>"] by simp
  have "digits_val 0 (dec (nat \<bar>v\<bar>) @ r) = nat \<bar>v\<bar>"
    using assms(2) dec_digits digits_val_append digits_val_dec digits_val_stop by simp
  then have val: "digits_val 0 ((c # cs) @ r) = nat \<bar>v\<bar>" using d by simp
  have "\<not> is_space CHR ''-''" by (simp add: is_space_def)
  then show ?thesis
    using assms(1) c d val not_space_digit [OF c] digit_not_special [OF c]
    by (auto simp: strtol_def show_int_def Let_def abs_if in_int_def INT_MAX_def INT_MIN_def
        split: if_splits)
qed

lemma atoi_show_int [simp]:
  assumes "in_int v"
  shows "atoi (show_int v) = v"
  using strtol_show_int [OF assms, of "[]"] assms by (simp add: atoi_def)

subsection \<open>Network byte order\<close>

text \<open>
  \<open>htons\<close> and \<open>htonl\<close> give the value whose bytes in memory are the number's bytes, most
  significant first. The model keeps those bytes, so it does not depend on the host's own
  order.
\<close>

type_synonym byte = "8 word"

definition htons :: "16 word \<Rightarrow> byte list" where
  "htons w = [ucast (drop_bit 8 w), ucast w]"

fun ntohs :: "byte list \<Rightarrow> 16 word" where
  "ntohs [h, l] = or (push_bit 8 (ucast h)) (ucast l)"
| "ntohs _ = 0"

definition htonl :: "32 word \<Rightarrow> byte list" where
  "htonl w = [ucast (drop_bit 24 w), ucast (drop_bit 16 w), ucast (drop_bit 8 w), ucast w]"

lemma ntohs_htons [simp]: "ntohs (htons w) = w"
  by (simp add: htons_def bit_eq_iff)
     (auto simp: bit_simps)

lemma length_htons [simp]: "length (htons w) = 2" "length (htonl x) = 4"
  by (simp_all add: htons_def htonl_def)

end
