(* ===== verification/Sys.thy ===== *)
theory Sys
  imports C_Strings
begin

text \<open>
  The system interface and the meaning of a program that uses it.

  A program is a function of the replies the kernel will give, in order, to the system calls it
  makes. Running it on a finite list of replies gives how it stopped, the trace of what it did
  (each call with its reply, and what it printed) and the replies it has not used. A program that
  needs a reply when none is left stops as \<open>Blocked\<close>: it is waiting in that call. A server that
  never ends is thus a total function, and a property of all runs is a property of every list
  of replies, that is, of every finite prefix of every execution.

  What C leaves undefined (a write past an array, a read of an unterminated string, a descriptor
  outside an \<open>fd_set\<close>) stops the run as \<open>Fault\<close>.
\<close>

subsection \<open>Addresses\<close>

datatype family = AF_UNSPEC | AF_LOCAL | AF_INET | AF_INET6 | AF_OTHER nat
datatype socktype = SOCK_STREAM | SOCK_DGRAM

text \<open>\<open>Sin port addr\<close> holds the bytes of \<open>sin_port\<close> and \<open>sin_addr\<close> in network order.\<close>

datatype sockaddr =
    Sin "byte list" "byte list"
  | Sin6 "byte list" "byte list"
  | Sun string
  | Sa_other nat

fun sa_family :: "sockaddr \<Rightarrow> family" where
  "sa_family (Sin _ _) = AF_INET"
| "sa_family (Sin6 _ _) = AF_INET6"
| "sa_family (Sun _) = AF_LOCAL"
| "sa_family (Sa_other n) = AF_OTHER n"

definition INADDR_ANY :: "32 word" where "INADDR_ANY = 0"

definition O_RDONLY :: "32 word" where "O_RDONLY = 0"
definition O_RDWR :: "32 word" where "O_RDWR = 2"
definition O_NONBLOCK :: "32 word" where "O_NONBLOCK = 0x800"

record addrinfo =
  ai_family :: family
  ai_socktype :: socktype
  ai_protocol :: int
  ai_addr :: sockaddr

subsection \<open>System calls and replies\<close>

text \<open>On Linux \<open>EWOULDBLOCK\<close> and \<open>EAGAIN\<close> are one number.\<close>

datatype errno = EINTR | EAGAIN | EINVAL | EBADF | ETIMEDOUT | EPIPE | EOTHER nat

abbreviation EWOULDBLOCK :: errno where "EWOULDBLOCK \<equiv> EAGAIN"

datatype sig = SIGALRM | SIGCHLD | SIGHUP | SIGINT | SIGKILL | SIGTERM | SIGURG
datatype handler = SIG_IGN | SIG_DFL | Handler string

text \<open>
  The calls, in groups: transfers of bytes and other operations on a descriptor, waiting, processes,
  signals and memory, files and the clock, names and addresses. The abbreviations give each call the C
  name and argument order the programs use.
\<close>

datatype transfer =
    READ nat
  | WRITE "char list"
  | WRITE_NEG
  | RECV nat
  | SEND "char list"
  | RECV_OOB nat
  | SEND_OOB "char list"
  | RECVFROM nat
  | SENDTO "char list" sockaddr
  | SENDMSG "char list" int

datatype ifreq_field = Ifr_flags | Ifr_broadaddr | Ifr_dstaddr

datatype fd_op =
    BIND sockaddr
  | LISTEN int
  | ACCEPT
  | CONNECT sockaddr
  | REUSEADDR int
  | CLOSE
  | SHUTDOWN_WR
  | GETPEERNAME
  | GETSOCKNAME
  | GETFL
  | SETFL "32 word"
  | SETOWN
  | GIFCONF nat
  | GIFREQ ifreq_field string

datatype wait_op =
    SELECT int "int set" "int set"
  | SELECT_TV int "int set" "int set" int
  | EPOLL_CREATE
  | EPOLL_ADD int int "32 word"
  | EPOLL_WAIT int nat
  | PAUSE
  | SLEEP int
  | USLEEP int
  | ALARM int

datatype proc_op =
    FORK
  | WAITPID int bool
  | WAIT
  | KILL int sig
  | GETPPID
  | SIGNAL sig handler
  | SYSTEM string
  | SETSID
  | EXECL string "string list"
  | MALLOC nat
  | CALLOC nat

datatype file_op =
    OPEN string "32 word"
  | UNLINK string
  | CHDIR string
  | FGETS nat
  | OPENLOG string int
  | TIME
  | GETTIMEOFDAY
  | CTIME

datatype name_op =
    GETADDRINFO "string option" "string option" bool family socktype
  | FREEADDRINFO
  | GETNAMEINFO
  | GETHOSTBYNAME string
  | GETSERVBYNAME string
  | INET_NTOP family nat
  | INET_PTON string

datatype call =
    Socket family socktype int
  | Transfer int transfer
  | On int fd_op
  | Await wait_op
  | Proc proc_op
  | File file_op
  | Name name_op
  | Socketpair family socktype int
  | Recvmsg int nat

abbreviation "Read fd n \<equiv> Transfer fd (READ n)"
abbreviation "Write fd bs \<equiv> Transfer fd (WRITE bs)"
abbreviation "Write_neg fd \<equiv> Transfer fd WRITE_NEG"
abbreviation "Recv fd n \<equiv> Transfer fd (RECV n)"
abbreviation "Send fd bs \<equiv> Transfer fd (SEND bs)"
abbreviation "Recv_oob fd n \<equiv> Transfer fd (RECV_OOB n)"
abbreviation "Send_oob fd bs \<equiv> Transfer fd (SEND_OOB bs)"
abbreviation "Recvfrom fd n \<equiv> Transfer fd (RECVFROM n)"
abbreviation "Sendto fd bs sa \<equiv> Transfer fd (SENDTO bs sa)"
abbreviation "Sendmsg fd bs sent \<equiv> Transfer fd (SENDMSG bs sent)"
abbreviation "Bind fd sa \<equiv> On fd (BIND sa)"
abbreviation "Listen fd n \<equiv> On fd (LISTEN n)"
abbreviation "Accept fd \<equiv> On fd ACCEPT"
abbreviation "Connect fd sa \<equiv> On fd (CONNECT sa)"
abbreviation "Setsockopt_reuse fd v \<equiv> On fd (REUSEADDR v)"
abbreviation "Close fd \<equiv> On fd CLOSE"
abbreviation "Shutdown_wr fd \<equiv> On fd SHUTDOWN_WR"
abbreviation "Getpeername fd \<equiv> On fd GETPEERNAME"
abbreviation "Getsockname fd \<equiv> On fd GETSOCKNAME"
abbreviation "Getfl fd \<equiv> On fd GETFL"
abbreviation "Setfl fd w \<equiv> On fd (SETFL w)"
abbreviation "Setown fd \<equiv> On fd SETOWN"
abbreviation "Ioctl_ifconf fd n \<equiv> On fd (GIFCONF n)"
abbreviation "Ioctl_ifreq fd field name \<equiv> On fd (GIFREQ field name)"
abbreviation "Select n rs ws \<equiv> Await (SELECT n rs ws)"
abbreviation "Select_tv n rs ws sec \<equiv> Await (SELECT_TV n rs ws sec)"
abbreviation "Epoll_create \<equiv> Await EPOLL_CREATE"
abbreviation "Epoll_add efd fd w \<equiv> Await (EPOLL_ADD efd fd w)"
abbreviation "Epoll_wait efd n \<equiv> Await (EPOLL_WAIT efd n)"
abbreviation "Pause \<equiv> Await PAUSE"
abbreviation "Sleep n \<equiv> Await (SLEEP n)"
abbreviation "Usleep n \<equiv> Await (USLEEP n)"
abbreviation "Alarm n \<equiv> Await (ALARM n)"
abbreviation "Fork \<equiv> Proc FORK"
abbreviation "Waitpid pid nohang \<equiv> Proc (WAITPID pid nohang)"
abbreviation "Wait \<equiv> Proc WAIT"
abbreviation "Kill pid sg \<equiv> Proc (KILL pid sg)"
abbreviation "Getppid \<equiv> Proc GETPPID"
abbreviation "Signal sg h \<equiv> Proc (SIGNAL sg h)"
abbreviation "System cmd \<equiv> Proc (SYSTEM cmd)"
abbreviation "Setsid \<equiv> Proc SETSID"
abbreviation "Execl path args \<equiv> Proc (EXECL path args)"
abbreviation "Malloc n \<equiv> Proc (MALLOC n)"
abbreviation "Calloc n \<equiv> Proc (CALLOC n)"
abbreviation "Open path flags \<equiv> File (OPEN path flags)"
abbreviation "Unlink path \<equiv> File (UNLINK path)"
abbreviation "Chdir path \<equiv> File (CHDIR path)"
abbreviation "Fgets n \<equiv> File (FGETS n)"
abbreviation "Openlog ident facility \<equiv> File (OPENLOG ident facility)"
abbreviation "Time \<equiv> File TIME"
abbreviation "Gettimeofday \<equiv> File GETTIMEOFDAY"
abbreviation "Ctime \<equiv> File CTIME"
abbreviation "Getaddrinfo host serv passive fam ty \<equiv> Name (GETADDRINFO host serv passive fam ty)"
abbreviation "Freeaddrinfo \<equiv> Name FREEADDRINFO"
abbreviation "Getnameinfo \<equiv> Name GETNAMEINFO"
abbreviation "Gethostbyname h \<equiv> Name (GETHOSTBYNAME h)"
abbreviation "Getservbyname s \<equiv> Name (GETSERVBYNAME s)"
abbreviation "Inet_ntop fam n \<equiv> Name (INET_NTOP fam n)"
abbreviation "Inet_pton s \<equiv> Name (INET_PTON s)"

text \<open>
  One record for every reply: the value returned, \<open>errno\<close> after it, the bytes a read (or
  \<open>ctime\<close>) brought, a second number (\<open>tv_usec\<close>), the bytes of an IP address, the two sets a
  \<open>select\<close> left, an address, an address list, a list of epoll events, two descriptors. What comes with a
  message of \<open>recvmsg\<close> besides its bytes is \<open>num\<close>: a descriptor, or -1 for none;
  \<open>control\<close> is a control message with credentials: its length, level, type and content. The reply of an allocation
  is 0 for the null pointer, and \<open>dat\<close> is what the new block happens to hold.
\<close>

record cmsgcred =
  cmcred_pid :: int
  cmcred_uid :: int
  cmcred_euid :: int
  cmcred_gid :: int
  cmcred_ngroups :: int
  cmcred_groups :: "int list"

record reply =
  rv :: int
  en :: errno
  dat :: "char list"
  num :: int
  ip :: "byte list"
  rset :: "int set"
  wset :: "int set"
  peer :: sockaddr
  ais :: "addrinfo list"
  evs :: "(32 word \<times> int) list"
  pair :: "int \<times> int"
  control :: "(nat \<times> int \<times> int \<times> cmsgcred) option"

definition ok :: "int \<Rightarrow> reply" where
  "ok v = \<lparr>rv = v, en = EOTHER 0, dat = [], num = 0, ip = [], rset = {}, wset = {}, peer = Sa_other 0, ais = [], evs = [],
     pair = (0, 0), control = None\<rparr>"

definition fail :: "errno \<Rightarrow> reply" where
  "fail e = (ok (- 1))\<lparr>en := e\<rparr>"

definition got :: "char list \<Rightarrow> reply" where
  "got bs = (ok (int (length bs)))\<lparr>dat := bs\<rparr>"

datatype event = Call call reply | Out string | Err string | Perror string | Syslog string

subsection \<open>What the kernel promises\<close>

text \<open>
  The documented behaviour the properties assume: a new descriptor is not negative and not one
  already open; a read brings at most what was asked for, and the count returned is the number of
  bytes; a write takes at most what was offered, and one of -1 bytes (\<open>WRITE_NEG\<close>, the largest \<open>size_t\<close>) fails; \<open>select\<close> leaves a part of the sets it was given
  and returns how many descriptors that is; \<open>execl\<close> returns only to say that it failed; \<open>ctime\<close> gives 25 characters; the addresses of
  \<open>gethostbyname\<close> have four bytes, the list of a \<open>getaddrinfo\<close> that succeeds is not empty (its error
  codes are below -1); the list of interfaces is an array of structures of 40 bytes that fits in the
  block it was asked for, and the part of such a structure that a request for one interface fills in has 24; a call on a descriptor that is not open fails with \<open>EBADF\<close>. The set is that
  of the process's open descriptors.
\<close>

fun fd_of :: "call \<Rightarrow> int option" where
  "fd_of (Transfer fd _) = Some fd"
| "fd_of (On fd _) = Some fd"
| "fd_of (Await (EPOLL_WAIT fd _)) = Some fd"
| "fd_of (Recvmsg fd _) = Some fd"
| "fd_of _ = None"

fun makes_fd :: "call \<Rightarrow> bool" where
  "makes_fd (Socket _ _ _) = True"
| "makes_fd (On _ op) = (op = ACCEPT)"
| "makes_fd (File (OPEN _ _)) = True"
| "makes_fd (Await op) = (op = EPOLL_CREATE)"
| "makes_fd _ = False"

fun transfer_ok :: "transfer \<Rightarrow> reply \<Rightarrow> bool" where
  "transfer_ok (WRITE bs) a = (rv a \<le> int (length bs))"
| "transfer_ok WRITE_NEG a = (rv a = - 1)"
| "transfer_ok (SEND bs) a = (rv a \<le> int (length bs))"
| "transfer_ok (SEND_OOB bs) a = (rv a \<le> int (length bs))"
| "transfer_ok (SENDTO bs _) a = (rv a \<le> int (length bs))"
| "transfer_ok (SENDMSG bs _) a = (rv a \<le> int (length bs))"
| "transfer_ok (READ n) a = (rv a \<le> int n \<and> length (dat a) = nat (rv a))"
| "transfer_ok (RECV n) a = (rv a \<le> int n \<and> length (dat a) = nat (rv a))"
| "transfer_ok (RECV_OOB n) a = (rv a \<le> int n \<and> length (dat a) = nat (rv a))"
| "transfer_ok (RECVFROM n) a = (rv a \<le> int n \<and> length (dat a) = nat (rv a))"

fun wait_ok :: "wait_op \<Rightarrow> reply \<Rightarrow> bool" where
  "wait_ok (SELECT n rs ws) a =
     (rv a = - 1 \<or> (rset a \<subseteq> rs \<inter> {0..<n} \<and> wset a \<subseteq> ws \<inter> {0..<n} \<and>
        rv a = int (card (rset a) + card (wset a))))"
| "wait_ok (SELECT_TV n rs ws _) a =
     (rv a = - 1 \<or> (rset a \<subseteq> rs \<inter> {0..<n} \<and> wset a \<subseteq> ws \<inter> {0..<n} \<and>
        rv a = int (card (rset a) + card (wset a))))"
| "wait_ok (EPOLL_WAIT _ n) a = (rv a = - 1 \<or> (rv a = int (length (evs a)) \<and> length (evs a) \<le> n))"
| "wait_ok _ a = True"

fun call_ok :: "call \<Rightarrow> reply \<Rightarrow> bool" where
  "call_ok (Transfer _ op) a = transfer_ok op a"
| "call_ok (Await op) a = wait_ok op a"
| "call_ok (Recvmsg _ n) a = (rv a \<le> int n \<and> length (dat a) = nat (rv a))"
| "call_ok (Socketpair _ _ _) a = (rv a = 0 \<or> rv a = - 1)"
| "call_ok (Proc (EXECL _ _)) a = (rv a = - 1)"
| "call_ok (Proc (MALLOC n)) a = (rv a = 0 \<or> length (dat a) = n)"
| "call_ok (On _ (GIFCONF n)) a =
     (if rv a < 0 then num a = int n else 0 \<le> num a \<and> num a \<le> int n \<and> 40 dvd num a \<and> length (dat a) = nat (num a))"
| "call_ok (On _ (GIFREQ _ _)) a = (rv a < 0 \<or> length (dat a) = 24)"
| "call_ok (File (FGETS n)) a = (rv a = 0 \<or> length (dat a) < n)"
| "call_ok (File CTIME) a = (length (dat a) = 25 \<and> NUL \<notin> set (dat a))"
| "call_ok (File GETTIMEOFDAY) a = (0 \<le> num a \<and> num a < 1000000)"
| "call_ok (Name (GETHOSTBYNAME h)) a = (rv a = 0 \<or> length (ip a) = 4)"
| "call_ok (Name (GETADDRINFO h s p f ty)) a = (rv a = 0 \<longrightarrow> ais a \<noteq> [])"
| "call_ok _ a = True"

fun fresh_ok :: "int set \<Rightarrow> call \<Rightarrow> reply \<Rightarrow> bool" where
  "fresh_ok fds (Socketpair _ _ _) a =
     (rv a = 0 \<longrightarrow> 0 \<le> fst (pair a) \<and> 0 \<le> snd (pair a) \<and> fst (pair a) \<notin> fds \<and>
        snd (pair a) \<notin> fds \<and> fst (pair a) \<noteq> snd (pair a))"
| "fresh_ok fds (Recvmsg _ _) a = (0 \<le> num a \<longrightarrow> num a \<notin> fds)"
| "fresh_ok fds c a = (makes_fd c \<longrightarrow> rv a \<notin> fds)"

definition sys_ok :: "int set \<Rightarrow> call \<Rightarrow> reply \<Rightarrow> bool" where
  "sys_ok fds c a \<longleftrightarrow>
     (case c of Name _ \<Rightarrow> True | _ \<Rightarrow> - 1 \<le> rv a) \<and>
     (case fd_of c of Some fd \<Rightarrow> fd \<notin> fds \<longrightarrow> rv a = - 1 \<and> en a = EBADF | None \<Rightarrow> True) \<and>
     fresh_ok fds c a \<and>
     call_ok c a"

fun fds_after :: "int set \<Rightarrow> call \<Rightarrow> reply \<Rightarrow> int set" where
  "fds_after fds (On fd op) a =
     (if op = CLOSE then fds - {fd}
      else if op = ACCEPT \<and> 0 \<le> rv a then insert (rv a) fds else fds)"
| "fds_after fds (Socketpair _ _ _) a = (if rv a = 0 then {fst (pair a), snd (pair a)} \<union> fds else fds)"
| "fds_after fds (Recvmsg _ _) a = (if 0 < rv a \<and> 0 \<le> num a then insert (num a) fds else fds)"
| "fds_after fds c a = (if makes_fd c \<and> 0 \<le> rv a then insert (rv a) fds else fds)"

fun conforms :: "int set \<Rightarrow> event list \<Rightarrow> bool" where
  "conforms fds [] = True"
| "conforms fds (Call c a # t) = (sys_ok fds c a \<and> conforms (fds_after fds c a) t)"
| "conforms fds (_ # t) = conforms fds t"

fun fds_run :: "int set \<Rightarrow> event list \<Rightarrow> int set" where
  "fds_run fds [] = fds"
| "fds_run fds (Call c a # t) = fds_run (fds_after fds c a) t"
| "fds_run fds (_ # t) = fds_run fds t"

lemma conforms_append [simp]:
  "conforms fds (s @ t) \<longleftrightarrow> conforms fds s \<and> conforms (fds_run fds s) t"
  by (induction fds s rule: conforms.induct) auto

lemma fds_run_append [simp]: "fds_run fds (s @ t) = fds_run (fds_run fds s) t"
  by (induction fds s rule: fds_run.induct) auto

subsection \<open>Programs\<close>

datatype fault =
    Overflow          \<comment> \<open>a write past the end of an array\<close>
  | Overread          \<comment> \<open>a read past the end of an array or of an unterminated string\<close>
  | Fd_range          \<comment> \<open>a descriptor outside an \<open>fd_set\<close>\<close>
  | Null              \<comment> \<open>a null pointer is followed\<close>
  | Freed             \<comment> \<open>a block is used or freed after it was freed\<close>
  | No_value          \<comment> \<open>the value of a function that ended without \<open>return\<close> is used\<close>
  | Int_overflow      \<comment> \<open>a signed addition leaves \<open>int\<close>\<close>

datatype stop = Exit int | Abort | Killed sig | Blocked | Diverge | Fault fault
datatype 'a result = Ret 'a | Stop stop

type_synonym 'a io = "reply list \<Rightarrow> 'a result \<times> event list \<times> reply list"

definition ret :: "'a \<Rightarrow> 'a io" where
  "ret x rs = (Ret x, [], rs)"

definition stop :: "stop \<Rightarrow> 'a io" where
  "stop z rs = (Stop z, [], rs)"

abbreviation exit :: "int \<Rightarrow> 'a io" where "exit n \<equiv> stop (Exit n)"
abbreviation abort :: "'a io" where "abort \<equiv> stop Abort"
abbreviation fault :: "fault \<Rightarrow> 'a io" where "fault f \<equiv> stop (Fault f)"

text \<open>\<open>sys c k\<close> makes the call \<open>c\<close> and goes on as \<open>k\<close> with the reply.\<close>

definition sys :: "call \<Rightarrow> (reply \<Rightarrow> 'a io) \<Rightarrow> 'a io" where
  "sys c k rs =
     (case rs of
        [] \<Rightarrow> (Stop Blocked, [], [])
      | a # rs' \<Rightarrow> (case k a rs' of (r, t, rs'') \<Rightarrow> (r, Call c a # t, rs'')))"

definition tell :: "event \<Rightarrow> 'a io \<Rightarrow> 'a io" where
  "tell e m rs = (case m rs of (r, t, rs') \<Rightarrow> (r, e # t, rs'))"

definition printf :: "string \<Rightarrow> 'a io \<Rightarrow> 'a io" where "printf s = tell (Out s)"
definition eprintf :: "string \<Rightarrow> 'a io \<Rightarrow> 'a io" where "eprintf s = tell (Err s)"
definition perror :: "string \<Rightarrow> 'a io \<Rightarrow> 'a io" where "perror s = tell (Perror s)"
definition syslog :: "string \<Rightarrow> 'a io \<Rightarrow> 'a io" where "syslog s = tell (Syslog s)"

text \<open>\<open>bnd m f\<close> runs \<open>m\<close> and goes on as \<open>f\<close> with what it returned.\<close>

definition bnd :: "'a io \<Rightarrow> ('a \<Rightarrow> 'b io) \<Rightarrow> 'b io" where
  "bnd m f rs =
     (case m rs of
        (Ret x, t, rs') \<Rightarrow> (case f x rs' of (r, t', rs'') \<Rightarrow> (r, t @ t', rs''))
      | (Stop z, t, rs') \<Rightarrow> (Stop z, t, rs'))"

text \<open>
  \<open>loop body s\<close> is \<open>while (1)\<close> with \<open>body\<close>: \<open>Inl s'\<close> goes round again (the end of the body or
  \<open>continue\<close>), \<open>Inr x\<close> leaves the loop (\<open>break\<close> or \<open>return\<close>). A turn that makes no system call
  would spin for ever: \<open>Diverge\<close>.
\<close>

function loop :: "('s \<Rightarrow> ('s + 'a) io) \<Rightarrow> 's \<Rightarrow> 'a io" where
  "loop body s rs =
     (case body s rs of
        (Ret (Inl s'), t, rs') \<Rightarrow>
          (if length rs' < length rs
           then (case loop body s' rs' of (r, t', rs'') \<Rightarrow> (r, t @ t', rs''))
           else (Stop Diverge, t, rs'))
      | (Ret (Inr x), t, rs') \<Rightarrow> (Ret x, t, rs')
      | (Stop z, t, rs') \<Rightarrow> (Stop z, t, rs'))"
  by pat_completeness auto
termination
  by (relation "measure (\<lambda>(body, s, rs). length rs)") auto

declare loop.simps [simp del]

lemmas io_defs = ret_def stop_def sys_def tell_def printf_def eprintf_def perror_def syslog_def bnd_def

text \<open>Copying a string into a buffer and the like: overflow when it does not fit.\<close>

definition fits :: "'b option \<Rightarrow> ('b \<Rightarrow> 'a io) \<Rightarrow> 'a io" where
  "fits x k = (case x of None \<Rightarrow> fault Overflow | Some b \<Rightarrow> k b)"

text \<open>A C string argument: the characters up to the NUL, which must be there.\<close>

definition with_cstr :: "buf \<Rightarrow> (string \<Rightarrow> 'a io) \<Rightarrow> 'a io" where
  "with_cstr b k = (if terminated b then k (cstr b) else fault Overread)"

text \<open>The \<open>fd_set\<close> macros, defined for descriptors from 0 below \<open>FD_SETSIZE\<close>.\<close>

definition FD_SETSIZE :: int where "FD_SETSIZE = 1024"

definition fd_set :: "int \<Rightarrow> int set \<Rightarrow> (int set \<Rightarrow> 'a io) \<Rightarrow> 'a io" where
  "fd_set fd S k = (if 0 \<le> fd \<and> fd < FD_SETSIZE then k (insert fd S) else fault Fd_range)"

definition fd_clr :: "int \<Rightarrow> int set \<Rightarrow> (int set \<Rightarrow> 'a io) \<Rightarrow> 'a io" where
  "fd_clr fd S k = (if 0 \<le> fd \<and> fd < FD_SETSIZE then k (S - {fd}) else fault Fd_range)"

definition fd_isset :: "int \<Rightarrow> int set \<Rightarrow> (bool \<Rightarrow> 'a io) \<Rightarrow> 'a io" where
  "fd_isset fd S k = (if 0 \<le> fd \<and> fd < FD_SETSIZE then k (fd \<in> S) else fault Fd_range)"

text \<open>Reading and assigning an array element: out of range is a fault.\<close>

definition arr_get :: "'b list \<Rightarrow> int \<Rightarrow> ('b \<Rightarrow> 'a io) \<Rightarrow> 'a io" where
  "arr_get xs i k = (if 0 \<le> i \<and> i < int (length xs) then k (xs ! nat i) else fault Overread)"

definition arr_set :: "'b list \<Rightarrow> int \<Rightarrow> 'b \<Rightarrow> ('b list \<Rightarrow> 'a io) \<Rightarrow> 'a io" where
  "arr_set xs i x k =
     (if 0 \<le> i \<and> i < int (length xs) then k (xs[nat i := x]) else fault Overflow)"

subsection \<open>Properties of every run\<close>

text \<open>
  \<open>vld fds m Q\<close>: with \<open>fds\<close> open, every run of \<open>m\<close> whose replies keep the kernel's promises ends
  in a result and a trace that satisfy \<open>Q\<close>. The equations compute it along straight-line code;
  calls of other functions and loops have rules.
\<close>

definition vld :: "int set \<Rightarrow> 'a io \<Rightarrow> ('a result \<Rightarrow> event list \<Rightarrow> bool) \<Rightarrow> bool" where
  "vld fds m Q \<longleftrightarrow>
     (\<forall>rs. case m rs of (r, t, rs') \<Rightarrow> conforms fds t \<longrightarrow> Q r t)"

lemma vldI: "(\<And>rs r t rs'. m rs = (r, t, rs') \<Longrightarrow> conforms fds t \<Longrightarrow> Q r t) \<Longrightarrow> vld fds m Q"
  by (auto simp: vld_def)

lemma vldD: "vld fds m Q \<Longrightarrow> m rs = (r, t, rs') \<Longrightarrow> conforms fds t \<Longrightarrow> Q r t"
  by (auto simp: vld_def dest: spec [of _ rs])

lemma vld_ret [io_simps]: "vld fds (ret x) Q \<longleftrightarrow> Q (Ret x) []"
  by (simp add: vld_def ret_def)

lemma vld_stop [io_simps]: "vld fds (stop z) Q \<longleftrightarrow> Q (Stop z) []"
  by (simp add: vld_def stop_def)

lemma vld_sys [io_simps]:
  "vld fds (sys c k) Q \<longleftrightarrow>
     Q (Stop Blocked) [] \<and>
     (\<forall>a. sys_ok fds c a \<longrightarrow> vld (fds_after fds c a) (k a) (\<lambda>r t. Q r (Call c a # t)))"
  (is "?l \<longleftrightarrow> ?r")
proof
  assume l: ?l
  have "Q (Stop Blocked) []" using vldD [OF l, of "[]"] by (simp add: sys_def)
  moreover have "vld (fds_after fds c a) (k a) (\<lambda>r t. Q r (Call c a # t))" if "sys_ok fds c a" for a
  proof (rule vldI)
    fix rs r t rs' assume "k a rs = (r, t, rs')" and "conforms (fds_after fds c a) t"
    then show "Q r (Call c a # t)" using vldD [OF l, of "a # rs"] that by (simp add: sys_def)
  qed
  ultimately show ?r by blast
next
  assume r: ?r
  show ?l
  proof (rule vldI)
    fix rs r t rs'
    assume run: "sys c k rs = (r, t, rs')" and conf: "conforms fds t"
    show "Q r t"
    proof (cases rs)
      case Nil
      then show ?thesis using run r by (simp add: sys_def)
    next
      case (Cons a rs1)
      then obtain t1 where k: "k a rs1 = (r, t1, rs')" and t: "t = Call c a # t1"
        using run by (auto simp: sys_def split: prod.splits)
      then have "sys_ok fds c a" and "conforms (fds_after fds c a) t1" using conf by auto
      with r have "vld (fds_after fds c a) (k a) (\<lambda>r t. Q r (Call c a # t))" by blast
      from vldD [OF this k \<open>conforms (fds_after fds c a) t1\<close>] t show ?thesis by simp
    qed
  qed
qed

lemma vld_tell: "(\<And>c a. e \<noteq> Call c a) \<Longrightarrow> vld fds (tell e m) Q \<longleftrightarrow> vld fds m (\<lambda>r t. Q r (e # t))"
  by (cases e) (fastforce simp: vld_def tell_def split: prod.splits)+

lemma vld_print [io_simps]:
  "vld fds (printf s m) Q \<longleftrightarrow> vld fds m (\<lambda>r t. Q r (Out s # t))"
  "vld fds (eprintf s m) Q \<longleftrightarrow> vld fds m (\<lambda>r t. Q r (Err s # t))"
  "vld fds (perror s m) Q \<longleftrightarrow> vld fds m (\<lambda>r t. Q r (Perror s # t))"
  "vld fds (syslog s m) Q \<longleftrightarrow> vld fds m (\<lambda>r t. Q r (Syslog s # t))"
  by (simp_all add: printf_def eprintf_def perror_def syslog_def vld_tell)

lemma vld_bnd:
  assumes "vld fds m (\<lambda>r t. case r of
      Ret x \<Rightarrow> vld (fds_run fds t) (f x) (\<lambda>r' t'. Q r' (t @ t'))
    | Stop z \<Rightarrow> Q (Stop z) t)"
  shows "vld fds (bnd m f) Q"
proof (rule vldI)
  fix rs r t rs'
  assume run: "bnd m f rs = (r, t, rs')" and conf: "conforms fds t"
  obtain r1 t1 rs1 where m: "m rs = (r1, t1, rs1)" by (cases "m rs") auto
  show "Q r t"
  proof (cases r1)
    case (Ret x)
    obtain r2 t2 rs2 where f: "f x rs1 = (r2, t2, rs2)" by (cases "f x rs1") auto
    have t: "t = t1 @ t2" and r: "r = r2" using run m f Ret by (auto simp: bnd_def)
    then have "conforms fds t1" and "conforms (fds_run fds t1) t2" using conf by auto
    with vldD [OF assms m] Ret f r t show ?thesis by (auto dest: vldD)
  next
    case (Stop z)
    then show ?thesis using run m conf vldD [OF assms m] by (auto simp: bnd_def)
  qed
qed

lemma vld_mono: "vld fds m Q \<Longrightarrow> (\<And>r t. conforms fds t \<Longrightarrow> Q r t \<Longrightarrow> Q' r t) \<Longrightarrow> vld fds m Q'"
  by (rule vldI) (blast dest: vldD)

text \<open>The call of a function by what is known of it.\<close>

lemma vld_bnd_use:
  assumes "vld fds m P"
    and "\<And>x t. P (Ret x) t \<Longrightarrow> vld (fds_run fds t) (f x) (\<lambda>r' t'. Q r' (t @ t'))"
    and "\<And>z t. P (Stop z) t \<Longrightarrow> Q (Stop z) t"
  shows "vld fds (bnd m f) Q"
  by (rule vld_bnd, rule vld_mono [OF assms(1)]) (auto split: result.split intro: assms(2,3))

lemma vld_conj: "vld fds m P \<Longrightarrow> vld fds m Q \<Longrightarrow> vld fds m (\<lambda>r t. P r t \<and> Q r t)"
  by (rule vldI) (blast dest: vldD)

lemma vld_if [io_simps]:
  "vld fds (if b then m else m') Q \<longleftrightarrow> (b \<longrightarrow> vld fds m Q) \<and> (\<not> b \<longrightarrow> vld fds m' Q)"
  by simp

lemma vld_fits [io_simps]:
  "vld fds (fits x k) Q \<longleftrightarrow>
     (x = None \<longrightarrow> Q (Stop (Fault Overflow)) []) \<and> (\<forall>b. x = Some b \<longrightarrow> vld fds (k b) Q)"
  by (auto simp: fits_def vld_stop split: option.split)

lemma vld_with_cstr [io_simps]:
  "vld fds (with_cstr b k) Q \<longleftrightarrow>
     (terminated b \<longrightarrow> vld fds (k (cstr b)) Q) \<and> (\<not> terminated b \<longrightarrow> Q (Stop (Fault Overread)) [])"
  by (simp add: with_cstr_def vld_stop)

lemma vld_fd_macros [io_simps]:
  "vld fds (fd_set fd S k) Q \<longleftrightarrow>
     (if 0 \<le> fd \<and> fd < FD_SETSIZE then vld fds (k (insert fd S)) Q else Q (Stop (Fault Fd_range)) [])"
  "vld fds (fd_clr fd S k) Q \<longleftrightarrow>
     (if 0 \<le> fd \<and> fd < FD_SETSIZE then vld fds (k (S - {fd})) Q else Q (Stop (Fault Fd_range)) [])"
  "vld fds (fd_isset fd S k') Q \<longleftrightarrow>
     (if 0 \<le> fd \<and> fd < FD_SETSIZE then vld fds (k' (fd \<in> S)) Q else Q (Stop (Fault Fd_range)) [])"
  by (simp_all add: fd_set_def fd_clr_def fd_isset_def vld_stop)

lemma vld_arr [io_simps]:
  "vld fds (arr_get xs i k) Q \<longleftrightarrow>
     (if 0 \<le> i \<and> i < int (length xs) then vld fds (k (xs ! nat i)) Q else Q (Stop (Fault Overread)) [])"
  "vld fds (arr_set xs i x k') Q \<longleftrightarrow>
     (if 0 \<le> i \<and> i < int (length xs) then vld fds (k' (xs[nat i := x])) Q
      else Q (Stop (Fault Overflow)) [])"
  by (simp_all add: arr_get_def arr_set_def vld_stop)

text \<open>The call of a straight-line function is computed in place.\<close>

lemma bnd_ret [io_simps]: "bnd (ret x) f = f x"
  by (rule ext) (simp add: bnd_def ret_def split: prod.split)

lemma bnd_stop [io_simps]: "bnd (stop z) f = stop z"
  by (rule ext) (simp add: bnd_def stop_def)

lemma bnd_sys [io_simps]: "bnd (sys c k) f = sys c (\<lambda>a. bnd (k a) f)"
  by (rule ext) (auto simp: bnd_def sys_def split: list.split prod.split result.split)

lemma bnd_tell: "bnd (tell e m) f = tell e (bnd m f)"
  by (rule ext) (auto simp: bnd_def tell_def split: prod.split result.split)

lemma bnd_print [io_simps]:
  "bnd (printf s m) f = printf s (bnd m f)" "bnd (eprintf s m) f = eprintf s (bnd m f)"
  "bnd (perror s m) f = perror s (bnd m f)" "bnd (syslog s m) f = syslog s (bnd m f)"
  by (simp_all add: printf_def eprintf_def perror_def syslog_def bnd_tell)

lemma bnd_if [io_simps]: "bnd (if b then m else m') f = (if b then bnd m f else bnd m' f)"
  by simp

lemma bnd_helpers [io_simps]:
  "bnd (fits x k1) f = fits x (\<lambda>b. bnd (k1 b) f)"
  "bnd (with_cstr b k2) f = with_cstr b (\<lambda>s. bnd (k2 s) f)"
  "bnd (fd_set fd S k3) f = fd_set fd S (\<lambda>S'. bnd (k3 S') f)"
  "bnd (fd_clr fd S k3) f = fd_clr fd S (\<lambda>S'. bnd (k3 S') f)"
  "bnd (fd_isset fd S k4) f = fd_isset fd S (\<lambda>r. bnd (k4 r) f)"
  "bnd (arr_get xs i k5) f = arr_get xs i (\<lambda>y. bnd (k5 y) f)"
  "bnd (arr_set xs i y k6) f = arr_set xs i y (\<lambda>ys. bnd (k6 ys) f)"
  by (auto simp: fits_def with_cstr_def fd_set_def fd_clr_def fd_isset_def arr_get_def arr_set_def
      bnd_stop split: option.split)

lemma bnd_assoc: "bnd (bnd m f) g = bnd m (\<lambda>x. bnd (f x) g)"
  by (rule ext) (auto simp: bnd_def split: prod.split result.split)

text \<open>A fact about the run of a program on given replies.\<close>

lemma run_case:
  "(\<And>r t rs'. m rs = (r, t, rs') \<Longrightarrow> P r t rs') \<Longrightarrow> case m rs of (r, t, rs') \<Rightarrow> P r t rs'"
  by (simp split: prod.split)

subsection \<open>The contract of a loop\<close>

text \<open>
  The states at the head of a loop, with the descriptors open and the trace so far.
\<close>

inductive reach ::
  "('s \<Rightarrow> ('s + 'a) io) \<Rightarrow> int set \<Rightarrow> 's \<Rightarrow> int set \<Rightarrow> 's \<Rightarrow> event list \<Rightarrow> bool"
  for body fds0 s0 where
  start: "reach body fds0 s0 fds0 s0 []"
| turn: "reach body fds0 s0 fds s h \<Longrightarrow> body s rs = (Ret (Inl s'), t, rs') \<Longrightarrow> conforms fds t \<Longrightarrow>
    reach body fds0 s0 (fds_run fds t) s' (h @ t)"

lemma reach_first:
  "body s0 rs = (Ret (Inl s'), t, rs') \<Longrightarrow> conforms fds0 t \<Longrightarrow> reach body fds0 s0 (fds_run fds0 t) s' t"
  using reach.turn [where body = body and fds = fds0 and s = s0 and h = "[]", OF reach.start]
  by (simp add: reach.start)

text \<open>
  What a program's loop body promises: from a state in the invariant one turn ends in the
  invariant again, or the loop stops with a result that satisfies the postcondition. The
  invariant sees the open descriptors and everything the loop has done so far.
\<close>

locale loop_contract =
  fixes body :: "'s \<Rightarrow> ('s + 'a) io"
    and inv :: "int set \<Rightarrow> 's \<Rightarrow> event list \<Rightarrow> bool"
    and post :: "'a result \<Rightarrow> event list \<Rightarrow> bool"
  assumes keep: "inv fds s h \<Longrightarrow>
      vld fds (body s) (\<lambda>r t. case r of
          Ret (Inl s') \<Rightarrow> inv (fds_run fds t) s' (h @ t)
        | Ret (Inr x) \<Rightarrow> post (Ret x) (h @ t)
        | Stop z \<Rightarrow> post (Stop z) (h @ t))"
    and spin: "inv fds s h \<Longrightarrow> post (Stop Diverge) h"
begin

lemma reach_inv: "reach body fds0 s0 fds s h \<Longrightarrow> inv fds0 s0 [] \<Longrightarrow> inv fds s h"
proof (induction rule: reach.induct)
  case (turn fds s h rs s' t rs')
  then have "inv fds s h" by simp
  from vldD [OF keep [OF this] turn(2,3)] show ?case by simp
qed

lemma run_post:
  "inv fds s h \<Longrightarrow> loop body s rs = (r, t, rs') \<Longrightarrow> conforms fds t \<Longrightarrow> post r (h @ t)"
proof (induction "length rs" arbitrary: fds s h rs r t rs' rule: less_induct)
  case less
  obtain r1 t1 rs1 where b: "body s rs = (r1, t1, rs1)" by (cases "body s rs") auto
  note step = vldD [OF keep [OF less.prems(1)] b]
  show ?case
  proof (cases r1)
    case (Stop z)
    then have "r = Stop z" "t = t1" using less.prems(2) b by (auto simp: loop.simps [of body s rs])
    with step Stop less.prems(3) show ?thesis by simp
  next
    case (Ret x)
    show ?thesis
    proof (cases x)
      case (Inr y)
      then have "r = Ret y" "t = t1"
        using less.prems(2) b Ret by (auto simp: loop.simps [of body s rs])
      with step Ret Inr less.prems(3) show ?thesis by simp
    next
      case (Inl s')
      show ?thesis
      proof (cases "length rs1 < length rs")
        case False
        then have "r = Stop Diverge" "t = t1"
          using less.prems(2) b Ret Inl by (auto simp: loop.simps [of body s rs])
        with step Ret Inl less.prems(3) spin show ?thesis by simp
      next
        case True
        obtain r2 t2 rs2 where l: "loop body s' rs1 = (r2, t2, rs2)"
          by (cases "loop body s' rs1") auto
        then have rt: "r = r2" "t = t1 @ t2"
          using less.prems(2) b Ret Inl True by (auto simp: loop.simps [of body s rs])
        then have "inv (fds_run fds t1) s' (h @ t1)" using step Ret Inl less.prems(3) by simp
        from less.hyps [OF True this l] rt less.prems(3) show ?thesis by simp
      qed
    qed
  qed
qed

lemma loop_post: "inv fds s [] \<Longrightarrow> vld fds (loop body s) post"
  using run_post [of fds s "[]"] by (intro vldI) auto

lemma loop_post_from: "inv fds s h \<Longrightarrow> vld fds (loop body s) (\<lambda>r t. post r (h @ t))"
  using run_post [of fds s h] by (intro vldI) auto

end

subsection \<open>Programs that do not spin\<close>

text \<open>
  \<open>steady m\<close>: \<open>m\<close> never stops as \<open>Diverge\<close>. \<open>busy m\<close>: besides, \<open>m\<close> makes a system call before it
  returns. A loop whose every turn is busy before it goes round again does not spin: when it has
  neither returned nor stopped it is waiting in a system call.
\<close>

definition steady :: "'a io \<Rightarrow> bool" where
  "steady m \<longleftrightarrow>
     (\<forall>rs r t rs'. m rs = (r, t, rs') \<longrightarrow> r \<noteq> Stop Diverge \<and> length rs' \<le> length rs)"

definition busy_when :: "('a \<Rightarrow> bool) \<Rightarrow> 'a io \<Rightarrow> bool" where
  "busy_when P m \<longleftrightarrow>
     steady m \<and> (\<forall>rs x t rs'. m rs = (Ret x, t, rs') \<longrightarrow> P x \<longrightarrow> length rs' < length rs)"

lemma steadyI:
  "(\<And>rs r t rs'. m rs = (r, t, rs') \<Longrightarrow> r \<noteq> Stop Diverge \<and> length rs' \<le> length rs) \<Longrightarrow> steady m"
  by (simp add: steady_def)

lemma steady_fst: "steady m \<Longrightarrow> fst (m rs) \<noteq> Stop Diverge"
  by (cases "m rs") (auto simp: steady_def)

lemma steady_ret [steady_intros]: "steady (ret x)"
  by (simp add: steady_def ret_def)

lemma steady_stop [steady_intros]: "z \<noteq> Diverge \<Longrightarrow> steady (stop z)"
  by (simp add: steady_def stop_def)

lemma steady_tell [steady_intros]: "steady m \<Longrightarrow> steady (tell e m)"
  by (fastforce simp: steady_def tell_def split: prod.splits)

lemma steady_print [steady_intros]:
  "steady m \<Longrightarrow> steady (printf s m)" "steady m \<Longrightarrow> steady (eprintf s m)"
  "steady m \<Longrightarrow> steady (perror s m)" "steady m \<Longrightarrow> steady (syslog s m)"
  by (simp_all add: printf_def eprintf_def perror_def syslog_def steady_tell)

lemma busy_sys: "(\<And>a. steady (k a)) \<Longrightarrow> busy_when P (sys c k)"
  by (fastforce simp: busy_when_def steady_def sys_def split: list.splits prod.splits)

lemma busy_print:
  "busy_when P m \<Longrightarrow> busy_when P (printf s m)"
  by (fastforce simp: busy_when_def steady_def printf_def tell_def split: prod.splits)

lemma steady_sys [steady_intros]: "(\<And>a. steady (k a)) \<Longrightarrow> steady (sys c k)"
  using busy_sys [of k "\<lambda>_. True" c] by (simp add: busy_when_def)

lemma steady_bnd [steady_intros]:
  assumes m: "steady m" and f: "\<And>x. steady (f x)"
  shows "steady (bnd m f)"
proof (rule steadyI)
  fix rs r t rs'
  assume run: "bnd m f rs = (r, t, rs')"
  obtain r1 t1 rs1 where m1: "m rs = (r1, t1, rs1)" by (cases "m rs") auto
  with m have 1: "r1 \<noteq> Stop Diverge" "length rs1 \<le> length rs" by (auto simp: steady_def)
  show "r \<noteq> Stop Diverge \<and> length rs' \<le> length rs"
  proof (cases r1)
    case (Ret x)
    obtain r2 t2 rs2 where f1: "f x rs1 = (r2, t2, rs2)" by (cases "f x rs1") auto
    with f have "r2 \<noteq> Stop Diverge" "length rs2 \<le> length rs1" by (auto simp: steady_def)
    with 1 run m1 f1 Ret show ?thesis by (auto simp: bnd_def)
  next
    case (Stop z)
    with 1 run m1 show ?thesis by (auto simp: bnd_def)
  qed
qed

lemma busy_bnd:
  assumes m: "steady m" and f: "\<And>x. busy_when P (f x)"
  shows "busy_when P (bnd m f)"
proof -
  have st: "steady (bnd m f)" using m f by (auto simp: busy_when_def intro: steady_bnd)
  have "length rs' < length rs" if run: "bnd m f rs = (Ret x, t, rs')" and P: "P x" for rs x t rs'
  proof -
    obtain r1 t1 rs1 where m1: "m rs = (r1, t1, rs1)" by (cases "m rs") auto
    with run obtain y where "r1 = Ret y" by (cases r1) (auto simp: bnd_def)
    with run m1 obtain t2 where "f y rs1 = (Ret x, t2, rs')"
      by (auto simp: bnd_def split: prod.splits)
    with f P have "length rs' < length rs1" by (auto simp: busy_when_def)
    moreover have "length rs1 \<le> length rs" using m m1 by (auto simp: steady_def)
    ultimately show ?thesis by simp
  qed
  with st show ?thesis by (auto simp: busy_when_def)
qed

lemma busy_bnd_first:
  assumes m: "busy_when (\<lambda>_. True) m" and f: "\<And>x. steady (f x)"
  shows "busy_when P (bnd m f)"
proof -
  have st: "steady (bnd m f)" using m f by (auto simp: busy_when_def intro: steady_bnd)
  have "length rs' < length rs" if run: "bnd m f rs = (Ret x, t, rs')" for rs x t rs'
  proof -
    obtain r1 t1 rs1 where m1: "m rs = (r1, t1, rs1)" by (cases "m rs") auto
    with run obtain y where y: "r1 = Ret y" by (cases r1) (auto simp: bnd_def)
    with run m1 obtain t2 where "f y rs1 = (Ret x, t2, rs')"
      by (auto simp: bnd_def split: prod.splits)
    with f have "length rs' \<le> length rs1" by (auto simp: steady_def)
    moreover have "length rs1 < length rs" using m m1 y by (auto simp: busy_when_def)
    ultimately show ?thesis by simp
  qed
  with st show ?thesis by (auto simp: busy_when_def)
qed

lemma steady_helpers [steady_intros]:
  "(\<And>b. steady (k b)) \<Longrightarrow> steady (fits x k)"
  "(\<And>s. steady (k' s)) \<Longrightarrow> steady (with_cstr b k')"
  "(\<And>S. steady (k1 S)) \<Longrightarrow> steady (fd_set fd S k1)"
  "(\<And>S. steady (k1 S)) \<Longrightarrow> steady (fd_clr fd S k1)"
  "(\<And>b. steady (k2 b)) \<Longrightarrow> steady (fd_isset fd S k2)"
  "(\<And>y. steady (k3 y)) \<Longrightarrow> steady (arr_get xs i k3)"
  "(\<And>ys. steady (k4 ys)) \<Longrightarrow> steady (arr_set ys i y k4)"
  by (auto simp: fits_def with_cstr_def fd_set_def fd_clr_def fd_isset_def arr_get_def arr_set_def
      intro: steady_stop split: option.split)

lemma steady_if [steady_intros]:
  "(b \<Longrightarrow> steady m) \<Longrightarrow> (\<not> b \<Longrightarrow> steady m') \<Longrightarrow> steady (if b then m else m')"
  by simp

text \<open>What a loop needs for it: a turn that goes round again has made a call.\<close>

locale busy_loop =
  fixes body :: "'s \<Rightarrow> ('s + 'a) io"
  assumes busy: "busy_when (\<lambda>x. \<exists>s'. x = Inl s') (body s)"
begin

lemma loop_steady: "steady (loop body s)"
proof -
  have "r \<noteq> Stop Diverge \<and> length rs' \<le> length rs" if "loop body s rs = (r, t, rs')" for rs r t rs'
    using that
  proof (induction "length rs" arbitrary: s rs r t rs' rule: less_induct)
    case less
    obtain r1 t1 rs1 where b: "body s rs = (r1, t1, rs1)" by (cases "body s rs") auto
    with busy [of s] have 1: "r1 \<noteq> Stop Diverge" "length rs1 \<le> length rs"
      by (auto simp: busy_when_def steady_def)
    show ?case
    proof (cases "\<exists>s'. r1 = Ret (Inl s')")
      case True
      then obtain s' where s': "r1 = Ret (Inl s')" by blast
      with busy [of s] b have lt: "length rs1 < length rs" by (auto simp: busy_when_def)
      obtain r2 t2 rs2 where l: "loop body s' rs1 = (r2, t2, rs2)"
        by (cases "loop body s' rs1") auto
      from less.hyps [OF lt l] less.prems b s' l lt show ?thesis
        by (auto simp: loop.simps [of body s rs])
    next
      case False
      with less.prems b 1 show ?thesis
        by (auto simp: loop.simps [of body s rs] split: result.splits sum.splits)
    qed
  qed
  then show ?thesis by (rule steadyI)
qed

end

text \<open>Turns that are busy before they go round.\<close>

lemma busy_ret: "\<not> P x \<Longrightarrow> busy_when P (ret x)"
  by (simp add: busy_when_def steady_ret) (simp add: ret_def)

lemma busy_stop: "z \<noteq> Diverge \<Longrightarrow> busy_when P (stop z)"
  by (simp add: busy_when_def steady_stop) (simp add: stop_def)

lemma busy_if: "(b \<Longrightarrow> busy_when P m) \<Longrightarrow> (\<not> b \<Longrightarrow> busy_when P m') \<Longrightarrow> busy_when P (if b then m else m')"
  by simp

lemma busy_fd_set: "(\<And>S. busy_when P (k S)) \<Longrightarrow> busy_when P (fd_set fd S k)"
  by (simp add: fd_set_def busy_stop)

lemmas busy_intros = busy_ret busy_stop busy_if busy_fd_set busy_print busy_sys

lemma steady_busy: "busy_when P m \<Longrightarrow> steady m"
  by (simp add: busy_when_def)

end
