(* ===== verification/Trace.thy ===== *)
theory Trace
  imports Sys "HOL-Library.Sublist"
begin

text \<open>
  What a trace says: the bytes a descriptor brought and the bytes it took, the calls made on it,
  the text printed. The properties of the components are stated over these.
\<close>

subsection \<open>Bytes in and out of a descriptor\<close>

fun got_by :: "int \<Rightarrow> event \<Rightarrow> char list" where
  "got_by fd (Call (Transfer fd' (READ n)) a) = (if fd' = fd then dat a else [])"
| "got_by fd (Call (Transfer fd' (RECV n)) a) = (if fd' = fd then dat a else [])"
| "got_by fd _ = []"

fun put_by :: "int \<Rightarrow> event \<Rightarrow> char list" where
  "put_by fd (Call (Transfer fd' (WRITE bs)) a) = (if fd' = fd then take (nat (rv a)) bs else [])"
| "put_by fd (Call (Transfer fd' (SEND bs)) a) = (if fd' = fd then take (nat (rv a)) bs else [])"
| "put_by fd _ = []"

definition received :: "int \<Rightarrow> event list \<Rightarrow> char list" where
  "received fd t = concat (map (got_by fd) t)"

definition written :: "int \<Rightarrow> event list \<Rightarrow> char list" where
  "written fd t = concat (map (put_by fd) t)"

lemma received_simps [simp]:
  "received fd [] = []"
  "received fd (e # t) = got_by fd e @ received fd t"
  "received fd (s @ t) = received fd s @ received fd t"
  by (simp_all add: received_def)

lemma written_simps [simp]:
  "written fd [] = []"
  "written fd (e # t) = put_by fd e @ written fd t"
  "written fd (s @ t) = written fd s @ written fd t"
  by (simp_all add: written_def)

lemma subseq_take: "subseq (take n xs) xs"
  by (intro sublist_imp_subseq prefix_imp_sublist take_is_prefix)

lemma subseq_snoc: "subseq a b \<Longrightarrow> subseq (a @ take n c) (b @ c)"
  by (rule list_emb_append_mono [OF _ subseq_take])

text \<open>The writes that took all they were given.\<close>

fun full_write :: "event \<Rightarrow> bool" where
  "full_write (Call (Transfer fd (WRITE bs)) a) = (rv a = int (length bs))"
| "full_write _ = True"

definition full_writes :: "event list \<Rightarrow> bool" where
  "full_writes t = list_all full_write t"

lemma full_writes_simps [simp]:
  "full_writes []" "full_writes (e # t) \<longleftrightarrow> full_write e \<and> full_writes t"
  "full_writes (s @ t) \<longleftrightarrow> full_writes s \<and> full_writes t"
  by (simp_all add: full_writes_def)

subsection \<open>Calls\<close>

text \<open>How often a call was made, and the descriptors that were read.\<close>

fun is_call :: "call \<Rightarrow> event \<Rightarrow> bool" where
  "is_call c (Call c' a) = (c' = c)"
| "is_call c _ = False"

definition calls :: "call \<Rightarrow> event list \<Rightarrow> nat" where
  "calls c t = length (filter (is_call c) t)"

lemma calls_simps [simp]:
  "calls c [] = 0"
  "calls c (e # t) = (if is_call c e then 1 else 0) + calls c t"
  "calls c (s @ t) = calls c s + calls c t"
  by (simp_all add: calls_def)

fun reads_of :: "event list \<Rightarrow> int list" where
  "reads_of [] = []"
| "reads_of (Call (Transfer fd (READ n)) a # t) = fd # reads_of t"
| "reads_of (Call (Transfer fd (RECV n)) a # t) = fd # reads_of t"
| "reads_of (e # t) = reads_of t"

lemma reads_of_append [simp]: "reads_of (s @ t) = reads_of s @ reads_of t"
  by (induction s rule: reads_of.induct) auto

text \<open>A read that met the end of the input.\<close>

fun is_eof :: "int \<Rightarrow> event \<Rightarrow> bool" where
  "is_eof fd (Call (Transfer fd' (READ n)) a) = (fd' = fd \<and> rv a = 0)"
| "is_eof fd (Call (Transfer fd' (RECV n)) a) = (fd' = fd \<and> rv a = 0)"
| "is_eof fd _ = False"

definition eof_on :: "int \<Rightarrow> event list \<Rightarrow> bool" where
  "eof_on fd t = list_ex (is_eof fd) t"

lemma eof_on_simps [simp]:
  "\<not> eof_on fd []"
  "eof_on fd (e # t) \<longleftrightarrow> is_eof fd e \<or> eof_on fd t"
  "eof_on fd (s @ t) \<longleftrightarrow> eof_on fd s \<or> eof_on fd t"
  by (simp_all add: eof_on_def)

text \<open>What was offered to each \<open>write\<close>.\<close>

fun offered :: "event list \<Rightarrow> (int \<times> string) list" where
  "offered [] = []"
| "offered (Call (Transfer fd (WRITE bs)) a # t) = (fd, bs) # offered t"
| "offered (_ # t) = offered t"

lemma offered_append [simp]: "offered (s @ t) = offered s @ offered t"
  by (induction s rule: offered.induct) auto

text \<open>The datagrams sent, with where to, and the senders of those received.\<close>

fun sent_to :: "event list \<Rightarrow> (string \<times> sockaddr) list" where
  "sent_to [] = []"
| "sent_to (Call (Transfer fd (SENDTO bs sa)) a # t) = (bs, sa) # sent_to t"
| "sent_to (_ # t) = sent_to t"

fun senders :: "event list \<Rightarrow> sockaddr list" where
  "senders [] = []"
| "senders (Call (Transfer fd (RECVFROM n)) a # t) = peer a # senders t"
| "senders (_ # t) = senders t"

lemma sent_to_append [simp]: "sent_to (s @ t) = sent_to s @ sent_to t"
  by (induction s rule: sent_to.induct) auto

lemma senders_append [simp]: "senders (s @ t) = senders s @ senders t"
  by (induction s rule: senders.induct) auto

text \<open>What the calls that make a descriptor returned.\<close>

fun new_fds :: "event list \<Rightarrow> int list" where
  "new_fds [] = []"
| "new_fds (Call c a # t) = (if makes_fd c then rv a # new_fds t else new_fds t)"
| "new_fds (_ # t) = new_fds t"

lemma new_fds_append [simp]: "new_fds (s @ t) = new_fds s @ new_fds t"
  by (induction s rule: new_fds.induct) auto

text \<open>A descriptor was asked for, and none came or none that an \<open>fd_set\<close> can hold.\<close>

definition bad_new_fd :: "event list \<Rightarrow> bool" where
  "bad_new_fd t \<longleftrightarrow> (\<exists>fd \<in> set (new_fds t). fd < 0 \<or> FD_SETSIZE \<le> fd)"

lemma bad_new_fd_simps [simp]:
  "\<not> bad_new_fd []"
  "bad_new_fd (Call c a # t) \<longleftrightarrow> (makes_fd c \<and> (rv a < 0 \<or> FD_SETSIZE \<le> rv a)) \<or> bad_new_fd t"
  "bad_new_fd (Out s # t) = bad_new_fd t" "bad_new_fd (Err s # t) = bad_new_fd t"
  "bad_new_fd (Perror s # t) = bad_new_fd t" "bad_new_fd (Syslog s # t) = bad_new_fd t"
  "bad_new_fd (t1 @ t2) \<longleftrightarrow> bad_new_fd t1 \<or> bad_new_fd t2"
  by (auto simp: bad_new_fd_def)

text \<open>The text printed on standard output.\<close>

fun printed :: "event list \<Rightarrow> string list" where
  "printed [] = []"
| "printed (Out s # t) = s # printed t"
| "printed (_ # t) = printed t"

lemma printed_append [simp]: "printed (s @ t) = printed s @ printed t"
  by (induction s rule: printed.induct) auto

text \<open>Printing several texts, one after the other.\<close>

definition says :: "string list \<Rightarrow> 'a io \<Rightarrow> 'a io" where
  "says ms m = foldr printf ms m"

lemma says_simps [simp]: "says [] m = m" "says (s # ms) m = printf s (says ms m)"
  by (simp_all add: says_def)

lemma vld_says [io_simps]:
  "vld fds (says ms m) Q \<longleftrightarrow> vld fds m (\<lambda>r t. Q r (map Out ms @ t))"
  by (induction ms arbitrary: Q) (simp_all add: vld_print)

lemma bnd_says [io_simps]: "bnd (says ms m) f = says ms (bnd m f)"
  by (induction ms) (simp_all add: bnd_print)

lemma steady_says [steady_intros]: "steady m \<Longrightarrow> steady (says ms m)"
  by (induction ms) (simp_all add: steady_print)

lemma map_Out_simps [simp]:
  "reads_of (map Out ms) = []" "new_fds (map Out ms) = []" "fds_run fds (map Out ms) = fds"
  "bad_new_fd (map Out ms) = False" "received fd (map Out ms) = []" "written fd (map Out ms) = []"
  "printed (map Out ms) = ms"
  by (induction ms) auto

subsection \<open>Only open descriptors are used\<close>

fun uses_open :: "int set \<Rightarrow> event list \<Rightarrow> bool" where
  "uses_open fds [] = True"
| "uses_open fds (Call c a # t) =
     ((case fd_of c of Some fd \<Rightarrow> fd \<in> fds | None \<Rightarrow> True) \<and> uses_open (fds_after fds c a) t)"
| "uses_open fds (_ # t) = uses_open fds t"

lemma uses_open_append [simp]:
  "uses_open fds (s @ t) \<longleftrightarrow> uses_open fds s \<and> uses_open (fds_run fds s) t"
  by (induction fds s rule: uses_open.induct) auto

subsection \<open>A byte queue\<close>

text \<open>
  What a relay asks of the buffer between its input and its output: \<open>room\<close> more bytes fit,
  \<open>fill\<close> appends what was read, \<open>drain n\<close> drops the \<open>n\<close> oldest bytes of \<open>pending\<close> once they are
  written.
\<close>

locale byte_queue =
  fixes wf :: "'q \<Rightarrow> bool"
    and pending :: "'q \<Rightarrow> char list"
    and room :: "'q \<Rightarrow> nat"
    and fill :: "char list \<Rightarrow> 'q \<Rightarrow> 'q"
    and drain :: "nat \<Rightarrow> 'q \<Rightarrow> 'q"
  assumes fill_wf: "wf q \<Longrightarrow> length bs \<le> room q \<Longrightarrow> wf (fill bs q)"
    and fill_pending: "wf q \<Longrightarrow> length bs \<le> room q \<Longrightarrow> pending (fill bs q) = pending q @ bs"
    and drain_wf: "wf q \<Longrightarrow> n \<le> length (pending q) \<Longrightarrow> wf (drain n q)"
    and drain_pending: "wf q \<Longrightarrow> n \<le> length (pending q) \<Longrightarrow> pending (drain n q) = drop n (pending q)"
begin

text \<open>
  The relay's law: what was written, then what is pending, is what was read. Reading into the
  queue and writing from it keep the law, so what was written is always a prefix of what was read.
\<close>

definition relays :: "'q \<Rightarrow> char list \<Rightarrow> char list \<Rightarrow> bool" where
  "relays q inp out \<longleftrightarrow> wf q \<and> out @ pending q = inp"

lemma relays_fill:
  "relays q inp out \<Longrightarrow> length bs \<le> room q \<Longrightarrow> relays (fill bs q) (inp @ bs) out"
  by (auto simp: relays_def fill_wf fill_pending)

lemma relays_drain:
  assumes "relays q inp out" and "n \<le> length (pending q)"
  shows "relays (drain n q) inp (out @ take n (pending q))"
  using assms by (auto simp: relays_def drain_wf drain_pending)

lemma relays_prefix: "relays q inp out \<Longrightarrow> prefix out inp"
  by (auto simp: relays_def)

lemma relays_write_prefix: "relays q inp out \<Longrightarrow> prefix (out @ take n (pending q)) inp"
  by (auto simp: relays_def take_is_prefix)

lemma relays_empty: "relays q inp out \<Longrightarrow> pending q = [] \<Longrightarrow> out = inp"
  by (simp add: relays_def)

end

end
