(* ===== verification/Eval.thy ===== *)
theory Eval
  imports Trace
begin

text \<open>
  Running a program on concrete replies by rewriting, for the examples. \<open>run_simps\<close> computes a
  program applied to a list of replies; the congruences \<open>lazy\<close> keep the rewriting out of what a
  program does after a call until the reply of the call is there. The last section holds the
  replies the examples share.
\<close>

subsection \<open>Lazy rewriting of programs\<close>

lemma sys_lazy: "sys c k = sys c k" by (rule refl)
lemma bnd_lazy: "bnd m k = bnd m k" by (rule refl)

lemma print_lazy:
  "printf s m = printf s m" "eprintf s m = eprintf s m" "perror s m = perror s m"
  "syslog s m = syslog s m"
  by (rule refl)+

lemma fits_lazy: "x = x' \<Longrightarrow> fits x k = fits x' k" by simp
lemma with_cstr_lazy: "b = b' \<Longrightarrow> with_cstr b k = with_cstr b' k" by simp

lemma fd_lazy:
  "fd = fd' \<Longrightarrow> S = S' \<Longrightarrow> fd_set fd S k = fd_set fd' S' k"
  "fd = fd' \<Longrightarrow> S = S' \<Longrightarrow> fd_clr fd S k = fd_clr fd' S' k"
  "fd = fd' \<Longrightarrow> S = S' \<Longrightarrow> fd_isset fd S k' = fd_isset fd' S' k'"
  by simp_all

lemma arr_lazy:
  "xs = xs' \<Longrightarrow> i = i' \<Longrightarrow> arr_get xs i k = arr_get xs' i' k"
  "ys = ys' \<Longrightarrow> i = i' \<Longrightarrow> y = y' \<Longrightarrow> arr_set ys i y k' = arr_set ys' i' y' k'"
  by simp_all

lemmas lazy =
  sys_lazy bnd_lazy print_lazy fits_lazy with_cstr_lazy fd_lazy arr_lazy

lemma run_print:
  "printf s m rs = tell (Out s) m rs" "eprintf s m rs = tell (Err s) m rs"
  "perror s m rs = tell (Perror s) m rs" "syslog s m rs = tell (Syslog s) m rs"
  by (simp_all add: printf_def eprintf_def perror_def syslog_def)

lemma run_ops:
  "ret x rs = (Ret x, [], rs)"
  "stop z rs = (Stop z, [], rs)"
  "sys c k [] = (Stop Blocked, [], [])"
  "sys c k (a # rs) = (case k a rs of (r, t, rs') \<Rightarrow> (r, Call c a # t, rs'))"
  "fits None k1 rs = fault Overflow rs"
  "fits (Some b) k1 rs = k1 b rs"
  "with_cstr b' k2 rs = (if terminated b' then k2 (cstr b') rs else fault Overread rs)"
  "fd_set fd S k3 rs = (if 0 \<le> fd \<and> fd < FD_SETSIZE then k3 (insert fd S) rs else fault Fd_range rs)"
  "fd_clr fd S k3 rs = (if 0 \<le> fd \<and> fd < FD_SETSIZE then k3 (S - {fd}) rs else fault Fd_range rs)"
  "fd_isset fd S k4 rs = (if 0 \<le> fd \<and> fd < FD_SETSIZE then k4 (fd \<in> S) rs else fault Fd_range rs)"
  "arr_get xs i k5 rs =
     (if 0 \<le> i \<and> i < int (length xs) then k5 (xs ! nat i) rs else fault Overread rs)"
  "arr_set xs i y k6 rs =
     (if 0 \<le> i \<and> i < int (length xs) then k6 (xs[nat i := y]) rs else fault Overflow rs)"
  by (simp_all add: ret_def stop_def sys_def fits_def with_cstr_def fd_set_def fd_clr_def
      fd_isset_def arr_get_def arr_set_def)

lemma zeros_run:
  "take n (zeros m) = zeros (min n m)" "drop n (zeros m) = zeros (m - n)" "zeros 0 = []"
  by (simp_all add: zeros_def)

lemma digit_run:
  "digit 0 = CHR ''0''" "digit (Suc 0) = CHR ''1''" "digit 2 = CHR ''2''" "digit 3 = CHR ''3''"
  "digit 4 = CHR ''4''" "digit 5 = CHR ''5''" "digit 6 = CHR ''6''" "digit 7 = CHR ''7''"
  "digit 8 = CHR ''8''" "digit 9 = CHR ''9''"
  by (simp_all add: digit_def char_of_def bit_0)

lemmas run_simps =
  run_ops run_print tell_def bnd_def loop.simps FD_SETSIZE_def sys_ok_def
  store_def put_cstr_def snput_def zeros_run show_int_def dec.simps digit_run Let_def
  ok_def fail_def got_def

subsection \<open>Replies of the examples\<close>

definition ctime_reply :: reply where
  "ctime_reply = (ok 0)\<lparr>dat := ''Thu Jan  1 12:54:05 1970'' @ [LF]\<rparr>"

definition ready :: "int set \<Rightarrow> int set \<Rightarrow> reply" where
  "ready rs ws = (ok (int (card rs + card ws)))\<lparr>rset := rs, wset := ws\<rparr>"

lemmas reply_simps = ctime_reply_def ready_def

subsection \<open>Some turns of a loop\<close>

text \<open>\<open>turns body s rss\<close>: the state and the trace after one turn on each list of replies.\<close>

fun turns :: "('s \<Rightarrow> ('s + 'a) io) \<Rightarrow> 's \<Rightarrow> reply list list \<Rightarrow> ('s \<times> event list) option" where
  "turns body s [] = Some (s, [])"
| "turns body s (rs # rss) =
     (case body s rs of
        (Ret (Inl s'), t, rs') \<Rightarrow> map_option (\<lambda>(s'', h). (s'', t @ h)) (turns body s' rss)
      | _ \<Rightarrow> None)"

lemma turns_reach_from:
  "turns body s rss = Some (s', h) \<Longrightarrow> conforms fds h \<Longrightarrow> reach body fds0 s0 fds s h0 \<Longrightarrow>
    reach body fds0 s0 (fds_run fds h) s' (h0 @ h)"
proof (induction rss arbitrary: s h fds h0)
  case (Cons rs rss)
  obtain s1 t rs' h1 where b: "body s rs = (Ret (Inl s1), t, rs')" and h: "h = t @ h1"
    and t1: "turns body s1 rss = Some (s', h1)"
    using Cons.prems(1) by (auto split: prod.splits result.splits sum.splits)
  have "reach body fds0 s0 (fds_run fds t) s1 (h0 @ t)"
    using reach.turn [where body = body and s = s, OF Cons.prems(3) b] Cons.prems(2) h by simp
  with Cons.IH [OF t1, of "fds_run fds t" "h0 @ t"] Cons.prems(2) h show ?case by simp
qed simp

lemma turns_reach:
  "turns body s rss = Some (s', h) \<Longrightarrow> conforms fds h \<Longrightarrow> reach body fds s (fds_run fds h) s' h"
  using turns_reach_from [of body s rss s' h fds fds s "[]"] by (simp add: reach.start)

end
