(* ===== verification/Nonblock_Client.thy ===== *)
theory Nonblock_Client
  imports Eval
begin

text \<open>
  \<open>C/nonblock_stream_client.c\<close>: the non-blocking relay \<open>str_cli\<close> between standard input, a socket
  and standard output, the two-process version \<open>fork_str_cli\<close>, \<open>gf_time\<close> and \<open>main\<close>.

  The two buffers \<open>to\<close> (standard input to socket) and \<open>fr\<close> (socket to standard output) are
  arrays of \<open>MAX_SIZE\<close> bytes with two pointers each, kept as offsets: \<open>iptr\<close> is where the next byte
  read goes (\<open>toiptr\<close>, \<open>friptr\<close>), \<open>optr\<close> where the next byte to write is (\<open>tooptr\<close>, \<open>froptr\<close>).
\<close>

definition MAX_SIZE :: nat where "MAX_SIZE = 1024"

abbreviation (input) STDIN_FILENO :: int where "STDIN_FILENO \<equiv> 0"
abbreviation (input) STDOUT_FILENO :: int where "STDOUT_FILENO \<equiv> 1"

record relay_buf =
  arr :: buf
  iptr :: nat
  optr :: nat

record cli_state =
  to :: relay_buf
  fr :: relay_buf
  stdineof :: bool

subsection \<open>The operations on a buffer\<close>

definition fresh_buf :: "buf \<Rightarrow> relay_buf" where
  "fresh_buf junk = \<lparr>arr = junk, iptr = 0, optr = 0\<rparr>"

definition buf_room :: "relay_buf \<Rightarrow> nat" where
  "buf_room b = MAX_SIZE - iptr b"

definition buf_pending :: "relay_buf \<Rightarrow> char list" where
  "buf_pending b = take (iptr b - optr b) (drop (optr b) (arr b))"

text \<open>\<open>read\<close> puts the bytes at the input pointer, which moves on.\<close>

definition buf_read :: "char list \<Rightarrow> relay_buf \<Rightarrow> (relay_buf \<Rightarrow> 'a io) \<Rightarrow> 'a io" where
  "buf_read bs b k =
     fits (store (iptr b) bs (arr b)) (\<lambda>arr'. k (b\<lparr>arr := arr', iptr := iptr b + length bs\<rparr>))"

text \<open>The same without the bounds check, for a read of no more than fits.\<close>

definition buf_fill :: "char list \<Rightarrow> relay_buf \<Rightarrow> relay_buf" where
  "buf_fill bs b =
     b\<lparr>arr := take (iptr b) (arr b) @ bs @ drop (iptr b + length bs) (arr b),
       iptr := iptr b + length bs\<rparr>"

text \<open>After a \<open>write\<close> the output pointer moves on; when it meets the input pointer both go back.\<close>

definition buf_drain :: "nat \<Rightarrow> relay_buf \<Rightarrow> relay_buf" where
  "buf_drain n b =
     (let b' = b\<lparr>optr := optr b + n\<rparr>
      in if optr b' = iptr b' then b'\<lparr>iptr := 0, optr := 0\<rparr> else b')"

definition buf_wf :: "relay_buf \<Rightarrow> bool" where
  "buf_wf b \<longleftrightarrow>
     length (arr b) = MAX_SIZE \<and> optr b \<le> iptr b \<and> iptr b \<le> MAX_SIZE \<and>
     (optr b = iptr b \<longrightarrow> iptr b = 0)"

lemma length_buf_pending: "buf_wf b \<Longrightarrow> length (buf_pending b) = iptr b - optr b"
  by (auto simp: buf_wf_def buf_pending_def)

lemma buf_wf_fresh [simp]:
  "length junk = MAX_SIZE \<Longrightarrow> buf_wf (fresh_buf junk)"
  "buf_pending (fresh_buf junk) = []"
  by (simp_all add: buf_wf_def fresh_buf_def buf_pending_def)

lemma buf_pending_Nil: "buf_wf b \<Longrightarrow> buf_pending b = [] \<longleftrightarrow> optr b = iptr b"
  by (auto simp: buf_wf_def buf_pending_def)

lemma buf_read_eq:
  "buf_wf b \<Longrightarrow> length bs \<le> buf_room b \<Longrightarrow> buf_read bs b k = k (buf_fill bs b)"
  by (auto simp: buf_read_def buf_fill_def buf_wf_def buf_room_def store_def fits_def)

interpretation rb: byte_queue buf_wf buf_pending buf_room buf_fill buf_drain
proof
  fix q :: relay_buf and bs :: "char list"
  assume wf: "buf_wf q" and room: "length bs \<le> buf_room q"
  then show "buf_wf (buf_fill bs q)" by (auto simp: buf_wf_def buf_fill_def buf_room_def)
  show "buf_pending (buf_fill bs q) = buf_pending q @ bs"
    using wf by (simp add: buf_wf_def buf_fill_def buf_pending_def window_fill del: take_append drop_append)
next
  fix q :: relay_buf and n :: nat
  assume wf: "buf_wf q" and n: "n \<le> length (buf_pending q)"
  then have n': "n \<le> iptr q - optr q" by (simp add: length_buf_pending)
  with wf show "buf_wf (buf_drain n q)" by (auto simp: buf_wf_def buf_drain_def Let_def)
  show "buf_pending (buf_drain n q) = drop n (buf_pending q)"
    using wf n' by (auto simp: buf_wf_def buf_drain_def buf_pending_def Let_def drop_take add.commute)
qed

subsection \<open>The time stamp of a message\<close>

text \<open>\<open>%06ld\<close> of a number that is not negative.\<close>

definition show_06 :: "int \<Rightarrow> string" where
  "show_06 v = replicate (6 - length (show_int v)) CHR ''0'' @ show_int v"

text \<open>
  \<open>gf_time\<close>: the text of \<open>ctime\<close> from its twelfth character, cut after the seconds, and the
  microseconds. The static array is written from its start in every call, so what it held before
  does not show.
\<close>

definition gf_time :: "string io" where
  "gf_time =
     sys Gettimeofday (\<lambda>a.
       if rv a < 0 then perror ''gettimeofday'' (exit 1)
       else sys Ctime (\<lambda>b.
         if length (dat b) < 11 then fault Overread
         else fits (put_cstr 0 (drop 11 (dat b)) (zeros 30)) (\<lambda>str.
           ret (cstr (take 8 str @ snput (''.'' @ show_06 (num a)) (drop 8 str))))))"

text \<open>A wait for no descriptor at all would last for ever.\<close>

fun is_idle_wait :: "event \<Rightarrow> bool" where
  "is_idle_wait (Call (Await (SELECT n rs ws)) a) = (rs \<union> ws = {})"
| "is_idle_wait _ = False"

definition idle_wait :: "event list \<Rightarrow> bool" where
  "idle_wait t = list_ex is_idle_wait t"

lemma idle_wait_simps [simp]:
  "\<not> idle_wait []" "idle_wait (e # t) \<longleftrightarrow> is_idle_wait e \<or> idle_wait t"
  "idle_wait (s @ t) \<longleftrightarrow> idle_wait s \<or> idle_wait t"
  by (simp_all add: idle_wait_def)

text \<open>A trace with no transfer of bytes, no operation on a descriptor, no new one and no wait.\<close>

fun quiet_event :: "event \<Rightarrow> bool" where
  "quiet_event (Call (Transfer _ _) _) = False"
| "quiet_event (Call (Await _) _) = False"
| "quiet_event (Call (On _ _) _) = False"
| "quiet_event (Call (Recvmsg _ _) _) = False"
| "quiet_event (Call (Socketpair _ _ _) _) = False"
| "quiet_event (Call c _) = (\<not> makes_fd c)"
| "quiet_event _ = True"

definition quiet :: "event list \<Rightarrow> bool" where
  "quiet t \<longleftrightarrow> (\<forall>e \<in> set t. quiet_event e)"

lemma quiet_Cons [simp]: "quiet (e # t) \<longleftrightarrow> quiet_event e \<and> quiet t" "quiet []"
  by (auto simp: quiet_def)

lemma quiet_simps [simp]:
  assumes "quiet t"
  shows "received fd t = []" "written fd t = []" "reads_of t = []" "calls (On fd op) t = 0"
    "\<not> eof_on fd t" "\<not> idle_wait t" "fds_run fds t = fds"
proof -
  have "got_by fd e = []" "put_by fd e = []" "\<not> is_call (On fd op) e" "\<not> is_eof fd e" "\<not> is_idle_wait e"
    if "quiet_event e" for e
    using that by (induction e rule: quiet_event.induct) auto
  then show "received fd t = []" "written fd t = []" "calls (On fd op) t = 0"
    "\<not> eof_on fd t" "\<not> idle_wait t"
    using assms by (induction t) auto
  show "reads_of t = []" using assms by (induction t rule: reads_of.induct) auto
  have "fds_after fds c a = fds" if "quiet_event (Call c a)" for c a
    using that by (cases c) auto
  then show "fds_run fds t = fds" using assms by (induction fds t rule: fds_run.induct) auto
qed

lemma vld_gf_time:
  assumes "\<And>s t. quiet t \<Longrightarrow> vld fds (f s) (\<lambda>r t'. Q r (t @ t'))"
    and "\<And>z t. quiet t \<Longrightarrow> z = Exit 1 \<or> z = Blocked \<Longrightarrow> Q (Stop z) t"
  shows "vld fds (bnd gf_time f) Q"
proof (rule vld_bnd)
  have "vld fds gf_time (\<lambda>r t. quiet t \<and> (\<forall>z. r = Stop z \<longrightarrow> z = Exit 1 \<or> z = Blocked))"
    by (auto simp: gf_time_def io_simps sys_ok_def put_cstr_None)
  then show "vld fds gf_time (\<lambda>r t. case r of
      Ret x \<Rightarrow> vld (fds_run fds t) (f x) (\<lambda>r' t'. Q r' (t @ t')) | Stop z \<Rightarrow> Q (Stop z) t)"
    by (rule vld_mono) (auto split: result.split intro: assms)
qed

subsection \<open>One turn of \<open>str_cli\<close>\<close>

definition fd_set_if :: "bool \<Rightarrow> int \<Rightarrow> int set \<Rightarrow> (int set \<Rightarrow> 'a io) \<Rightarrow> 'a io" where
  "fd_set_if b fd S k = (if b then fd_set fd S k else k S)"

text \<open>The sets to wait for: room to read into, bytes to write.\<close>

definition poll_sets :: "int \<Rightarrow> cli_state \<Rightarrow> (int set \<times> int set) io" where
  "poll_sets sockfd st =
     fd_set_if (\<not> stdineof st \<and> iptr (to st) < MAX_SIZE) STDIN_FILENO {} (\<lambda>rset1.
     fd_set_if (iptr (fr st) < MAX_SIZE) sockfd rset1 (\<lambda>rset2.
     fd_set_if (optr (to st) \<noteq> iptr (to st)) sockfd {} (\<lambda>wset1.
     fd_set_if (optr (fr st) \<noteq> iptr (fr st)) STDOUT_FILENO wset1 (\<lambda>wset2.
     ret (rset2, wset2)))))"

definition from_stdin :: "int \<Rightarrow> int set \<Rightarrow> int set \<Rightarrow> cli_state \<Rightarrow> (cli_state \<times> int set) io" where
  "from_stdin sockfd rs ws st =
     fd_isset STDIN_FILENO rs (\<lambda>ready.
       if \<not> ready then ret (st, ws)
       else sys (Read STDIN_FILENO (buf_room (to st))) (\<lambda>a.
         if rv a < 0 then
           (if en a \<noteq> EWOULDBLOCK then printf (''read error on stdin'' @ [LF]) (exit 1)
            else ret (st, ws))
         else if rv a = 0 then
           bnd gf_time (\<lambda>now. eprintf (now @ '', EOF on stdin'' @ [LF])
             (if optr (to st) = iptr (to st)
              then sys (Shutdown_wr sockfd) (\<lambda>_. ret (st\<lparr>stdineof := True\<rparr>, ws))
              else ret (st\<lparr>stdineof := True\<rparr>, ws)))
         else
           bnd gf_time (\<lambda>now.
             eprintf (now @ '' : read '' @ show_int (rv a) @ '' bytes from stdin'' @ [LF])
             (buf_read (dat a) (to st) (\<lambda>to'.
              fd_set sockfd ws (\<lambda>ws'. ret (st\<lparr>to := to'\<rparr>, ws')))))))"

text \<open>\<open>Inr ()\<close> is the \<open>return\<close> of the normal end.\<close>

definition from_sock ::
  "int \<Rightarrow> int set \<Rightarrow> int set \<Rightarrow> cli_state \<Rightarrow> (cli_state \<times> int set + unit) io" where
  "from_sock sockfd rs ws st =
     fd_isset sockfd rs (\<lambda>ready.
       if \<not> ready then ret (Inl (st, ws))
       else sys (Read sockfd (buf_room (fr st))) (\<lambda>a.
         if rv a < 0 then
           (if en a \<noteq> EWOULDBLOCK then printf (''read error on socket'' @ [LF]) (exit 1)
            else ret (Inl (st, ws)))
         else if rv a = 0 then
           bnd gf_time (\<lambda>now. eprintf (now @ '', EOF on socket'' @ [LF])
             (if stdineof st then ret (Inr ())
              else printf (''str_cli : server terminated prematurely'' @ [LF]) (exit 1)))
         else
           bnd gf_time (\<lambda>now.
             eprintf (now @ '' : read '' @ show_int (rv a) @ '' bytes from socket'' @ [LF])
             (buf_read (dat a) (fr st) (\<lambda>fr'.
              fd_set STDOUT_FILENO ws (\<lambda>ws'. ret (Inl (st\<lparr>fr := fr'\<rparr>, ws'))))))))"

definition to_stdout :: "int set \<Rightarrow> cli_state \<Rightarrow> cli_state io" where
  "to_stdout ws st =
     fd_isset STDOUT_FILENO ws (\<lambda>ready.
       if \<not> (ready \<and> 0 < iptr (fr st) - optr (fr st)) then ret st
       else sys (Write STDOUT_FILENO (buf_pending (fr st))) (\<lambda>a.
         if rv a < 0 then
           (if en a \<noteq> EWOULDBLOCK then printf (''write error to stdout'' @ [LF]) (exit 1)
            else ret st)
         else
           bnd gf_time (\<lambda>now.
             eprintf (now @ '' wrote '' @ show_int (rv a) @ '' bytes to stdout'' @ [LF])
             (ret (st\<lparr>fr := buf_drain (nat (rv a)) (fr st)\<rparr>)))))"

definition to_sock :: "int \<Rightarrow> int set \<Rightarrow> cli_state \<Rightarrow> cli_state io" where
  "to_sock sockfd ws st =
     fd_isset sockfd ws (\<lambda>ready.
       if \<not> (ready \<and> 0 < iptr (to st) - optr (to st)) then ret st
       else sys (Write sockfd (buf_pending (to st))) (\<lambda>a.
         if rv a < 0 then
           (if en a \<noteq> EWOULDBLOCK then printf (''write error to sockfd'' @ [LF]) (exit 1)
            else ret st)
         else
           bnd gf_time (\<lambda>now.
             eprintf (now @ '' wrote '' @ show_int (rv a) @ '' bytes to stdout'' @ [LF])
             (let to' = buf_drain (nat (rv a)) (to st)
              in if optr to' = iptr to' \<and> stdineof st
                 then sys (Shutdown_wr sockfd) (\<lambda>_. ret (st\<lparr>to := to'\<rparr>))
                 else ret (st\<lparr>to := to'\<rparr>)))))"

text \<open>The four transfers in the order of the code, after \<open>select\<close> has left the sets \<open>rs\<close>, \<open>ws\<close>.\<close>

definition relay_turn :: "int \<Rightarrow> int set \<Rightarrow> int set \<Rightarrow> cli_state \<Rightarrow> (cli_state + unit) io" where
  "relay_turn sockfd rs ws st =
     bnd (from_stdin sockfd rs ws st) (\<lambda>(st1, ws1).
     bnd (from_sock sockfd rs ws1 st1) (\<lambda>x.
     case x of
       Inr _ \<Rightarrow> ret (Inr ())
     | Inl (st2, ws2) \<Rightarrow>
         bnd (to_stdout ws2 st2) (\<lambda>st3.
         bnd (to_sock sockfd ws2 st3) (\<lambda>st4.
         ret (Inl st4)))))"

text \<open>The result of \<open>select\<close> is not tested: when it fails the sets are as they were.\<close>

definition str_cli_body :: "int \<Rightarrow> int \<Rightarrow> cli_state \<Rightarrow> (cli_state + unit) io" where
  "str_cli_body sockfd maxfd st =
     bnd (poll_sets sockfd st) (\<lambda>(rs, ws).
     sys (Select maxfd rs ws) (\<lambda>a.
     relay_turn sockfd (if rv a < 0 then rs else rset a) (if rv a < 0 then ws else wset a) st))"

text \<open>\<open>to0\<close> and \<open>fr0\<close> are what the arrays hold when \<open>str_cli\<close> is entered.\<close>

definition str_cli :: "buf \<Rightarrow> buf \<Rightarrow> int \<Rightarrow> unit io" where
  "str_cli to0 fr0 sockfd =
     sys (Getfl sockfd) (\<lambda>val1.
     sys (Setfl sockfd (or (word_of_int (rv val1)) O_NONBLOCK)) (\<lambda>_.
     sys (Getfl STDIN_FILENO) (\<lambda>val2.
     sys (Setfl STDIN_FILENO (or (word_of_int (rv val2)) O_NONBLOCK)) (\<lambda>_.
     sys (Getfl STDOUT_FILENO) (\<lambda>val3.
     sys (Setfl STDOUT_FILENO (or (word_of_int (rv val3)) O_NONBLOCK)) (\<lambda>_.
     loop (str_cli_body sockfd (max (max STDIN_FILENO STDOUT_FILENO) sockfd + 1))
       \<lparr>to = fresh_buf to0, fr = fresh_buf fr0, stdineof = False\<rparr>))))))"

subsection \<open>The invariant of \<open>str_cli\<close>\<close>

text \<open>
  At the head of the loop, after the trace \<open>h\<close>: both buffers relay what was read to what was
  written; the end of standard input has been seen exactly when \<open>stdineof\<close> is set; and the socket
  has been half-closed, once, exactly when standard input has ended and nothing is left to send.
\<close>

definition cli_inv :: "int \<Rightarrow> cli_state \<Rightarrow> event list \<Rightarrow> bool" where
  "cli_inv sockfd st h \<longleftrightarrow>
     rb.relays (to st) (received STDIN_FILENO h) (written sockfd h) \<and>
     rb.relays (fr st) (received sockfd h) (written STDOUT_FILENO h) \<and>
     (stdineof st \<longleftrightarrow> eof_on STDIN_FILENO h) \<and> \<not> idle_wait h \<and>
     calls (Shutdown_wr sockfd) h = (if stdineof st \<and> optr (to st) = iptr (to st) then 1 else 0)"

text \<open>What holds however the run stops.\<close>

definition cli_post :: "int \<Rightarrow> unit result \<Rightarrow> event list \<Rightarrow> bool" where
  "cli_post sockfd r h \<longleftrightarrow>
     prefix (written sockfd h) (received STDIN_FILENO h) \<and>
     prefix (written STDOUT_FILENO h) (received sockfd h) \<and>
     calls (Shutdown_wr sockfd) h \<le> 1 \<and> \<not> idle_wait h \<and>
     (0 < calls (Shutdown_wr sockfd) h \<longrightarrow>
        eof_on STDIN_FILENO h \<and> written sockfd h = received STDIN_FILENO h) \<and>
     (r = Ret () \<longrightarrow> eof_on STDIN_FILENO h \<and> eof_on sockfd h) \<and>
     (\<forall>f. r \<noteq> Stop (Fault f))"

definition cli_fd :: "int \<Rightarrow> bool" where
  "cli_fd sockfd \<longleftrightarrow> 1 < sockfd \<and> sockfd < FD_SETSIZE"

lemma cli_inv_wf: "cli_inv sockfd st h \<Longrightarrow> buf_wf (to st) \<and> buf_wf (fr st)"
  by (simp add: cli_inv_def rb.relays_def)

text \<open>The parts of the invariant as the proofs of the four stages use them.\<close>

lemma cli_invD:
  assumes "cli_inv sockfd st h"
  shows "buf_wf (to st)" "buf_wf (fr st)"
    "prefix (written sockfd h) (received STDIN_FILENO h)"
    "prefix (written STDOUT_FILENO h) (received sockfd h)"
    "stdineof st \<longleftrightarrow> eof_on STDIN_FILENO h" "\<not> idle_wait h"
    "calls (Shutdown_wr sockfd) h = (if stdineof st \<and> optr (to st) = iptr (to st) then 1 else 0)"
    "optr (to st) = iptr (to st) \<Longrightarrow> written sockfd h = received STDIN_FILENO h"
proof -
  show wf: "buf_wf (to st)" and "buf_wf (fr st)" using assms by (simp_all add: cli_inv_wf)
  show "optr (to st) = iptr (to st) \<Longrightarrow> written sockfd h = received STDIN_FILENO h"
    using assms wf rb.relays_empty by (auto simp: cli_inv_def buf_pending_Nil)
qed (use assms in \<open>auto simp: cli_inv_def dest: rb.relays_prefix\<close>)

text \<open>A write that empties the buffer has written everything that was read.\<close>

lemma drain_all:
  assumes "rb.relays b inp out" and "n \<le> length (buf_pending b)"
    and "optr (buf_drain n b) = iptr (buf_drain n b)"
  shows "out @ take n (buf_pending b) = inp"
proof -
  have r: "rb.relays (buf_drain n b) inp (out @ take n (buf_pending b))"
    using assms by (intro rb.relays_drain)
  then have "buf_wf (buf_drain n b)" by (simp add: rb.relays_def)
  then have "buf_pending (buf_drain n b) = []" using assms(3) by (simp add: buf_pending_Nil)
  with r show ?thesis using rb.relays_empty by metis
qed

lemma drain_all_relays:
  assumes "rb.relays b inp out" and "n \<le> length (buf_pending b)"
    and "optr (buf_drain n b) = iptr (buf_drain n b)"
  shows "rb.relays (buf_drain n b) inp inp"
  using rb.relays_drain [OF assms(1,2)] drain_all [OF assms] by simp

lemmas stage_simps = io_simps sys_ok_def buf_read_eq cli_fd_def FD_SETSIZE_def cli_post_def cli_inv_def

lemma cli_inv_post: "cli_inv sockfd st h \<Longrightarrow> \<forall>f. z \<noteq> Fault f \<Longrightarrow> cli_post sockfd (Stop z) h"
  using cli_invD [of sockfd st h] by (auto simp: cli_post_def)

lemma from_stdin_keeps:
  assumes inv: "cli_inv sockfd st h" and "cli_fd sockfd"
    and "STDIN_FILENO \<in> rs \<Longrightarrow> \<not> stdineof st \<and> iptr (to st) < MAX_SIZE"
  shows "vld fds (from_stdin sockfd rs ws st) (\<lambda>r t. case r of
      Ret (st', ws') \<Rightarrow> cli_inv sockfd st' (h @ t) \<and> fr st' = fr st
    | Stop z \<Rightarrow> cli_post sockfd (Stop z) (h @ t))"
  using assms cli_invD [OF inv]
  by (auto simp: from_stdin_def stage_simps intro!: vld_gf_time rb.relays_fill)

lemma from_sock_keeps:
  assumes inv: "cli_inv sockfd st h" and "cli_fd sockfd"
    and "sockfd \<in> rs \<Longrightarrow> iptr (fr st) < MAX_SIZE"
  shows "vld fds (from_sock sockfd rs ws st) (\<lambda>r t. case r of
      Ret (Inl (st', ws')) \<Rightarrow> cli_inv sockfd st' (h @ t)
    | Ret (Inr _) \<Rightarrow> cli_post sockfd (Ret ()) (h @ t)
    | Stop z \<Rightarrow> cli_post sockfd (Stop z) (h @ t))"
  using assms cli_invD [OF inv]
  by (auto simp: from_sock_def stage_simps intro!: vld_gf_time rb.relays_fill)

lemma to_stdout_keeps:
  assumes inv: "cli_inv sockfd st h" and "cli_fd sockfd"
  shows "vld fds (to_stdout ws st) (\<lambda>r t. case r of
      Ret st' \<Rightarrow> cli_inv sockfd st' (h @ t)
    | Stop z \<Rightarrow> cli_post sockfd (Stop z) (h @ t))"
  using assms cli_invD [OF inv]
  by (auto simp: to_stdout_def stage_simps
      intro!: vld_gf_time rb.relays_drain rb.relays_write_prefix drain_all_relays)

lemma to_sock_keeps:
  assumes inv: "cli_inv sockfd st h" and "cli_fd sockfd"
  shows "vld fds (to_sock sockfd ws st) (\<lambda>r t. case r of
      Ret st' \<Rightarrow> cli_inv sockfd st' (h @ t)
    | Stop z \<Rightarrow> cli_post sockfd (Stop z) (h @ t))"
  using assms cli_invD [OF inv]
  by (auto simp: to_sock_def stage_simps Let_def drain_all
      intro!: vld_gf_time rb.relays_drain rb.relays_write_prefix drain_all_relays)

lemma vld_poll_sets:
  assumes "cli_fd sockfd" and "buf_wf (fr st)"
  shows "vld fds (poll_sets sockfd st) (\<lambda>r t. t = [] \<and> (\<exists>rs ws. r = Ret (rs, ws) \<and> rs \<union> ws \<noteq> {} \<and>
      (STDIN_FILENO \<in> rs \<longrightarrow> \<not> stdineof st \<and> iptr (to st) < MAX_SIZE) \<and>
      (sockfd \<in> rs \<longrightarrow> iptr (fr st) < MAX_SIZE)))"
  using assms
  by (auto simp: poll_sets_def fd_set_if_def io_simps cli_fd_def FD_SETSIZE_def buf_wf_def
      MAX_SIZE_def)

lemma cli_inv_select:
  "rs \<union> ws \<noteq> {} \<Longrightarrow> cli_inv sockfd st (h @ [Call (Select n rs ws) a]) = cli_inv sockfd st h"
  by (auto simp: cli_inv_def)

text \<open>How a turn may end, after the trace \<open>h\<close>.\<close>

definition cli_next :: "int \<Rightarrow> (cli_state + unit) result \<Rightarrow> event list \<Rightarrow> bool" where
  "cli_next sockfd r h \<longleftrightarrow>
     (case r of
        Ret (Inl st) \<Rightarrow> cli_inv sockfd st h
      | Ret (Inr x) \<Rightarrow> cli_post sockfd (Ret x) h
      | Stop z \<Rightarrow> cli_post sockfd (Stop z) h)"

lemma cli_next_simps [simp]:
  "cli_next sockfd (Ret (Inl st)) h = cli_inv sockfd st h"
  "cli_next sockfd (Ret (Inr x)) h = cli_post sockfd (Ret ()) h"
  "cli_next sockfd (Stop z) h = cli_post sockfd (Stop z) h"
  by (simp_all add: cli_next_def)

lemma write_half_keeps:
  assumes inv: "cli_inv sockfd st h" and fd: "cli_fd sockfd"
  shows "vld fds (bnd (to_stdout ws st) (\<lambda>st3. bnd (to_sock sockfd ws st3) (\<lambda>st4. ret (Inl st4))))
    (\<lambda>r t. cli_next sockfd r (h @ t))"
proof (rule vld_bnd_use [OF to_stdout_keeps [OF inv fd]])
  fix st3 t3
  assume "case Ret st3 of Ret st' \<Rightarrow> cli_inv sockfd st' (h @ t3) | Stop z \<Rightarrow> cli_post sockfd (Stop z) (h @ t3)"
  then have inv3: "cli_inv sockfd st3 (h @ t3)" by simp
  show "vld (fds_run fds t3) (bnd (to_sock sockfd ws st3) (\<lambda>st4. ret (Inl st4)))
      (\<lambda>r t. cli_next sockfd r (h @ t3 @ t))"
    by (rule vld_bnd_use [OF to_sock_keeps [OF inv3 fd]]) (simp_all add: io_simps)
qed simp

lemma relay_turn_keeps:
  assumes inv: "cli_inv sockfd st h" and fd: "cli_fd sockfd"
    and rs0: "STDIN_FILENO \<in> rs \<Longrightarrow> \<not> stdineof st \<and> iptr (to st) < MAX_SIZE"
    and rss: "sockfd \<in> rs \<Longrightarrow> iptr (fr st) < MAX_SIZE"
  shows "vld fds (relay_turn sockfd rs ws st) (\<lambda>r t. cli_next sockfd r (h @ t))"
  unfolding relay_turn_def
proof (rule vld_bnd_use [OF from_stdin_keeps [OF inv fd rs0]], simp_all split: prod.splits, safe)
  fix st1 ws1 t1
  assume inv1: "cli_inv sockfd st1 (h @ t1)" and fr1: "fr st1 = fr st"
  show "vld (fds_run fds t1)
     (bnd (from_sock sockfd rs ws1 st1) (\<lambda>x. case x of
         Inl (st2, ws2) \<Rightarrow> bnd (to_stdout ws2 st2) (\<lambda>st3. bnd (to_sock sockfd ws2 st3) (\<lambda>st4. ret (Inl st4)))
       | Inr _ \<Rightarrow> ret (Inr ())))
     (\<lambda>r t. cli_next sockfd r (h @ t1 @ t))"
  proof (rule vld_bnd_use [OF from_sock_keeps [OF inv1 fd]])
    show "sockfd \<in> rs \<Longrightarrow> iptr (fr st1) < MAX_SIZE" using rss fr1 by simp
  next
    fix x :: "cli_state \<times> int set + unit" and t2
    assume x: "case Ret x of Ret (Inl (st', ws')) \<Rightarrow> cli_inv sockfd st' ((h @ t1) @ t2)
      | Ret (Inr _) \<Rightarrow> cli_post sockfd (Ret ()) ((h @ t1) @ t2)
      | Stop z \<Rightarrow> cli_post sockfd (Stop z) ((h @ t1) @ t2)"
    show "vld (fds_run (fds_run fds t1) t2) (case x of
        Inl (st2, ws2) \<Rightarrow> bnd (to_stdout ws2 st2) (\<lambda>st3. bnd (to_sock sockfd ws2 st3) (\<lambda>st4. ret (Inl st4)))
      | Inr _ \<Rightarrow> ret (Inr ())) (\<lambda>r t. cli_next sockfd r (h @ t1 @ t2 @ t))"
      using x write_half_keeps [of sockfd _ "h @ t1 @ t2", OF _ fd]
      by (cases x) (auto simp: io_simps split: prod.splits)
  qed simp
qed

text \<open>One turn keeps the invariant or stops with the postcondition.\<close>

lemma str_cli_body_keeps:
  assumes inv: "cli_inv sockfd st h" and fd: "cli_fd sockfd"
  shows "vld fds (str_cli_body sockfd maxfd st) (\<lambda>r t. cli_next sockfd r (h @ t))"
proof -
  have blocked: "cli_post sockfd (Stop Blocked) h" by (rule cli_inv_post [OF inv]) simp
  have turn: "vld fds (relay_turn sockfd rs' ws' st) (\<lambda>r t. cli_next sockfd r (h @ Call (Select n rs ws) a # t))"
    if "0 \<in> rs \<longrightarrow> \<not> stdineof st \<and> iptr (to st) < MAX_SIZE" "sockfd \<in> rs \<longrightarrow> iptr (fr st) < MAX_SIZE"
      and "rs' \<subseteq> rs" and ne: "rs \<union> ws \<noteq> {}" for n rs ws a rs' ws'
  proof -
    have "cli_inv sockfd st (h @ [Call (Select n rs ws) a])" using inv ne by (simp add: cli_inv_select)
    then have "vld fds (relay_turn sockfd rs' ws' st)
        (\<lambda>r t. cli_next sockfd r ((h @ [Call (Select n rs ws) a]) @ t))"
      using that fd by (intro relay_turn_keeps) auto
    then show ?thesis by simp
  qed
  show ?thesis
    unfolding str_cli_body_def
    by (rule vld_bnd_use [OF vld_poll_sets [OF fd cli_invD(2) [OF inv]]])
       (force simp: io_simps sys_ok_def blocked intro!: turn)+
qed

interpretation cli: loop_contract "str_cli_body sockfd maxfd"
    "\<lambda>fds st h. cli_fd sockfd \<and> cli_inv sockfd st h" "cli_post sockfd" for sockfd maxfd
proof
  fix fds st h
  assume inv: "cli_fd sockfd \<and> cli_inv sockfd st h"
  then have "vld fds (str_cli_body sockfd maxfd st) (\<lambda>r t. cli_next sockfd r (h @ t))"
    by (blast intro: str_cli_body_keeps)
  then show "vld fds (str_cli_body sockfd maxfd st) (\<lambda>r t. case r of
      Ret (Inl st') \<Rightarrow> cli_fd sockfd \<and> cli_inv sockfd st' (h @ t)
    | Ret (Inr x) \<Rightarrow> cli_post sockfd (Ret x) (h @ t)
    | Stop z \<Rightarrow> cli_post sockfd (Stop z) (h @ t))"
    by (rule vld_mono) (use inv in \<open>auto simp: cli_next_def split: result.splits sum.splits\<close>)
  show "cli_post sockfd (Stop Diverge) h"
    using inv by (auto intro: cli_inv_post)
qed

text \<open>Every turn waits in \<open>select\<close>.\<close>

lemma steady_gf_time [steady_intros]: "steady gf_time"
  unfolding gf_time_def by (intro steady_intros) simp_all

lemma steady_stages [steady_intros]:
  "steady (poll_sets sockfd st)" "steady (from_stdin sockfd rs ws st)"
  "steady (from_sock sockfd rs ws st)" "steady (to_stdout ws st)" "steady (to_sock sockfd ws st)"
  unfolding poll_sets_def fd_set_if_def from_stdin_def from_sock_def to_stdout_def to_sock_def
    buf_read_def Let_def
  by ((intro steady_intros; simp)+)

interpretation cli_busy: busy_loop "str_cli_body sockfd maxfd" for sockfd maxfd
proof
  fix st
  show "busy_when (\<lambda>x. \<exists>s'. x = Inl s') (str_cli_body sockfd maxfd st)"
    unfolding str_cli_body_def relay_turn_def
    by (auto intro!: busy_bnd busy_sys steady_intros split: prod.split sum.split)
qed

subsection \<open>The two-process version and \<open>main\<close>\<close>

text \<open>
  The child of \<open>fork_str_cli\<close>: \<open>recvline\<close> keeps what earlier reads left in it, and \<open>fputs\<close> prints
  the string it holds. The signal to the parent stands inside the loop.
\<close>

definition fork_child_body :: "int \<Rightarrow> buf \<Rightarrow> (buf + unit) io" where
  "fork_child_body sockfd recvline =
     sys (Read sockfd (length recvline)) (\<lambda>a.
       if rv a < 0 then
         (if en a = EINTR then ret (Inl recvline) else perror ''read'' (exit 1))
       else if rv a = 0 then ret (Inr ())
       else fits (store 0 (dat a) recvline) (\<lambda>recvline'.
         sys Getppid (\<lambda>p.
         sys (Kill (rv p) SIGTERM) (\<lambda>_.
         with_cstr recvline' (\<lambda>s. printf s (ret (Inl recvline')))))))"

definition fork_parent_body :: "int \<Rightarrow> unit \<Rightarrow> (unit + unit) io" where
  "fork_parent_body sockfd u =
     sys (Fgets MAX_SIZE) (\<lambda>a.
       if rv a = 0 then ret (Inr ())
       else sys (Write sockfd (cstr (dat a))) (\<lambda>_. ret (Inl ())))"

text \<open>A failed \<open>fork\<close> is not tested: the parent goes on.\<close>

definition fork_str_cli :: "buf \<Rightarrow> int \<Rightarrow> unit io" where
  "fork_str_cli recvline sockfd =
     sys Fork (\<lambda>pid.
       if rv pid = 0 then bnd (loop (fork_child_body sockfd) recvline) (\<lambda>_. exit 0)
       else bnd (loop (fork_parent_body sockfd) ()) (\<lambda>_.
         sys (Shutdown_wr sockfd) (\<lambda>_. sys Pause (\<lambda>_. exit 0))))"

text \<open>\<open>inet_pton\<close> fills the address only when the text is one; its result is not tested.\<close>

definition nonblock_main :: "buf \<Rightarrow> string list \<Rightarrow> unit io" where
  "nonblock_main recvline argv =
     (if length argv \<noteq> 2 then
        arr_get argv 0 (\<lambda>name. printf (''USAGE : '' @ name @ '' <hostname>'' @ [LF]) (exit 1))
      else sys (Socket AF_INET SOCK_STREAM 0) (\<lambda>sock.
        if rv sock < 0 then perror ''socket'' (exit 1)
        else sys (Inet_pton (argv ! 1)) (\<lambda>p.
        sys (Connect (rv sock) (Sin (htons 10001) (if rv p = 1 then ip p else htonl 0))) (\<lambda>c.
          if rv c < 0 then perror ''connect'' (exit 1)
          else bnd (fork_str_cli recvline (rv sock)) (\<lambda>_. exit 0)))))"

text \<open>Each line printed by the child was preceded by a signal to the parent.\<close>

fun is_kill :: "event \<Rightarrow> bool" where
  "is_kill (Call (Proc (KILL _ sg)) _) = (sg = SIGTERM)"
| "is_kill _ = False"

definition kills :: "event list \<Rightarrow> nat" where
  "kills t = length (filter is_kill t)"

lemma kills_simps [simp]:
  "kills [] = 0" "kills (e # t) = (if is_kill e then 1 else 0) + kills t"
  "kills (s @ t) = kills s + kills t"
  by (simp_all add: kills_def)

interpretation fc: loop_contract "fork_child_body sockfd"
    "\<lambda>fds b h. length (printed h) = kills h" "\<lambda>r h. length (printed h) \<le> kills h" for sockfd
  by unfold_locales (auto simp: fork_child_body_def io_simps)

text \<open>\<open>str_cli\<close> satisfies the postcondition: the calls before its loop move no bytes.\<close>

definition setup_event :: "event \<Rightarrow> bool" where
  "setup_event e \<longleftrightarrow> (\<exists>fd a. e = Call (Getfl fd) a \<or> (\<exists>w. e = Call (Setfl fd w) a))"

lemma setup_event_simps [simp]:
  "setup_event (Call (Getfl fd) a)" "setup_event (Call (Setfl fd w) a)"
  by (auto simp: setup_event_def)

lemma cli_inv_start:
  assumes "length to0 = MAX_SIZE" and "length fr0 = MAX_SIZE" and "list_all setup_event h"
  shows "cli_inv sockfd \<lparr>to = fresh_buf to0, fr = fresh_buf fr0, stdineof = False\<rparr> h"
proof -
  have "received fd h = [] \<and> written fd h = [] \<and> \<not> eof_on fd h \<and> \<not> idle_wait h \<and> calls (Shutdown_wr sockfd) h = 0" for fd
    using assms(3) by (induction h) (auto simp: setup_event_def)
  then show ?thesis using assms by (simp add: cli_inv_def rb.relays_def)
qed

lemma str_cli_vld:
  assumes len: "length to0 = MAX_SIZE" "length fr0 = MAX_SIZE" and fd: "cli_fd sockfd"
  shows "vld fds (str_cli to0 fr0 sockfd) (cli_post sockfd)"
proof -
  note start = cli_inv_start [OF len]
  have stopped: "cli_post sockfd (Stop Blocked) h" if "list_all setup_event h" for h
    by (rule cli_inv_post [OF start [OF that]]) simp
  have run: "vld fds' (loop (str_cli_body sockfd n) \<lparr>to = fresh_buf to0, fr = fresh_buf fr0, stdineof = False\<rparr>)
      (\<lambda>r t. cli_post sockfd r (h @ t))" if "list_all setup_event h" for fds' n h
    by (rule cli.loop_post_from) (use fd start [OF that] in simp)
  have run': "vld fds' (loop (str_cli_body sockfd n) \<lparr>to = fresh_buf to0, fr = fresh_buf fr0, stdineof = False\<rparr>)
      (\<lambda>r t. cli_post sockfd r (e1 # e2 # e3 # e4 # e5 # e6 # t))"
    if "list_all setup_event [e1, e2, e3, e4, e5, e6]" for fds' n e1 e2 e3 e4 e5 e6
    using run [OF that] by simp
  show ?thesis unfolding str_cli_def vld_sys by (auto intro!: stopped run')
qed

text \<open>
  A socket that an \<open>fd_set\<close> cannot hold: the first turn puts it into one, before anything is read.
\<close>

lemma str_cli_out_of_range:
  assumes "sockfd < 0 \<or> FD_SETSIZE \<le> sockfd"
  shows "vld fds (str_cli to0 fr0 sockfd) (\<lambda>r t.
    (r = Stop Blocked \<or> r = Stop (Fault Fd_range)) \<and> received STDIN_FILENO t = [] \<and> \<not> idle_wait t)"
proof -
  let ?st = "\<lparr>to = fresh_buf to0, fr = fresh_buf fr0, stdineof = False\<rparr>"
  have first: "str_cli_body sockfd n ?st rs = (Stop (Fault Fd_range), [], rs)" for n rs
    using assms
    by (auto simp: str_cli_body_def poll_sets_def fd_set_if_def fresh_buf_def MAX_SIZE_def FD_SETSIZE_def
        fd_set_def stop_def bnd_def)
  have "vld fds' (loop (str_cli_body sockfd n) ?st) (\<lambda>r t. r = Stop (Fault Fd_range) \<and> t = [])" for fds' n
    by (auto simp: vld_def loop.simps [of _ ?st] first)
  then have "vld fds' (loop (str_cli_body sockfd n) ?st)
      (\<lambda>r t. (r = Stop Blocked \<or> r = Stop (Fault Fd_range)) \<and> received STDIN_FILENO t = [] \<and> \<not> idle_wait t)" for fds' n
    by (rule vld_mono) auto
  then show ?thesis
    unfolding str_cli_def vld_sys by auto
qed

text \<open>The parent prints nothing.\<close>

interpretation fp: loop_contract "fork_parent_body sockfd"
    "\<lambda>fds u h. printed h = [] \<and> kills h = 0" "\<lambda>r h. printed h = [] \<and> kills h = 0" for sockfd
  by unfold_locales (auto simp: fork_parent_body_def io_simps)

lemma fork_str_cli_vld:
  "vld fds (fork_str_cli recvline sockfd) (\<lambda>r t. length (printed t) \<le> kills t)"
proof -
  have child: "vld fds' (bnd (loop (fork_child_body sockfd) recvline) (\<lambda>_. exit 0))
      (\<lambda>r t. length (printed t) \<le> kills t)" for fds'
    by (rule vld_bnd_use [OF fc.loop_post]) (auto simp: io_simps)
  have parent: "vld fds' (bnd (loop (fork_parent_body sockfd) ())
      (\<lambda>_. sys (Shutdown_wr sockfd) (\<lambda>_. sys Pause (\<lambda>_. exit 0))))
      (\<lambda>r t. length (printed t) \<le> kills t)" for fds'
    by (rule vld_bnd_use [OF fp.loop_post]) (auto simp: io_simps)
  show ?thesis by (auto simp: fork_str_cli_def vld_sys child parent)
qed

subsection \<open>Properties\<close>

lemmas cli_defs = str_cli_def str_cli_body_def relay_turn_def poll_sets_def fd_set_if_def
  from_stdin_def from_sock_def to_stdout_def to_sock_def buf_read_def buf_drain_def buf_room_def
  buf_pending_def fresh_buf_def gf_time_def show_06_def MAX_SIZE_def

text \<open>
  A session for the examples: \<open>hi\<close> is read from standard input and goes out in two writes, the end
  of standard input half-closes the socket, \<open>ok\<close> comes back, the peer closes.
\<close>

definition stamp :: "reply list" where
  "stamp = [(ok 0)\<lparr>num := 119738\<rparr>, ctime_reply]"

definition cli_script :: "reply list" where
  "cli_script =
     [ok 2, ok 2, ok 2, ok 2, ok 2, ok 2] @
     [ready {0} {}, got ''hi''] @ stamp @ [ok 1] @ stamp @
     [ready {0} {3}, got ''''] @ stamp @ [ok 1] @ stamp @ [ok 0] @
     [ready {3} {}, got ''ok''] @ stamp @ [ok 2] @ stamp @
     [ready {3} {}, got ''''] @ stamp"

lemma cli_script_run:
  "case str_cli (zeros 1024) (zeros 1024) 3 cli_script of (r, t, rs) \<Rightarrow>
     r = Ret () \<and> rs = [] \<and> conforms {0, 1, 2, 3} t \<and> received 0 t = ''hi'' \<and> written 3 t = ''hi'' \<and>
     received 3 t = ''ok'' \<and> written 1 t = ''ok'' \<and> calls (Shutdown_wr 3) t = 1"
  by (simp add: run_simps cli_defs cli_script_def stamp_def reply_simps cong: lazy)

lemma cli_example:
  obtains t where "str_cli (zeros 1024) (zeros 1024) 3 cli_script = (Ret (), t, [])"
    "conforms {0, 1, 2, 3} t" "received 0 t = ''hi''" "written 3 t = ''hi''"
    "received 3 t = ''ok''" "written 1 t = ''ok''" "calls (Shutdown_wr 3) t = 1"
  using cli_script_run by (auto split: prod.splits)

text \<open>
  C1: The relay loses and invents nothing. In every run of \<open>str_cli\<close>, however it ends, what has been
  written to the socket is a prefix of what has been read from standard input, and what has been
  written to standard output is a prefix of what has been read from the socket, however the reads
  and writes are cut by the kernel.
\<close>

theorem str_cli_relays:
  assumes "length to0 = MAX_SIZE" and "length fr0 = MAX_SIZE"
    and "1 < sockfd" and "sockfd < FD_SETSIZE"
    and "str_cli to0 fr0 sockfd rs = (r, t, rs')" and "conforms fds t"
  shows "prefix (written sockfd t) (received STDIN_FILENO t) \<and>
    prefix (written STDOUT_FILENO t) (received sockfd t)"
  using vldD [OF str_cli_vld [OF assms(1,2)] assms(5,6)] assms(3,4)
  by (auto simp: cli_fd_def cli_post_def)

theorem str_cli_relays_witness:
  "case str_cli (zeros 1024) (zeros 1024) 3 cli_script of (r, t, rs) \<Rightarrow>
     conforms {0, 1, 2, 3} t \<and> received 0 t = ''hi'' \<and> received 3 t = ''ok'' \<and>
     prefix (written 3 t) (received 0 t) \<and> prefix (written 1 t) (received 3 t)"
  by (rule cli_example)
     (use str_cli_relays [of "zeros 1024" "zeros 1024" 3 cli_script "Ret ()" _ "[]"]
       in \<open>auto simp: MAX_SIZE_def FD_SETSIZE_def\<close>)

text \<open>
  C15: The half-close of the socket comes at most once in a run of \<open>str_cli\<close>, only after standard
  input has ended, and only when every byte read from standard input has been written to the socket.
\<close>

theorem str_cli_half_close:
  assumes "length to0 = MAX_SIZE" and "length fr0 = MAX_SIZE"
    and "1 < sockfd" and "sockfd < FD_SETSIZE"
    and "str_cli to0 fr0 sockfd rs = (r, t, rs')" and "conforms fds t"
  shows "calls (Shutdown_wr sockfd) t \<le> 1 \<and>
    (0 < calls (Shutdown_wr sockfd) t \<longrightarrow>
      eof_on STDIN_FILENO t \<and> written sockfd t = received STDIN_FILENO t)"
  using vldD [OF str_cli_vld [OF assms(1,2)] assms(5,6)] assms(3,4)
  by (auto simp: cli_fd_def cli_post_def)

theorem str_cli_half_close_witness:
  "case str_cli (zeros 1024) (zeros 1024) 3 cli_script of (r, t, rs) \<Rightarrow>
     calls (Shutdown_wr 3) t = 1 \<and> eof_on 0 t \<and> written 3 t = ''hi''"
  by (rule cli_example)
     (use str_cli_half_close [of "zeros 1024" "zeros 1024" 3 cli_script "Ret ()" _ "[]"]
       in \<open>auto simp: MAX_SIZE_def FD_SETSIZE_def\<close>)

text \<open>
  C29: \<open>str_cli\<close> is memory-safe but for the value of its socket: under the kernel's contract no run
  writes or reads past one of the two buffers, and a run that faults has put a socket outside
  \<open>0 .. FD_SETSIZE - 1\<close> into an \<open>fd_set\<close>. With such a socket every run that reaches its loop faults,
  before anything is read. No run waits in \<open>select\<close> for no descriptor at all. The socket is any
  descriptor but standard input and standard output.
\<close>

theorem str_cli_safe:
  assumes "length to0 = MAX_SIZE" and "length fr0 = MAX_SIZE"
    and "sockfd \<noteq> STDIN_FILENO" and "sockfd \<noteq> STDOUT_FILENO"
    and "str_cli to0 fr0 sockfd rs = (r, t, rs')" and "conforms fds t"
  shows "(\<forall>f. r = Stop (Fault f) \<longrightarrow> f = Fd_range \<and> (sockfd < 0 \<or> FD_SETSIZE \<le> sockfd)) \<and>
    (sockfd < 0 \<or> FD_SETSIZE \<le> sockfd \<longrightarrow>
      (r = Stop Blocked \<or> r = Stop (Fault Fd_range)) \<and> received STDIN_FILENO t = []) \<and>
    \<not> idle_wait t"
proof (cases "cli_fd sockfd")
  case True
  with vldD [OF str_cli_vld [OF assms(1,2)] assms(5,6)] show ?thesis
    by (auto simp: cli_fd_def cli_post_def)
next
  case False
  with assms(3,4) have "sockfd < 0 \<or> FD_SETSIZE \<le> sockfd" by (auto simp: cli_fd_def)
  with vldD [OF str_cli_out_of_range [OF this] assms(5,6)] show ?thesis by auto
qed

theorem str_cli_safe_witness:
  "case str_cli (zeros 1024) (zeros 1024) 3 cli_script of (r, t, rs) \<Rightarrow>
     conforms {0, 1, 2, 3} t \<and> received 0 t = ''hi'' \<and> (\<forall>f. r \<noteq> Stop (Fault f)) \<and> \<not> idle_wait t"
  by (rule cli_example)
     (use str_cli_safe [of "zeros 1024" "zeros 1024" 3 cli_script "Ret ()" _ "[]"]
       in \<open>auto simp: MAX_SIZE_def FD_SETSIZE_def\<close>)

text \<open>
  The loop of \<open>str_cli\<close> is adequate: no turn goes round without a call of the system.
\<close>

theorem str_cli_never_diverges:
  "fst (str_cli to0 fr0 sockfd rs) \<noteq> Stop Diverge"
  by (rule steady_fst) (unfold str_cli_def, intro steady_intros cli_busy.loop_steady)

text \<open>
  \<open>str_cli\<close> returns normally only after it has met the end of both standard input and the socket.
\<close>

theorem str_cli_returns_at_eof:
  assumes "length to0 = MAX_SIZE" and "length fr0 = MAX_SIZE"
    and "1 < sockfd" and "sockfd < FD_SETSIZE"
    and "str_cli to0 fr0 sockfd rs = (Ret (), t, rs')" and "conforms fds t"
  shows "eof_on STDIN_FILENO t \<and> eof_on sockfd t"
  using vldD [OF str_cli_vld [OF assms(1,2)] assms(5,6)] assms(3,4)
  by (auto simp: cli_fd_def cli_post_def)

theorem str_cli_returns_at_eof_witness:
  "case str_cli (zeros 1024) (zeros 1024) 3 cli_script of (r, t, rs) \<Rightarrow>
     r = Ret () \<and> eof_on 0 t \<and> eof_on 3 t"
  by (rule cli_example)
     (use str_cli_returns_at_eof [of "zeros 1024" "zeros 1024" 3 cli_script _ "[]"]
       in \<open>auto simp: MAX_SIZE_def FD_SETSIZE_def\<close>)

definition lost_script :: "reply list" where
  "lost_script =
     [ok 2, ok 2, ok 2, ok 2, ok 2, ok 2] @
     [ready {0} {}, got ''''] @ stamp @ [ok 0] @
     [ready {3} {}, got ''ok''] @ stamp @ [fail EAGAIN] @
     [ready {3} {}, got ''''] @ stamp"

text \<open>
  A normal return may lose output. After standard input has ended, the end of the socket makes
  \<open>str_cli\<close> return at once, though bytes read from the socket may still wait for standard output:
  here \<open>ok\<close> was read, standard output was not ready to take it, and nothing was written.
\<close>

theorem str_cli_may_lose_output:
  "case str_cli (zeros 1024) (zeros 1024) 3 lost_script of (r, t, rs) \<Rightarrow>
     r = Ret () \<and> conforms {0, 1, 2, 3} t \<and> received 3 t = ''ok'' \<and> written 1 t = ''''"
  by (simp add: run_simps cli_defs lost_script_def stamp_def reply_simps cong: lazy)

text \<open>
  In \<open>fork_str_cli\<close> the signal that should end the parent when the server is done stands inside
  the child's loop: in every run the child has sent \<open>SIGTERM\<close> at least once for each line it has
  printed, so the first line from the server already ends the process that reads standard input.
\<close>

theorem fork_str_cli_kills_early:
  assumes "fork_str_cli recvline sockfd rs = (r, t, rs')" and "conforms fds t"
  shows "length (printed t) \<le> kills t"
  by (rule vldD [OF fork_str_cli_vld assms])

definition fork_script :: "reply list" where
  "fork_script = [ok 0, got ''hi'', ok 7, ok 0]"

theorem fork_str_cli_kills_early_witness:
  "case fork_str_cli (zeros 1024) 3 fork_script of (r, t, rs) \<Rightarrow>
     r = Stop Blocked \<and> conforms {0, 1, 2, 3} t \<and> printed t = [''hi''] \<and> length (printed t) \<le> kills t"
proof -
  obtain r t rs' where run: "fork_str_cli (zeros 1024) 3 fork_script = (r, t, rs')"
    by (cases "fork_str_cli (zeros 1024) 3 fork_script") auto
  have "case fork_str_cli (zeros 1024) 3 fork_script of (r, t, rs) \<Rightarrow>
     r = Stop Blocked \<and> conforms {0, 1, 2, 3} t \<and> printed t = [''hi'']"
    by (simp add: run_simps fork_str_cli_def fork_child_body_def fork_script_def cong: lazy)
  with run fork_str_cli_kills_early [OF run] show ?thesis by auto
qed

text \<open>
  The abstract relay: a queue of bytes. A turn appends what it reads and takes what it writes from the
  front.
\<close>

definition queue_turn :: "string \<Rightarrow> string \<Rightarrow> string \<Rightarrow> string" where
  "queue_turn inp out q = drop (length out) (q @ inp)"

lemma relays_turn:
  assumes "rb.relays b inp out" and "rb.relays b' (inp @ inp1) (out @ out1)"
  shows "buf_pending b' = queue_turn inp1 out1 (buf_pending b) \<and> prefix out1 (buf_pending b @ inp1)"
proof -
  have "out1 @ buf_pending b' = buf_pending b @ inp1"
    using assms by (auto simp: rb.relays_def)
  then show ?thesis
    by (metis queue_turn_def append_eq_conv_conj prefixI)
qed

lemma cli_reach_inv:
  assumes "reach (str_cli_body sockfd maxfd) fds0 \<lparr>to = fresh_buf to0, fr = fresh_buf fr0, stdineof = False\<rparr> fds st h"
    and "length to0 = MAX_SIZE" and "length fr0 = MAX_SIZE" and "1 < sockfd" and "sockfd < FD_SETSIZE"
  shows "cli_fd sockfd" "cli_inv sockfd st h"
  using cli.reach_inv [OF assms(1)] assms(2-)
  by (simp_all add: cli_fd_def cli_inv_def rb.relays_def fresh_buf_def buf_wf_def buf_pending_def)

text \<open>
  C7: The two arrays with their pairs of pointers implement two queues. From every state at the head of
  the loop, a turn of \<open>str_cli\<close> that comes back does to what lies between the pointers of each buffer what
  the abstract queue does: the bytes read in the turn go to its end, the bytes written in the turn come
  from its front.
\<close>

theorem str_cli_refines_queues:
  assumes "reach (str_cli_body sockfd maxfd) fds0 \<lparr>to = fresh_buf to0, fr = fresh_buf fr0, stdineof = False\<rparr> fds st h"
    and "length to0 = MAX_SIZE" and "length fr0 = MAX_SIZE" and "1 < sockfd" and "sockfd < FD_SETSIZE"
    and "str_cli_body sockfd maxfd st rs = (Ret (Inl st'), t, rs')" and "conforms fds t"
  shows "buf_pending (to st') = queue_turn (received STDIN_FILENO t) (written sockfd t) (buf_pending (to st)) \<and>
    prefix (written sockfd t) (buf_pending (to st) @ received STDIN_FILENO t) \<and>
    buf_pending (fr st') = queue_turn (received sockfd t) (written STDOUT_FILENO t) (buf_pending (fr st)) \<and>
    prefix (written STDOUT_FILENO t) (buf_pending (fr st) @ received sockfd t)"
proof -
  have "cli_inv sockfd st h" by (rule cli_reach_inv [OF assms(1-5)])
  moreover have "cli_inv sockfd st' (h @ t)"
    by (rule cli_reach_inv(2) [OF reach.turn [OF assms(1,6,7)] assms(2-5)])
  ultimately have
    "rb.relays (to st) (received STDIN_FILENO h) (written sockfd h)"
    "rb.relays (to st') (received STDIN_FILENO h @ received STDIN_FILENO t) (written sockfd h @ written sockfd t)"
    "rb.relays (fr st) (received sockfd h) (written STDOUT_FILENO h)"
    "rb.relays (fr st') (received sockfd h @ received sockfd t) (written STDOUT_FILENO h @ written STDOUT_FILENO t)"
    by (simp_all add: cli_inv_def)
  from relays_turn [OF this(1,2)] relays_turn [OF this(3,4)] show ?thesis by simp
qed

text \<open>
  C30: The state of \<open>str_cli\<close> is well-formed whenever the loop is at its head: both arrays have their 1024
  bytes, the output pointer never passes the input pointer, the input pointer never passes the end, and
  an empty buffer has both pointers at its start, so that there is room to read.
\<close>

theorem str_cli_state_wf:
  assumes "reach (str_cli_body sockfd maxfd) fds0 \<lparr>to = fresh_buf to0, fr = fresh_buf fr0, stdineof = False\<rparr> fds st h"
    and "length to0 = MAX_SIZE" and "length fr0 = MAX_SIZE" and "1 < sockfd" and "sockfd < FD_SETSIZE"
  shows "\<forall>b \<in> {to st, fr st}. length (arr b) = 1024 \<and> optr b \<le> iptr b \<and> iptr b \<le> 1024 \<and>
    (optr b = iptr b \<longrightarrow> iptr b = 0)"
  using cli_inv_wf [OF cli_reach_inv(2) [OF assms]] by (simp add: buf_wf_def MAX_SIZE_def)

definition relay_start :: cli_state where
  "relay_start = \<lparr>to = fresh_buf (zeros 1024), fr = fresh_buf (zeros 1024), stdineof = False\<rparr>"

theorem str_cli_refines_queues_witness:
  "case str_cli_body 3 4 relay_start ([ready {0} {}, got ''hi''] @ stamp @ [ok 1] @ stamp) of
     (Ret (Inl st'), t, rs) \<Rightarrow> conforms {0, 1, 2, 3} t \<and> received 0 t = ''hi'' \<and> written 3 t = ''h'' \<and>
       buf_pending (to st') = queue_turn ''hi'' ''h'' [] \<and> queue_turn ''hi'' ''h'' [] = ''i''
   | _ \<Rightarrow> False"
proof -
  let ?rs = "[ready {0} {}, got ''hi''] @ stamp @ [ok 1] @ stamp"
  obtain st' t rs where run: "str_cli_body 3 4 relay_start ?rs = (Ret (Inl st'), t, rs)" and c: "conforms {0, 1, 2, 3} t"
    and io: "received 0 t = ''hi''" "written 3 t = ''h''"
    by (simp add: run_simps cli_defs relay_start_def stamp_def reply_simps cong: lazy)
  have r: "reach (str_cli_body 3 4) {0, 1, 2, 3} \<lparr>to = fresh_buf (zeros 1024), fr = fresh_buf (zeros 1024), stdineof = False\<rparr>
      {0, 1, 2, 3} relay_start []"
    unfolding relay_start_def by (rule reach.start)
  have "buf_pending (to relay_start) = []" by (simp add: relay_start_def fresh_buf_def buf_pending_def)
  with str_cli_refines_queues [OF r _ _ _ _ run c] io
  have "buf_pending (to st') = queue_turn ''hi'' ''h'' []" by (simp add: MAX_SIZE_def FD_SETSIZE_def)
  with run c io show ?thesis by (simp add: queue_turn_def)
qed

theorem str_cli_state_wf_witness:
  "case turns (str_cli_body 3 4) relay_start [[ready {0} {}, got ''hi''] @ stamp @ [ok 1] @ stamp] of
     Some (st, h) \<Rightarrow> iptr (to st) = 2 \<and> optr (to st) = 1 \<and> length (arr (to st)) = 1024
   | None \<Rightarrow> False"
proof -
  let ?rss = "[[ready {0} {}, got ''hi''] @ stamp @ [ok 1] @ stamp]"
  obtain st h where t: "turns (str_cli_body 3 4) relay_start ?rss = Some (st, h)" and c: "conforms {0, 1, 2, 3} h"
    and p: "iptr (to st) = 2" "optr (to st) = 1"
    by (simp add: run_simps cli_defs relay_start_def stamp_def reply_simps cong: lazy)
  from turns_reach [OF t c] have "\<forall>b \<in> {to st, fr st}. length (arr b) = 1024 \<and> optr b \<le> iptr b \<and> iptr b \<le> 1024 \<and>
      (optr b = iptr b \<longrightarrow> iptr b = 0)"
    unfolding relay_start_def by (rule str_cli_state_wf) (simp_all add: MAX_SIZE_def FD_SETSIZE_def)
  with t p show ?thesis by simp
qed

end
