(* ===== verification/Conn_Pool.thy ===== *)
theory Conn_Pool
  imports Eval
begin

text \<open>
  The connections of a \<open>select\<close> server: the array \<open>cli_socks\<close> with -1 in a free slot, the set
  \<open>active_fds\<close>, the highest descriptor \<open>max_sd\<close>; and the pool of the two servers with ten slots,
  \<open>C/select_srv_better.c\<close> and \<open>ameba/tcp_select_server.c\<close>, which adds the highest slot ever used
  \<open>maxi\<close>. The locale \<open>pool_server\<close> states what the two loops have in common; each program's theory interprets it.
\<close>

definition MAX_CONNECTIONS :: nat where "MAX_CONNECTIONS = 10"
definition RECV_BUF_SIZE :: nat where "RECV_BUF_SIZE = 256"
definition LISTEN_BACKLOG :: int where "LISTEN_BACKLOG = 20"
definition EXCHANGE_SERVER_PORT :: "16 word" where "EXCHANGE_SERVER_PORT = 5002"

record conns =
  cli_socks :: "int list"
  active_fds :: "int set"
  max_sd :: int
  cli_addr :: sockaddr

record pool = conns +
  maxi :: int

text \<open>The address a \<open>struct sockaddr_in\<close> holds, as \<open>inet_ntoa\<close> and \<open>ntohs\<close> show it.\<close>

fun dotted :: "byte list \<Rightarrow> string" where
  "dotted [] = ''''"
| "dotted [b] = dec (unat b)"
| "dotted (b # bs) = dec (unat b) @ ''.'' @ dotted bs"

fun inet_ntoa :: "sockaddr \<Rightarrow> string" where
  "inet_ntoa (Sin p a) = dotted a"
| "inet_ntoa _ = ''''"

fun show_port :: "sockaddr \<Rightarrow> string" where
  "show_port (Sin p a) = show_int (uint (ntohs p))"
| "show_port _ = ''0''"

subsection \<open>The pool\<close>

definition start_pool :: "int \<Rightarrow> sockaddr \<Rightarrow> pool" where
  "start_pool master junk =
     \<lparr>cli_socks = replicate MAX_CONNECTIONS (- 1), active_fds = {master}, max_sd = master,
      cli_addr = junk, maxi = - 1\<rparr>"

text \<open>Where the search for a free slot stops; \<open>MAX_CONNECTIONS\<close> when there is none.\<close>

definition free_slot :: "int list \<Rightarrow> nat" where
  "free_slot socks = length (takeWhile (\<lambda>s. \<not> s < 0) socks)"

text \<open>The pool after a connection has got the slot, and after one has left it.\<close>

definition pool_put :: "int \<Rightarrow> pool \<Rightarrow> pool" where
  "pool_put fd st =
     (let i = free_slot (cli_socks st)
      in st\<lparr>cli_socks := (cli_socks st)[i := fd], active_fds := insert fd (active_fds st),
            maxi := (if int i > maxi st then int i else maxi st), max_sd := max (max_sd st) fd\<rparr>)"

definition pool_drop :: "int \<Rightarrow> 'a conns_scheme \<Rightarrow> 'a conns_scheme" where
  "pool_drop i st =
     st\<lparr>active_fds := active_fds st - {cli_socks st ! nat i}, cli_socks := (cli_socks st)[nat i := - 1]\<rparr>"

definition live :: "'a conns_scheme \<Rightarrow> int list" where
  "live st = filter (\<lambda>s. 0 \<le> s) (cli_socks st)"

definition pool_full :: "pool \<Rightarrow> bool" where
  "pool_full st \<longleftrightarrow> free_slot (cli_socks st) = MAX_CONNECTIONS"

text \<open>
  The invariant, with the process's open descriptors \<open>fds\<close> and those \<open>base\<close> the server has nothing
  to do with: the slots hold distinct open connections, \<open>active_fds\<close> is exactly the listening socket
  and the connections, \<open>maxi\<close> and \<open>max_sd\<close> are bounds, and there is no other open descriptor.
\<close>

definition pool_inv :: "int set \<Rightarrow> int \<Rightarrow> int set \<Rightarrow> pool \<Rightarrow> bool" where
  "pool_inv base master fds st \<longleftrightarrow>
     length (cli_socks st) = MAX_CONNECTIONS \<and>
     distinct (live st) \<and>
     master \<notin> set (live st) \<and> 0 \<le> master \<and> master < FD_SETSIZE \<and>
     - 1 \<le> maxi st \<and> maxi st < int MAX_CONNECTIONS \<and>
     (\<forall>i < MAX_CONNECTIONS. maxi st < int i \<longrightarrow> cli_socks st ! i < 0) \<and>
     active_fds st = insert master (set (live st)) \<and>
     (\<forall>fd \<in> active_fds st. fd \<le> max_sd st \<and> fd < FD_SETSIZE) \<and>
     fds = base \<union> active_fds st \<and> base \<inter> active_fds st = {} \<and> (\<forall>fd \<in> base. 0 \<le> fd)"

lemma free_slot_le: "free_slot socks \<le> length socks"
  by (simp add: free_slot_def length_takeWhile_le)

lemma free_slot_free: "free_slot socks < length socks \<Longrightarrow> socks ! free_slot socks < 0"
  unfolding free_slot_def using nth_length_takeWhile [of "\<lambda>s. \<not> s < 0" socks] by simp

lemma live_iff: "fd \<in> set (live st) \<longleftrightarrow> 0 \<le> fd \<and> fd \<in> set (cli_socks st)"
  by (auto simp: live_def)

text \<open>Assigning one slot, as it shows in the list of the connections.\<close>

lemma live_split:
  assumes "i < length socks"
  shows "filter P socks = filter P (take i socks) @ (if P (socks ! i) then [socks ! i] else []) @
      filter P (drop (Suc i) socks)"
    and "filter P (socks[i := x]) = filter P (take i socks) @ (if P x then [x] else []) @
      filter P (drop (Suc i) socks)"
proof -
  have "filter P socks = filter P (take i socks @ socks ! i # drop (Suc i) socks)"
    using id_take_nth_drop [OF assms] by simp
  then show "filter P socks = filter P (take i socks) @ (if P (socks ! i) then [socks ! i] else []) @
      filter P (drop (Suc i) socks)" by simp
  show "filter P (socks[i := x]) = filter P (take i socks) @ (if P x then [x] else []) @
      filter P (drop (Suc i) socks)"
    unfolding upd_conv_take_nth_drop [OF assms] by simp
qed

text \<open>Two slots do not hold the same connection.\<close>

lemma distinct_filter_nth:
  assumes "distinct (filter P xs)" and "i < length xs" "j < length xs" "i \<noteq> j" and "P (xs ! i)"
  shows "xs ! i \<noteq> xs ! j"
proof
  assume eq: "xs ! i = xs ! j"
  define k l where "k = min i j" and "l = max i j"
  have kl: "k < l" "l < length xs" "k < length xs" "xs ! k = xs ! l" "P (xs ! k)"
    using assms eq by (auto simp: k_def l_def min_def max_def)
  have "xs ! l \<in> set (drop (Suc k) xs)"
    using kl(1,2) by (auto simp: in_set_conv_nth intro!: exI [of _ "l - Suc k"])
  then have "xs ! k \<in> set (filter P (drop (Suc k) xs))" using kl by simp
  moreover have "filter P xs = filter P (take k xs) @ xs ! k # filter P (drop (Suc k) xs)"
    using live_split(1) [OF kl(3), of P] kl(5) by simp
  ultimately show False using assms(1) by simp
qed

lemma freed_slot: "(socks :: int list) ! k < 0 \<Longrightarrow> socks[i := - 1] ! k < 0"
  by (cases "i < length socks") (auto simp: nth_list_update list_update_beyond)

text \<open>A connection put into a free slot shows in the list of the connections, the others keep their order.\<close>

lemma live_fill:
  assumes i: "i = free_slot (cli_socks st)" "i < length (cli_socks st)"
    and upd: "cli_socks st' = (cli_socks st)[i := fd]" and fd: "0 \<le> fd" "fd \<notin> set (live st)"
    and dist: "distinct (live st)"
  shows "set (live st') = insert fd (set (live st))" "distinct (live st')"
    "length (live st') = Suc (length (live st))"
    "fd \<notin> rfds \<Longrightarrow> filter (\<lambda>x. x \<in> rfds) (live st') = filter (\<lambda>x. x \<in> rfds) (live st)"
proof -
  have neg: "\<not> 0 \<le> cli_socks st ! i" using free_slot_free i by (simp add: not_le)
  have l: "live st' = filter (\<lambda>s. 0 \<le> s) (take i (cli_socks st)) @ fd #
      filter (\<lambda>s. 0 \<le> s) (drop (Suc i) (cli_socks st))"
    using live_split(2) [OF i(2)] fd(1) upd by (simp add: live_def)
  have l0: "live st = filter (\<lambda>s. 0 \<le> s) (take i (cli_socks st)) @
      filter (\<lambda>s. 0 \<le> s) (drop (Suc i) (cli_socks st))"
    using live_split(1) [OF i(2), of "\<lambda>s. 0 \<le> s"] neg by (simp add: live_def)
  show "set (live st') = insert fd (set (live st))" "distinct (live st')"
    "length (live st') = Suc (length (live st))"
    "fd \<notin> rfds \<Longrightarrow> filter (\<lambda>x. x \<in> rfds) (live st') = filter (\<lambda>x. x \<in> rfds) (live st)"
    using dist fd(2) unfolding l l0 by auto
qed

lemma pool_room: "length (cli_socks st) = MAX_CONNECTIONS \<Longrightarrow> \<not> pool_full st \<Longrightarrow>
    free_slot (cli_socks st) < length (cli_socks st)"
  using free_slot_le [of "cli_socks st"] by (simp add: pool_full_def)

lemma pool_inv_nonneg: "pool_inv base master fds st \<Longrightarrow> fd \<in> fds \<Longrightarrow> 0 \<le> fd"
  by (auto simp: pool_inv_def live_def)

text \<open>A used slot holds an open connection.\<close>

lemma slot_open:
  assumes inv: "pool_inv base master fds st" and i: "0 \<le> i" "i < int MAX_CONNECTIONS"
    and fd: "0 \<le> cli_socks st ! nat i"
  shows "cli_socks st ! nat i \<in> fds" "cli_socks st ! nat i < FD_SETSIZE"
proof -
  have "cli_socks st ! nat i \<in> set (cli_socks st)" using inv i by (intro nth_mem) (simp add: pool_inv_def)
  with fd have "cli_socks st ! nat i \<in> set (live st)" by (simp add: live_iff)
  then show "cli_socks st ! nat i \<in> fds" "cli_socks st ! nat i < FD_SETSIZE"
    using inv by (auto simp: pool_inv_def)
qed

lemma pool_put_live:
  assumes inv: "pool_inv base master fds st" and room: "\<not> pool_full st" and fd: "fd \<notin> fds" "0 \<le> fd"
  shows "set (live (pool_put fd st)) = insert fd (set (live st))" "distinct (live (pool_put fd st))"
    "fd \<notin> rfds \<Longrightarrow> filter (\<lambda>x. x \<in> rfds) (live (pool_put fd st)) = filter (\<lambda>x. x \<in> rfds) (live st)"
  using live_fill [OF refl pool_room [OF _ room], of "pool_put fd st" fd] inv fd
  by (auto simp: pool_inv_def pool_put_def Let_def)

lemma pool_inv_put:
  assumes inv: "pool_inv base master fds st" and room: "\<not> pool_full st"
    and fd: "fd \<notin> fds" "0 \<le> fd" "fd < FD_SETSIZE"
  shows "pool_inv base master (insert fd fds) (pool_put fd st)"
proof -
  have len: "length (cli_socks st) = MAX_CONNECTIONS" using inv by (simp add: pool_inv_def)
  note put = pool_put_live [OF inv room fd(1,2)]
  have i: "free_slot (cli_socks st) < MAX_CONNECTIONS" using pool_room [OF len room] len by simp
  have new: "fd \<noteq> master" "fd \<notin> base" using inv fd(1) by (auto simp: pool_inv_def)
  have "cli_socks (pool_put fd st) ! j < 0"
    if "j < MAX_CONNECTIONS" "maxi (pool_put fd st) < int j" for j
    using that inv by (auto simp: pool_put_def pool_inv_def Let_def nth_list_update split: if_splits)
  then show ?thesis
    using inv fd new i len put
    by (auto simp: pool_inv_def pool_put_def Let_def le_max_iff_disj)
qed

lemma live_drop:
  assumes i: "0 \<le> i" "i < int (length (cli_socks st))"
    and fd: "cli_socks st ! nat i = fd" "0 \<le> fd" and dist: "distinct (live st)"
  shows "set (live (pool_drop i st)) = set (live st) - {fd}" "distinct (live (pool_drop i st))"
    "fd \<in> set (live st)" "Suc (length (live (pool_drop i st))) = length (live st)"
proof -
  define j where "j = nat i"
  have j: "j < length (cli_socks st)" using i by (simp add: j_def)
  have l0: "live st = filter (\<lambda>s. 0 \<le> s) (take j (cli_socks st)) @ fd #
      filter (\<lambda>s. 0 \<le> s) (drop (Suc j) (cli_socks st))"
    using live_split(1) [OF j, of "\<lambda>s. 0 \<le> s"] fd by (simp add: live_def j_def)
  have l: "live (pool_drop i st) = filter (\<lambda>s. 0 \<le> s) (take j (cli_socks st)) @
      filter (\<lambda>s. 0 \<le> s) (drop (Suc j) (cli_socks st))"
    using live_split(2) [OF j, of "\<lambda>s. 0 \<le> s" "- 1"] by (simp add: live_def pool_drop_def j_def)
  show "set (live (pool_drop i st)) = set (live st) - {fd}" "distinct (live (pool_drop i st))"
    "fd \<in> set (live st)" "Suc (length (live (pool_drop i st))) = length (live st)"
    using dist unfolding l l0 by auto
qed

lemma pool_inv_drop:
  assumes inv: "pool_inv base master fds st" and i: "0 \<le> i" "i < int (length (cli_socks st))"
    and fd: "cli_socks st ! nat i = fd" "0 \<le> fd"
  shows "pool_inv base master (fds - {fd}) (pool_drop i st)"
proof -
  have dist: "distinct (live st)" using inv by (simp add: pool_inv_def)
  note drop = live_drop [OF i fd dist]
  have "fd \<noteq> master" "fd \<notin> base" using inv drop(3) by (auto simp: pool_inv_def)
  moreover have "cli_socks (pool_drop i st) ! k < 0"
    if "k < MAX_CONNECTIONS" "maxi st < int k" for k
    using that inv by (auto simp: pool_drop_def pool_inv_def freed_slot)
  ultimately show ?thesis
    using inv drop fd by (auto simp: pool_inv_def pool_drop_def)
qed

lemma pool_inv_start:
  assumes "0 \<le> master" and "master < FD_SETSIZE" and "master \<notin> base" and "\<forall>fd \<in> base. 0 \<le> fd"
  shows "pool_inv base master (insert master base) (start_pool master junk)"
  using assms by (auto simp: pool_inv_def start_pool_def live_def MAX_CONNECTIONS_def)

lemma pool_inv_addr [simp]: "pool_inv base master fds (st\<lparr>cli_addr := x\<rparr>) = pool_inv base master fds st"
  "pool_full (st\<lparr>cli_addr := x\<rparr>) = pool_full st" "live (st\<lparr>cli_addr := x\<rparr>) = live st"
  by (simp_all add: pool_inv_def pool_full_def live_def)

subsection \<open>The clients that are ready\<close>

text \<open>In the order of the slots.\<close>

definition ready_in :: "int set \<Rightarrow> int list \<Rightarrow> int list \<Rightarrow> int list" where
  "ready_in rfds is socks = filter (\<lambda>fd. 0 \<le> fd \<and> fd \<in> rfds) (map (\<lambda>i. socks ! nat i) is)"

lemma ready_in_simps [simp]:
  "ready_in rfds [] socks = []"
  "ready_in rfds (i # is) socks =
     (if 0 \<le> socks ! nat i \<and> socks ! nat i \<in> rfds then [socks ! nat i] else []) @ ready_in rfds is socks"
  by (simp_all add: ready_in_def)

lemma ready_in_update:
  "i \<notin> set is \<Longrightarrow> 0 \<le> i \<Longrightarrow> \<forall>j \<in> set is. 0 \<le> j \<Longrightarrow>
    ready_in rfds is (socks[nat i := x]) = ready_in rfds is socks"
proof (induction "is")
  case (Cons j js)
  then have "nat i \<noteq> nat j" by (auto simp: eq_nat_nat_iff)
  with Cons show ?case by simp
qed simp

lemma map_nth_upto:
  "- 1 \<le> m \<Longrightarrow> m < int (length xs) \<Longrightarrow> map (\<lambda>i. xs ! nat i) [0..m] = take (nat (m + 1)) xs"
  by (rule nth_equalityI) auto

text \<open>Scanning the slots up to \<open>maxi\<close> finds all that are ready.\<close>

lemma ready_in_all:
  assumes inv: "pool_inv base master fds st"
  shows "ready_in rfds [0..maxi st] (cli_socks st) = filter (\<lambda>fd. fd \<in> rfds) (live st)"
proof -
  let ?k = "nat (maxi st + 1)"
  have "filter (\<lambda>s. 0 \<le> s) (drop ?k (cli_socks st)) = []"
    using inv by (auto simp: filter_empty_conv in_set_conv_nth pool_inv_def not_le)
  moreover have "live st = filter (\<lambda>s. 0 \<le> s) (take ?k (cli_socks st)) @ filter (\<lambda>s. 0 \<le> s) (drop ?k (cli_socks st))"
    unfolding live_def filter_append [symmetric] by simp
  ultimately show ?thesis
    using inv by (simp add: ready_in_def map_nth_upto pool_inv_def conj_commute)
qed

text \<open>\<open>select\<close> counts them.\<close>

lemma ready_count:
  assumes inv: "pool_inv base master fds st"
    and a: "rset a \<subseteq> active_fds st" "rv a = int (card (rset a))"
  shows "int (length (filter (\<lambda>fd. fd \<in> rset a) (live st))) = rv a - (if master \<in> rset a then 1 else 0)"
proof -
  have l: "distinct (live st)" "master \<notin> set (live st)" "active_fds st = insert master (set (live st))"
    using inv by (simp_all add: pool_inv_def)
  then have fin: "finite (rset a)" using a(1) by (auto intro: finite_subset)
  have "length (filter (\<lambda>fd. fd \<in> rset a) (live st)) = card (rset a - {master})"
    using l a(1) by (subst distinct_card [symmetric]) (auto intro!: arg_cong [of _ _ card])
  also have "int \<dots> = rv a - (if master \<in> rset a then 1 else 0)"
    using a(2) card_Suc_Diff1 [OF fin, of master] by (cases "master \<in> rset a") auto
  finally show ?thesis .
qed

subsection \<open>The server loop\<close>

text \<open>
  What the two programs have in common. \<open>serve rfds is st n\<close> is the \<open>for\<close> loop over the slots \<open>is\<close>
  with \<open>nready = n\<close>, \<open>handle\<close> what is done for a ready client, \<open>admit\<close> what follows \<open>accept\<close>, \<open>body\<close> one
  turn of the \<open>while\<close> loop. The laws give their control flow up to what is printed, and the effect of
  \<open>handle\<close> on the pool.
\<close>

definition serves ::
  "int set \<Rightarrow> int \<Rightarrow> int set \<Rightarrow> int list \<Rightarrow> pool result \<Rightarrow> event list \<Rightarrow> bool" where
  "serves base master fds reads r t \<longleftrightarrow>
     new_fds t = [] \<and> (\<forall>z. r = Stop z \<longrightarrow> z = Blocked) \<and>
     (\<forall>st'. r = Ret st' \<longrightarrow> pool_inv base master (fds_run fds t) st' \<and> reads_of t = reads)"

text \<open>
  How a turn from the state \<open>st\<close> may end: the reads made are those of the clients \<open>select\<close> reported, in
  slot order, each once, except in a turn that refuses a new connection. A turn that faults has met
  an \<open>accept\<close> that failed or gave a descriptor beyond an \<open>fd_set\<close>.
\<close>

definition turn_ok ::
  "int set \<Rightarrow> int \<Rightarrow> int set \<Rightarrow> pool \<Rightarrow> (pool + unit) result \<Rightarrow> event list \<Rightarrow> bool" where
  "turn_ok base master fds st r t \<longleftrightarrow>
     (case r of
        Ret (Inl st') \<Rightarrow> pool_inv base master (fds_run fds t) st' \<and>
          (\<exists>a t'. t = Call (Select (max_sd st + 1) (active_fds st) {}) a # t' \<and>
             reads_of t = (if rv a \<le> 0 \<or> (master \<in> rset a \<and> pool_full st) then []
                           else filter (\<lambda>fd. fd \<in> rset a) (live st)))
      | Ret (Inr _) \<Rightarrow> False
      | Stop z \<Rightarrow> z = Blocked \<or> (z = Fault Fd_range \<and> bad_new_fd t))"

definition admitted ::
  "int set \<Rightarrow> int \<Rightarrow> int set \<Rightarrow> int list \<Rightarrow> bool \<Rightarrow> (pool + unit) result \<Rightarrow> event list \<Rightarrow> bool" where
  "admitted base master fds reads bad r t \<longleftrightarrow>
     (case r of
        Ret (Inl st') \<Rightarrow> pool_inv base master (fds_run fds t) st' \<and> reads_of t = reads
      | Ret (Inr _) \<Rightarrow> False
      | Stop z \<Rightarrow> z = Blocked \<or> (z = Fault Fd_range \<and> bad))"

lemma admitted_simps [simp]:
  "admitted base master fds reads bad (Ret (Inl st')) t \<longleftrightarrow>
     pool_inv base master (fds_run fds t) st' \<and> reads_of t = reads"
  "admitted base master fds reads bad (Stop z) t \<longleftrightarrow> z = Blocked \<or> (z = Fault Fd_range \<and> bad)"
  "admitted base master fds reads bad r (map Out ms @ t) = admitted base master fds reads bad r t"
  by (auto simp: admitted_def split: result.splits sum.splits)

lemma turn_ok_stop [simp]:
  "turn_ok base master fds st (Stop z) t \<longleftrightarrow> z = Blocked \<or> (z = Fault Fd_range \<and> bad_new_fd t)"
  by (simp add: turn_ok_def)

definition pool_post :: "unit result \<Rightarrow> event list \<Rightarrow> bool" where
  "pool_post r h \<longleftrightarrow> (\<exists>z. r = Stop z \<and> (z = Blocked \<or> z = Diverge \<or> (z = Fault Fd_range \<and> bad_new_fd h)))"

locale pool_server =
  fixes handle :: "int \<Rightarrow> int \<Rightarrow> pool \<Rightarrow> pool io"
    and serve :: "int set \<Rightarrow> int list \<Rightarrow> pool \<Rightarrow> int \<Rightarrow> pool io"
    and admit :: "int set \<Rightarrow> int \<Rightarrow> reply \<Rightarrow> pool \<Rightarrow> (pool + unit) io"
    and body :: "int \<Rightarrow> pool \<Rightarrow> (pool + unit) io"
  assumes handle_ok:
    "\<lbrakk>pool_inv base master fds st; 0 \<le> i; i < int MAX_CONNECTIONS; cli_socks st ! nat i = fd; 0 \<le> fd\<rbrakk> \<Longrightarrow>
      vld fds (handle i fd st) (\<lambda>r t. new_fds t = [] \<and> (\<forall>z. r = Stop z \<longrightarrow> z = Blocked) \<and>
        (\<forall>st'. r = Ret st' \<longrightarrow> reads_of t = [fd] \<and> pool_inv base master (fds_run fds t) st' \<and>
          (cli_socks st' = cli_socks st \<or> cli_socks st' = (cli_socks st)[nat i := - 1])))"
    and handle_steady: "steady (handle i fd st)"
    and serve_Nil: "serve rfds [] st n = ret st"
    and serve_Cons: "\<exists>ms ms'. serve rfds (i # is) st n =
      arr_get (cli_socks st) i (\<lambda>fd. says (ms fd)
        (if fd < 0 then serve rfds is st n
         else fd_isset fd rfds (\<lambda>r.
           if \<not> r then serve rfds is st n
           else says (ms' fd) (bnd (handle i fd st) (\<lambda>st'. if n - 1 \<le> 0 then ret st' else serve rfds is st' (n - 1))))))"
    and admit_room: "\<lbrakk>\<not> pool_full st; length (cli_socks st) = MAX_CONNECTIONS; 0 \<le> rv b\<rbrakk> \<Longrightarrow>
      \<exists>ms ms'. admit rfds n b st = says ms (fd_set (rv b) (active_fds st) (\<lambda>_. says ms'
        (let st' = pool_put (rv b) (st\<lparr>cli_addr := peer b\<rparr>)
         in if n - 1 \<le> 0 then ret (Inl st')
            else bnd (serve rfds [0..maxi st'] st' (n - 1)) (\<lambda>st''. ret (Inl st'')))))"
    and admit_full: "\<lbrakk>pool_full st; 0 \<le> rv b\<rbrakk> \<Longrightarrow>
      \<exists>ms ms'. admit rfds n b st =
        says ms (says ms' (sys (Close (rv b)) (\<lambda>_. ret (Inl (st\<lparr>cli_addr := peer b\<rparr>)))))"
    and admit_failed: "rv b < 0 \<Longrightarrow>
      \<exists>ms ms' ms''. admit rfds n b st = says ms (sys (Close (rv b)) (\<lambda>_. says ms'
        (if pool_full st then says ms'' (sys (Close (rv b)) (\<lambda>_. ret (Inl st)))
         else arr_set (cli_socks st) (int (free_slot (cli_socks st))) (rv b) (\<lambda>_. fault Fd_range))))"
    and body_eq: "body master st =
      sys (Select (max_sd st + 1) (active_fds st) {}) (\<lambda>a.
        if rv a = - 1 \<or> rv a = 0 then ret (Inl st)
        else fd_isset master (rset a) (\<lambda>new.
          if \<not> new then bnd (serve (rset a) [0..maxi st] st (rv a)) (\<lambda>st'. ret (Inl st'))
          else sys (Accept master) (\<lambda>b. admit (rset a) (rv a) b st)))"
begin

lemma serve_ok:
  "\<lbrakk>pool_inv base master fds st; distinct is; \<forall>i \<in> set is. 0 \<le> i \<and> i < int MAX_CONNECTIONS;
    int (length (ready_in rfds is (cli_socks st))) \<le> n\<rbrakk> \<Longrightarrow>
    vld fds (serve rfds is st n) (serves base master fds (ready_in rfds is (cli_socks st)))"
proof (induction "is" arbitrary: fds st n)
  case Nil
  then show ?case by (simp add: serve_Nil io_simps serves_def)
next
  case (Cons i "is")
  let ?rest = "ready_in rfds is (cli_socks st)"
  obtain ms ms' where eq: "serve rfds (i # is) st n =
      arr_get (cli_socks st) i (\<lambda>fd. says (ms fd)
        (if fd < 0 then serve rfds is st n
         else fd_isset fd rfds (\<lambda>r.
           if \<not> r then serve rfds is st n
           else says (ms' fd) (bnd (handle i fd st) (\<lambda>st'. if n - 1 \<le> 0 then ret st' else serve rfds is st' (n - 1))))))"
    using serve_Cons by blast
  have i: "0 \<le> i" "i < int (length (cli_socks st))" "i < int MAX_CONNECTIONS"
    using Cons.prems(1,3) by (auto simp: pool_inv_def)
  define fd where "fd = cli_socks st ! nat i"
  have range: "0 \<le> fd \<Longrightarrow> fd < FD_SETSIZE"
    using Cons.prems(1) i by (auto simp: fd_def pool_inv_def live_def)
  have skip: "\<not> (0 \<le> fd \<and> fd \<in> rfds) \<Longrightarrow> vld fds (serve rfds is st n) (serves base master fds ?rest)"
    using Cons.prems by (intro Cons.IH) (auto simp: fd_def)
  have use: "vld fds (bnd (handle i fd st) (\<lambda>st'. if n - 1 \<le> 0 then ret st' else serve rfds is st' (n - 1)))
      (serves base master fds (fd # ?rest))"
    if pos: "0 \<le> fd" and rdy: "fd \<in> rfds"
  proof (rule vld_bnd_use [OF handle_ok [OF Cons.prems(1) i(1) i(3) fd_def [symmetric] pos]])
    fix st' t
    assume "new_fds t = [] \<and> (\<forall>z. Ret st' = Stop z \<longrightarrow> z = Blocked) \<and>
      (\<forall>st''. Ret st' = Ret st'' \<longrightarrow> reads_of t = [fd] \<and> pool_inv base master (fds_run fds t) st'' \<and>
        (cli_socks st'' = cli_socks st \<or> cli_socks st'' = (cli_socks st)[nat i := - 1]))"
    then have new: "new_fds t = []" and reads: "reads_of t = [fd]"
      and inv': "pool_inv base master (fds_run fds t) st'"
      and socks: "cli_socks st' = cli_socks st \<or> cli_socks st' = (cli_socks st)[nat i := - 1]"
      by blast+
    have same: "ready_in rfds is (cli_socks st') = ?rest"
      using socks Cons.prems(2,3) i by (auto simp: ready_in_update)
    have count: "int (length ?rest) \<le> n - 1"
      using Cons.prems(4) pos rdy by (simp add: fd_def)
    have all: "n - 1 \<le> 0 \<Longrightarrow> ?rest = []" using count by (cases ?rest) auto
    have "vld (fds_run fds t) (serve rfds is st' (n - 1)) (serves base master (fds_run fds t) ?rest)"
      using Cons.prems inv' same count Cons.IH [of "fds_run fds t" st' "n - 1"] by auto
    then show "vld (fds_run fds t) (if n - 1 \<le> 0 then ret st' else serve rfds is st' (n - 1))
        (\<lambda>r t'. serves base master fds (fd # ?rest) r (t @ t'))"
      using all inv' new reads by (auto simp: io_simps serves_def elim: vld_mono)
  qed (simp add: serves_def)
  show ?case
    using i skip use range
    unfolding eq by (auto simp: io_simps fd_def [symmetric] serves_def elim!: vld_mono)
qed

lemma serve_all:
  assumes inv: "pool_inv base master fds st"
    and n: "int (length (filter (\<lambda>fd. fd \<in> rfds) (live st))) \<le> n"
  shows "vld fds (serve rfds [0..maxi st] st n) (serves base master fds (filter (\<lambda>fd. fd \<in> rfds) (live st)))"
  using serve_ok [OF inv, of "[0..maxi st]" rfds n] inv n
  by (auto simp: ready_in_all [OF inv] pool_inv_def)

lemma admit_ok:
  assumes inv: "pool_inv base master fds st" and b: "- 1 \<le> rv b" "rv b \<notin> fds"
    and rfds: "rfds \<subseteq> fds" and n: "int (length (filter (\<lambda>fd. fd \<in> rfds) (live st))) = n - 1"
  shows "vld (if 0 \<le> rv b then insert (rv b) fds else fds) (admit rfds n b st)
    (admitted base master (if 0 \<le> rv b then insert (rv b) fds else fds)
      (if pool_full st then [] else filter (\<lambda>fd. fd \<in> rfds) (live st)) (rv b < 0 \<or> FD_SETSIZE \<le> rv b))"
proof -
  have len: "length (cli_socks st) = MAX_CONNECTIONS" using inv by (simp add: pool_inv_def)
  consider "rv b < 0" | "0 \<le> rv b" "pool_full st" | "0 \<le> rv b" "\<not> pool_full st" by linarith
  then show ?thesis
  proof cases
    case 1
    then have "rv b = - 1" "- 1 \<notin> fds" using b(1) pool_inv_nonneg [OF inv, of "- 1"] by auto
    moreover have "\<not> pool_full st \<Longrightarrow> free_slot (cli_socks st) < length (cli_socks st)"
      using len free_slot_le [of "cli_socks st"] by (simp add: pool_full_def)
    ultimately show ?thesis
      using inv 1 admit_failed [of b rfds n st] by (auto simp: io_simps)
  next
    case 2
    then show ?thesis
      using inv b(2) admit_full [of st b rfds n] by (auto simp: io_simps)
  next
    case 3
    define st' where "st' = pool_put (rv b) (st\<lparr>cli_addr := peer b\<rparr>)"
    have "vld (insert (rv b) fds) (if n - 1 \<le> 0 then ret (Inl st')
            else bnd (serve rfds [0..maxi st'] st' (n - 1)) (\<lambda>st''. ret (Inl st'')))
        (admitted base master (insert (rv b) fds) (filter (\<lambda>fd. fd \<in> rfds) (live st)) False)"
      if "rv b < FD_SETSIZE"
    proof -
      have inv': "pool_inv base master (insert (rv b) fds) st'"
        unfolding st'_def using inv 3 b that by (intro pool_inv_put) auto
      have same: "filter (\<lambda>fd. fd \<in> rfds) (live st') = filter (\<lambda>fd. fd \<in> rfds) (live st)"
        unfolding st'_def using inv 3 b rfds by (subst pool_put_live(3)) auto
      have none: "n - 1 \<le> 0 \<Longrightarrow> filter (\<lambda>fd. fd \<in> rfds) (live st) = []"
        using n by (cases "filter (\<lambda>fd. fd \<in> rfds) (live st)") auto
      have "vld (insert (rv b) fds) (bnd (serve rfds [0..maxi st'] st' (n - 1)) (\<lambda>st''. ret (Inl st'')))
          (admitted base master (insert (rv b) fds) (filter (\<lambda>fd. fd \<in> rfds) (live st)) False)"
        by (rule vld_bnd_use [OF serve_all [OF inv']])
           (use n same in \<open>auto simp: io_simps serves_def\<close>)
      then show ?thesis using inv' none by (auto simp: io_simps)
    qed
    then show ?thesis
      using 3 admit_room [OF 3(2) len 3(1), of rfds n]
      by (auto simp: io_simps st'_def [symmetric] Let_def split: if_splits)
  qed
qed

text \<open>One turn: the invariant is kept, and every ready client is read once, in slot order.\<close>

lemma body_ok:
  assumes inv: "pool_inv base master fds st"
  shows "vld fds (body master st) (turn_ok base master fds st)"
proof -
  have act: "active_fds st \<subseteq> fds" "master \<in> fds" "0 \<le> master" "master < FD_SETSIZE"
    using inv by (auto simp: pool_inv_def)
  have stay: "turn_ok base master fds st (Ret (Inl st)) [Call (Select n (active_fds st) {}) a]"
    if "rv a \<le> 0" "n = max_sd st + 1" for a n
    using that inv by (simp add: turn_ok_def)
  have turn: "vld fds (fd_isset master (rset a) (\<lambda>new.
          if \<not> new then bnd (serve (rset a) [0..maxi st] st (rv a)) (\<lambda>st'. ret (Inl st'))
          else sys (Accept master) (\<lambda>b. admit (rset a) (rv a) b st)))
        (\<lambda>r t. turn_ok base master fds st r (Call (Select (max_sd st + 1) (active_fds st) {}) a # t))"
    if a: "0 < rv a" "rset a \<subseteq> active_fds st" "rv a = int (card (rset a))" for a
  proof -
    note count = ready_count [OF inv a(2,3)]
    show ?thesis
    proof (cases "master \<in> rset a")
      case False
      have "vld fds (bnd (serve (rset a) [0..maxi st] st (rv a)) (\<lambda>st'. ret (Inl st')))
          (\<lambda>r t. turn_ok base master fds st r (Call (Select (max_sd st + 1) (active_fds st) {}) a # t))"
        by (rule vld_bnd_use [OF serve_all [OF inv]])
           (use count False a in \<open>auto simp: io_simps serves_def turn_ok_def\<close>)
      with False act show ?thesis by (simp add: io_simps)
    next
      case True
      have "vld (if 0 \<le> rv b then insert (rv b) fds else fds) (admit (rset a) (rv a) b st)
          (\<lambda>r t. turn_ok base master fds st r
            (Call (Select (max_sd st + 1) (active_fds st) {}) a # Call (Accept master) b # t))"
        if "- 1 \<le> rv b" "rv b \<notin> fds" for b
        by (rule vld_mono [OF admit_ok [OF inv that(1,2), of "rset a" "rv a"]])
           (use count True a act in \<open>auto simp: turn_ok_def admitted_def split: result.splits sum.splits\<close>)
      then show ?thesis
        using True act by (auto simp: io_simps sys_ok_def)
    qed
  qed
  show ?thesis
    unfolding body_eq vld_sys vld_if vld_ret
    by (auto simp: sys_ok_def intro!: stay turn)
qed

lemma steady_serve: "steady (serve rfds is st n)"
proof (induction "is" arbitrary: st n)
  case Nil
  then show ?case by (simp add: serve_Nil steady_ret)
next
  case (Cons i "is")
  from serve_Cons [of rfds i "is" st n] Cons show ?case
    by (auto intro!: steady_intros handle_steady)
qed

end

sublocale pool_server \<subseteq> loop_contract "body master" "\<lambda>fds st h. pool_inv base master fds st" pool_post
  for base master
  by unfold_locales
    (auto intro!: vld_mono [OF body_ok] simp: turn_ok_def pool_post_def split: result.splits sum.splits)

end
