(* ===== verification/Select_Better.thy ===== *)
theory Select_Better
  imports Conn_Pool
begin

text \<open>
  \<open>C/select_srv_better.c\<close>: a server on port 5002 that prints what its clients send. One \<open>select\<close> waits
  for a new connection and for the clients; \<open>nready\<close> counts down the descriptors still to handle, so
  that the scan of the slots can stop early.
\<close>

abbreviation "show_addr sa \<equiv> inet_ntoa sa @ '':'' @ show_port sa"

subsection \<open>The program\<close>

text \<open>A ready client: its bytes are printed, or it has gone and its slot is freed.\<close>

definition better_client :: "int \<Rightarrow> int \<Rightarrow> pool \<Rightarrow> pool io" where
  "better_client i sockfd st =
     sys (Read sockfd (RECV_BUF_SIZE - 1)) (\<lambda>a.
       if rv a = 0 \<or> rv a = - 1 then
         sys (Getpeername sockfd) (\<lambda>g.
         let st1 = st\<lparr>cli_addr := (if rv g = 0 then peer g else cli_addr st)\<rparr>
         in printf (''client '' @ show_addr (cli_addr st1) @ '' disconnected'' @ [LF])
            (sys (Close sockfd) (\<lambda>_.
             fd_clr sockfd (active_fds st1) (\<lambda>act.
             arr_set (cli_socks st1) i (- 1) (\<lambda>socks.
             ret (st1\<lparr>active_fds := act, cli_socks := socks\<rparr>))))))
       else
         fits (store 0 (dat a) (zeros RECV_BUF_SIZE)) (\<lambda>recv_buf.
         with_cstr recv_buf (\<lambda>s. printf (''receive message: '' @ s @ ''.'' @ [LF]) (ret st))))"

text \<open>The scan of the slots \<open>is\<close> with \<open>nready = n\<close>.\<close>

fun better_serve :: "int set \<Rightarrow> int list \<Rightarrow> pool \<Rightarrow> int \<Rightarrow> pool io" where
  "better_serve rfds [] st n = ret st"
| "better_serve rfds (i # is) st n =
     arr_get (cli_socks st) i (\<lambda>sockfd.
     printf (''socks['' @ show_int i @ '' / '' @ show_int (maxi st) @ ''] = '' @ show_int sockfd @ [LF])
     (if sockfd < 0 then better_serve rfds is st n
      else fd_isset sockfd rfds (\<lambda>ready.
        if \<not> ready then better_serve rfds is st n
        else printf (''---- client sockfd = '' @ show_int sockfd @ [LF])
          (bnd (better_client i sockfd st) (\<lambda>st'.
           if n - 1 \<le> 0 then ret st' else better_serve rfds is st' (n - 1))))))"

text \<open>
  What follows \<open>accept\<close>, whose reply is \<open>b\<close>. When it failed, -1 is closed and the code goes on with
  -1 as if it were a connection.
\<close>

definition better_admit :: "int set \<Rightarrow> int \<Rightarrow> reply \<Rightarrow> pool \<Rightarrow> (pool + unit) io" where
  "better_admit rfds n b st =
     (let new_sock = rv b;
          st1 = (if new_sock < 0 then st else st\<lparr>cli_addr := peer b\<rparr>);
          place =
            printf (''new connection, sockfd = '' @ show_int new_sock @ '', ip = '' @ inet_ntoa (cli_addr st1) @
              '', port = '' @ show_port (cli_addr st1) @ ''.'' @ [LF])
            (let i = free_slot (cli_socks st1)
             in if i = MAX_CONNECTIONS
                then printf (''reach the max connections limit'' @ [LF])
                  (sys (Close new_sock) (\<lambda>_. ret (Inl st1)))
                else arr_set (cli_socks st1) (int i) new_sock (\<lambda>socks.
                  fd_set new_sock (active_fds st1) (\<lambda>act.
                  let st2 = st1\<lparr>cli_socks := socks, active_fds := act\<rparr>;
                      st3 = st2\<lparr>maxi := (if int i > maxi st2 then int i else maxi st2)\<rparr>;
                      st4 = st3\<lparr>max_sd := (if new_sock > max_sd st3 then new_sock else max_sd st3)\<rparr>
                  in says (if int i > maxi st2 then [''>>>> maxi = '' @ show_int (int i) @ [LF]] else [])
                     (if n - 1 \<le> 0 then ret (Inl st4)
                      else bnd (better_serve rfds [0..maxi st4] st4 (n - 1)) (\<lambda>st5. ret (Inl st5))))))
      in if new_sock < 0
         then printf (''main : error accept.'' @ [LF]) (sys (Close new_sock) (\<lambda>_. place))
         else place)"

definition better_body :: "int \<Rightarrow> pool \<Rightarrow> (pool + unit) io" where
  "better_body master st =
     sys (Select (max_sd st + 1) (active_fds st) {}) (\<lambda>a.
       if rv a = - 1 \<or> rv a = 0 then ret (Inl st)
       else fd_isset master (rset a) (\<lambda>new.
         if \<not> new then bnd (better_serve (rset a) [0..maxi st] st (rv a)) (\<lambda>st'. ret (Inl st'))
         else sys (Accept master) (\<lambda>b. better_admit (rset a) (rv a) b st)))"

text \<open>\<open>junk\<close> is what \<open>cli_addr\<close> holds at the start. Every way out of \<open>main\<close> returns 0.\<close>

definition better_main :: "sockaddr \<Rightarrow> unit io" where
  "better_main junk =
     sys (Socket AF_INET SOCK_STREAM 0) (\<lambda>s.
       if rv s < 0 then printf (''main : error socket.'' @ [LF]) (exit 0)
       else sys (Setsockopt_reuse (rv s) 1) (\<lambda>opt.
         if rv opt < 0 then printf (''main : error setsockopt.'' @ [LF]) (exit 0)
         else sys (Bind (rv s) (Sin (htons EXCHANGE_SERVER_PORT) (htonl INADDR_ANY))) (\<lambda>b.
           if rv b \<noteq> 0 then printf (''main : error bind.'' @ [LF]) (exit 0)
           else sys (Listen (rv s) LISTEN_BACKLOG) (\<lambda>l.
             if rv l \<noteq> 0 then printf (''main : error listen.'' @ [LF]) (exit 0)
             else fd_set (rv s) {} (\<lambda>_.
               printf (''>>>> recv server start'' @ [LF])
               (loop (better_body (rv s)) (start_pool (rv s) junk)))))))"

subsection \<open>The contract\<close>

lemma better_client_ok:
  assumes inv: "pool_inv base master fds st" and i: "0 \<le> i" "i < int MAX_CONNECTIONS"
    and fd: "cli_socks st ! nat i = fd" "0 \<le> fd"
  shows "vld fds (better_client i fd st) (\<lambda>r t. new_fds t = [] \<and> (\<forall>z. r = Stop z \<longrightarrow> z = Blocked) \<and>
      (\<forall>st'. r = Ret st' \<longrightarrow> reads_of t = [fd] \<and> pool_inv base master (fds_run fds t) st' \<and>
        (cli_socks st' = cli_socks st \<or> cli_socks st' = (cli_socks st)[nat i := - 1])))"
proof -
  have len: "length (cli_socks st) = MAX_CONNECTIONS" using inv by (simp add: pool_inv_def)
  have open_fd: "fd \<in> fds" "fd < FD_SETSIZE"
    using slot_open [OF inv i] fd by auto
  have "pool_inv base master (fds - {fd})
      (st\<lparr>cli_addr := x, active_fds := active_fds st - {fd}, cli_socks := (cli_socks st)[nat i := - 1]\<rparr>)" for x
    using pool_inv_drop [of base master fds "st\<lparr>cli_addr := x\<rparr>" i fd] inv i fd len
    by (simp add: pool_drop_def)
  then show ?thesis
    using inv i fd open_fd len
    by (auto simp: better_client_def io_simps Let_def sys_ok_def store_zeros RECV_BUF_SIZE_def
        nat_less_iff)
qed

lemma better_client_steady [steady_intros]: "steady (better_client i fd st)"
  unfolding better_client_def Let_def by (intro steady_intros)

lemma better_serve_Cons: "\<exists>ms ms'. better_serve rfds (i # is) st n =
    arr_get (cli_socks st) i (\<lambda>fd. says (ms fd)
      (if fd < 0 then better_serve rfds is st n
       else fd_isset fd rfds (\<lambda>r.
         if \<not> r then better_serve rfds is st n
         else says (ms' fd) (bnd (better_client i fd st)
           (\<lambda>st'. if n - 1 \<le> 0 then ret st' else better_serve rfds is st' (n - 1))))))"
  by (rule exI [of _ "\<lambda>fd. [''socks['' @ show_int i @ '' / '' @ show_int (maxi st) @ ''] = '' @ show_int fd @ [LF]]"],
      rule exI [of _ "\<lambda>fd. [''---- client sockfd = '' @ show_int fd @ [LF]]"])
     (simp cong: if_cong)

interpretation better: pool_server better_client better_serve better_admit better_body
proof
  fix st :: pool and b :: reply and rfds :: "int set" and n :: int
  assume room: "\<not> pool_full st" "length (cli_socks st) = MAX_CONNECTIONS" and b: "0 \<le> rv b"
  have i: "free_slot (cli_socks st) < MAX_CONNECTIONS"
    using room free_slot_le [of "cli_socks st"] by (simp add: pool_full_def)
  show "\<exists>ms ms'. better_admit rfds n b st = says ms (fd_set (rv b) (active_fds st) (\<lambda>_. says ms'
        (let st' = pool_put (rv b) (st\<lparr>cli_addr := peer b\<rparr>)
         in if n - 1 \<le> 0 then ret (Inl st')
            else bnd (better_serve rfds [0..maxi st'] st' (n - 1)) (\<lambda>st''. ret (Inl st'')))))"
    apply (rule exI [of _ "[''new connection, sockfd = '' @ show_int (rv b) @ '', ip = '' @ inet_ntoa (peer b) @
              '', port = '' @ show_port (peer b) @ ''.'' @ [LF]]"])
    apply (rule exI [of _ "if int (free_slot (cli_socks st)) > maxi st then [''>>>> maxi = '' @ show_int (int (free_slot (cli_socks st))) @ [LF]] else []"])
    using i b room by (simp add: better_admit_def Let_def pool_put_def arr_set_def fd_set_def max_def)
next
  fix st :: pool and b :: reply and rfds :: "int set" and n :: int
  assume full: "pool_full st" and b: "0 \<le> rv b"
  show "\<exists>ms ms'. better_admit rfds n b st =
        says ms (says ms' (sys (Close (rv b)) (\<lambda>_. ret (Inl (st\<lparr>cli_addr := peer b\<rparr>)))))"
    by (rule exI [of _ "[''new connection, sockfd = '' @ show_int (rv b) @ '', ip = '' @ inet_ntoa (peer b) @
              '', port = '' @ show_port (peer b) @ ''.'' @ [LF]]"],
        rule exI [of _ "[''reach the max connections limit'' @ [LF]]"])
       (use full b in \<open>simp add: better_admit_def Let_def pool_full_def\<close>)
next
  fix st :: pool and b :: reply and rfds :: "int set" and n :: int
  assume b: "rv b < 0"
  show "\<exists>ms ms' ms''. better_admit rfds n b st = says ms (sys (Close (rv b)) (\<lambda>_. says ms'
        (if pool_full st then says ms'' (sys (Close (rv b)) (\<lambda>_. ret (Inl st)))
         else arr_set (cli_socks st) (int (free_slot (cli_socks st))) (rv b) (\<lambda>_. fault Fd_range))))"
    by (rule exI [of _ "[''main : error accept.'' @ [LF]]"],
        rule exI [of _ "[''new connection, sockfd = '' @ show_int (rv b) @ '', ip = '' @ inet_ntoa (cli_addr st) @
              '', port = '' @ show_port (cli_addr st) @ ''.'' @ [LF]]"],
        rule exI [of _ "[''reach the max connections limit'' @ [LF]]"])
       (use b in \<open>simp add: better_admit_def Let_def pool_full_def fd_set_def\<close>)
qed (use better_client_ok better_serve_Cons in \<open>simp_all add: better_client_steady better_body_def\<close>)

lemma better_admit_steady [steady_intros]: "steady (better_admit R n b st)"
  unfolding better_admit_def Let_def by (auto intro!: steady_intros better.steady_serve)

interpretation better_busy: busy_loop "better_body master" for master
  by unfold_locales (auto simp: better_body_def intro!: busy_sys steady_intros better.steady_serve)

lemma better_main_ok:
  assumes "\<forall>fd \<in> base. 0 \<le> fd"
  shows "vld base (better_main junk) (\<lambda>r t. \<forall>f. r = Stop (Fault f) \<longrightarrow> f = Fd_range \<and> bad_new_fd t)"
proof -
  have run: "vld (insert m base) (loop (better_body m) (start_pool m junk)) (\<lambda>r t. \<forall>f. r = Stop (Fault f) \<longrightarrow>
      f = Fd_range \<and> bad_new_fd t)" if "0 \<le> m" "m < FD_SETSIZE" "m \<notin> base" for m
    by (rule vld_mono [OF better.loop_post])
       (use assms that in \<open>auto simp: pool_post_def intro: pool_inv_start\<close>)
  show ?thesis
    unfolding better_main_def
    by (auto simp: io_simps sys_ok_def intro!: vld_mono [OF run])
qed

subsection \<open>Properties\<close>

text \<open>The states the server can be in at the head of its loop.\<close>

definition better_reach :: "int set \<Rightarrow> int \<Rightarrow> sockaddr \<Rightarrow> int set \<Rightarrow> pool \<Rightarrow> event list \<Rightarrow> bool" where
  "better_reach base master junk fds st h \<longleftrightarrow>
     0 \<le> master \<and> master < FD_SETSIZE \<and> master \<notin> base \<and> (\<forall>fd \<in> base. 0 \<le> fd) \<and>
     reach (better_body master) (insert master base) (start_pool master junk) fds st h"

lemma better_reach_inv: "better_reach base master junk fds st h \<Longrightarrow> pool_inv base master fds st"
  using better.reach_inv [of master "insert master base" "start_pool master junk" fds st h base]
  by (auto simp: better_reach_def pool_inv_start)

text \<open>
  C4: No ready client is left out by the early exit of the scan. From every reachable state, in a
  turn in which \<open>select\<close> reports some descriptors, the clients among them are read once each, in the
  order of their slots, and no other descriptor is read, unless the turn has to refuse a connection.
\<close>

theorem better_serves_ready:
  assumes "better_reach base master junk fds st h"
    and "better_body master st (a # rs) = (Ret (Inl st'), t, rs')" and "conforms fds t"
    and "0 < rv a" and "master \<notin> rset a \<or> \<not> pool_full st"
  shows "reads_of t = filter (\<lambda>fd. fd \<in> rset a) (live st)"
proof -
  have "turn_ok base master fds st (Ret (Inl st')) t"
    using vldD [OF better.body_ok [OF better_reach_inv [OF assms(1)]] assms(2,3)] .
  moreover obtain t2 where "t = Call (Select (max_sd st + 1) (active_fds st) {}) a # t2"
    using assms(2) by (auto simp: better_body_def sys_def split: prod.splits)
  ultimately show ?thesis using assms(4,5) by (auto simp: turn_ok_def)
qed

text \<open>
  C8: The server neither leaks nor loses a descriptor. In every state it can reach, whatever accepts
  and reads have failed, the process has open exactly what it had before, the listening socket and
  the clients in the slots; these are distinct, at most ten, and are exactly what \<open>select\<close> waits for,
  below \<open>max_sd + 1\<close>.
\<close>

theorem better_no_leak:
  assumes "better_reach base master junk fds st h"
  shows "fds = base \<union> insert master (set (live st)) \<and> distinct (live st) \<and>
    length (live st) \<le> MAX_CONNECTIONS \<and> active_fds st = insert master (set (live st)) \<and>
    (\<forall>fd \<in> set (live st). fd \<notin> base \<and> fd \<noteq> master \<and> fd < max_sd st + 1)"
  using better_reach_inv [OF assms] length_filter_le [of "\<lambda>s. 0 \<le> s" "cli_socks st"]
  by (auto simp: pool_inv_def live_def)

text \<open>
  C31: The only undefined behaviour of the server is the one an unchecked descriptor leads to: a run
  that faults has met a call for a descriptor that failed or brought one beyond an \<open>fd_set\<close>, and what
  it does wrong is to put it into the set. No run overruns a buffer or the array of clients.
\<close>

theorem better_safe:
  assumes "better_main junk rs = (Stop (Fault f), t, rs')" and "conforms base t"
    and "\<forall>fd \<in> base. 0 \<le> fd"
  shows "f = Fd_range \<and> bad_new_fd t"
  using vldD [OF better_main_ok assms(1,2)] assms(3) by simp

lemma ten_slots: "replicate 10 x = [x, x, x, x, x, x, x, x, x, x]"
  by (simp add: numeral_eq_Suc)

lemmas better_defs = ten_slots better_main_def better_body_def better_admit_def better_client_def
  start_pool_def pool_full_def free_slot_def live_def MAX_CONNECTIONS_def RECV_BUF_SIZE_def

text \<open>An \<open>accept\<close> that fails.\<close>

definition accept_fails :: "reply list" where
  "accept_fails = [ok 3, ok 0, ok 0, ok 0, ready {3} {}, fail EINTR, fail EBADF]"

theorem better_safe_witness:
  "case better_main (Sa_other 0) accept_fails of (r, t, rs) \<Rightarrow>
     r = Stop (Fault Fd_range) \<and> conforms {0, 1, 2} t \<and> bad_new_fd t"
proof -
  have "case better_main (Sa_other 0) accept_fails of (r, t, rs) \<Rightarrow>
      r = Stop (Fault Fd_range) \<and> conforms {0, 1, 2} t"
    by (simp add: run_simps better_defs accept_fails_def reply_simps cong: lazy)
  then show ?thesis
    using better_safe [of "Sa_other 0" accept_fails Fd_range _ _ "{0, 1, 2}"]
    by (auto split: prod.splits)
qed

text \<open>Two turns from the start: a connection, then another together with bytes from the first.\<close>

definition client_5 :: reply where
  "client_5 = (ok 5)\<lparr>peer := Sin [4, 210] [127, 0, 0, 1]\<rparr>"

definition two_clients :: "reply list" where
  "two_clients = [ready {3, 5} {}, ok 6, got ''hi'']"

lemma better_first_turn:
  "\<exists>st t. better_body 3 (start_pool 3 (Sa_other 0)) [ready {3} {}, client_5] = (Ret (Inl st), t, []) \<and>
     conforms {0, 1, 2, 3} t \<and> fds_run {0, 1, 2, 3} t = {0, 1, 2, 3, 5} \<and>
     \<not> pool_full st \<and> live st = [5] \<and>
     (case better_body 3 st two_clients of (r, t', rs) \<Rightarrow>
        (\<exists>st'. r = Ret (Inl st')) \<and> conforms {0, 1, 2, 3, 5} t')"
  by (simp add: run_simps better_defs client_5_def two_clients_def upto.simps reply_simps insert_commute cong: lazy)

lemma better_example:
  obtains st h st' t rs' where "better_reach {0, 1, 2} 3 (Sa_other 0) {0, 1, 2, 3, 5} st h"
    "better_body 3 st two_clients = (Ret (Inl st'), t, rs')" "conforms {0, 1, 2, 3, 5} t"
    "\<not> pool_full st" "live st = [5]"
proof -
  from better_first_turn obtain st h where
    run: "better_body 3 (start_pool 3 (Sa_other 0)) [ready {3} {}, client_5] = (Ret (Inl st), h, [])"
    and h: "conforms {0, 1, 2, 3} h" "fds_run {0, 1, 2, 3} h = {0, 1, 2, 3, 5}"
    and st: "\<not> pool_full st" "live st = [5]"
    and turn2: "case better_body 3 st two_clients of (r, t', rs) \<Rightarrow>
        (\<exists>st'. r = Ret (Inl st')) \<and> conforms {0, 1, 2, 3, 5} t'"
    by (elim exE conjE) rule
  have fds: "insert 3 {0, 1, 2} = {0, 1, 2, 3 :: int}" by auto
  have "better_reach {0, 1, 2} 3 (Sa_other 0) {0, 1, 2, 3, 5} st h"
    using reach_first [of "better_body 3", OF run h(1)] h(2) by (simp add: better_reach_def FD_SETSIZE_def fds)
  with turn2 st that show thesis by (auto split: prod.splits)
qed

theorem better_serves_ready_witness:
  "\<exists>st h st' t rs'. better_reach {0, 1, 2} 3 (Sa_other 0) {0, 1, 2, 3, 5} st h \<and>
     better_body 3 st two_clients = (Ret (Inl st'), t, rs') \<and> reads_of t = [5]"
proof -
  obtain st h st' t rs' where
    1: "better_reach {0, 1, 2} 3 (Sa_other 0) {0, 1, 2, 3, 5} st h" and
    2: "better_body 3 st two_clients = (Ret (Inl st'), t, rs')" "conforms {0, 1, 2, 3, 5} t"
    and 3: "\<not> pool_full st" "live st = [5]" by (rule better_example)
  have "reads_of t = filter (\<lambda>fd. fd \<in> rset (ready {3, 5} {})) (live st)"
    by (rule better_serves_ready [OF 1, of _ "[ok 6, got ''hi'']" st' t rs'])
       (use 2 3 in \<open>simp_all add: two_clients_def reply_simps ok_def\<close>)
  then show ?thesis using 1 2 3 by (auto simp: reply_simps)
qed

theorem better_no_leak_witness:
  "\<exists>st h. better_reach {0, 1, 2} 3 (Sa_other 0) {0, 1, 2, 3, 5} st h \<and> live st = [5] \<and>
     {0, 1, 2, 3, 5} = {0, 1, 2} \<union> insert 3 (set (live st))"
proof -
  obtain st h where 1: "better_reach {0, 1, 2} 3 (Sa_other 0) {0, 1, 2, 3, 5} st h" and "live st = [5]"
    using better_example by metis
  then show ?thesis using better_no_leak [OF 1] by blast
qed

end
