(* ===== verification/Ameba_Select.thy ===== *)
theory Ameba_Select
  imports Conn_Pool
begin

text \<open>
  \<open>ameba/tcp_select_server.c\<close>: the server of \<open>Select_Better\<close> for a board, with most of its messages and
  the call of \<open>getpeername\<close> commented out and an unused return value. It satisfies the same contract.
\<close>

subsection \<open>The program\<close>

definition ameba_client :: "int \<Rightarrow> int \<Rightarrow> pool \<Rightarrow> pool io" where
  "ameba_client i sockfd st =
     sys (Read sockfd (RECV_BUF_SIZE - 1)) (\<lambda>a.
       if rv a = 0 \<or> rv a = - 1 then
         sys (Close sockfd) (\<lambda>_.
         fd_clr sockfd (active_fds st) (\<lambda>act.
         arr_set (cli_socks st) i (- 1) (\<lambda>socks.
         ret (st\<lparr>active_fds := act, cli_socks := socks\<rparr>))))
       else
         fits (store 0 (dat a) (zeros RECV_BUF_SIZE)) (\<lambda>recv_buf.
         printf (''===>>> RECV ============================================'' @ [LF])
         (with_cstr recv_buf (\<lambda>s. printf (''recv msg : '' @ s @ [LF]) (ret st)))))"

fun ameba_serve :: "int set \<Rightarrow> int list \<Rightarrow> pool \<Rightarrow> int \<Rightarrow> pool io" where
  "ameba_serve rfds [] st n = ret st"
| "ameba_serve rfds (i # is) st n =
     arr_get (cli_socks st) i (\<lambda>sockfd.
     if sockfd < 0 then ameba_serve rfds is st n
     else fd_isset sockfd rfds (\<lambda>ready.
       if \<not> ready then ameba_serve rfds is st n
       else bnd (ameba_client i sockfd st) (\<lambda>st'.
         if n - 1 \<le> 0 then ret st' else ameba_serve rfds is st' (n - 1))))"

definition ameba_admit :: "int set \<Rightarrow> int \<Rightarrow> reply \<Rightarrow> pool \<Rightarrow> (pool + unit) io" where
  "ameba_admit rfds n b st =
     (let new_sock = rv b;
          st1 = (if new_sock < 0 then st else st\<lparr>cli_addr := peer b\<rparr>);
          i = free_slot (cli_socks st1);
          place =
            (if i = MAX_CONNECTIONS
             then printf (''reach the max connections limit'' @ [LF])
               (sys (Close new_sock) (\<lambda>_. ret (Inl st1)))
             else arr_set (cli_socks st1) (int i) new_sock (\<lambda>socks.
               fd_set new_sock (active_fds st1) (\<lambda>act.
               let st2 = st1\<lparr>cli_socks := socks, active_fds := act\<rparr>;
                   st3 = st2\<lparr>maxi := (if int i > maxi st2 then int i else maxi st2)\<rparr>;
                   st4 = st3\<lparr>max_sd := (if new_sock > max_sd st3 then new_sock else max_sd st3)\<rparr>
               in if n - 1 \<le> 0 then ret (Inl st4)
                  else bnd (ameba_serve rfds [0..maxi st4] st4 (n - 1)) (\<lambda>st5. ret (Inl st5)))))
      in if new_sock < 0
         then printf (''main : error accept.'' @ [LF]) (sys (Close new_sock) (\<lambda>_. place))
         else place)"

definition ameba_body :: "int \<Rightarrow> pool \<Rightarrow> (pool + unit) io" where
  "ameba_body master st =
     sys (Select (max_sd st + 1) (active_fds st) {}) (\<lambda>a.
       if rv a = - 1 \<or> rv a = 0 then ret (Inl st)
       else fd_isset master (rset a) (\<lambda>new.
         if \<not> new then bnd (ameba_serve (rset a) [0..maxi st] st (rv a)) (\<lambda>st'. ret (Inl st'))
         else sys (Accept master) (\<lambda>b. ameba_admit (rset a) (rv a) b st)))"

text \<open>\<open>main\<close> is \<open>void\<close>: \<open>junk_status\<close> is what the caller of \<open>main\<close> takes for the exit status.\<close>

definition ameba_main :: "int \<Rightarrow> sockaddr \<Rightarrow> unit io" where
  "ameba_main junk_status junk =
     sys (Socket AF_INET SOCK_STREAM 0) (\<lambda>s.
       if rv s < 0 then printf (''main : error socket.'' @ [LF]) (exit junk_status)
       else sys (Setsockopt_reuse (rv s) 1) (\<lambda>opt.
         if rv opt < 0 then printf (''main : error setsockopt.'' @ [LF]) (exit junk_status)
         else sys (Bind (rv s) (Sin (htons EXCHANGE_SERVER_PORT) (htonl INADDR_ANY))) (\<lambda>b.
           if rv b \<noteq> 0 then printf (''main : error bind.'' @ [LF]) (exit junk_status)
           else sys (Listen (rv s) LISTEN_BACKLOG) (\<lambda>l.
             if rv l \<noteq> 0 then printf (''main : error listen.'' @ [LF]) (exit junk_status)
             else fd_set (rv s) {} (\<lambda>_.
               printf (''>>>> recv server start'' @ [LF])
               (loop (ameba_body (rv s)) (start_pool (rv s) junk)))))))"

subsection \<open>The contract\<close>

lemma ameba_client_ok:
  assumes inv: "pool_inv base master fds st" and i: "0 \<le> i" "i < int MAX_CONNECTIONS"
    and fd: "cli_socks st ! nat i = fd" "0 \<le> fd"
  shows "vld fds (ameba_client i fd st) (\<lambda>r t. new_fds t = [] \<and> (\<forall>z. r = Stop z \<longrightarrow> z = Blocked) \<and>
      (\<forall>st'. r = Ret st' \<longrightarrow> reads_of t = [fd] \<and> pool_inv base master (fds_run fds t) st' \<and>
        (cli_socks st' = cli_socks st \<or> cli_socks st' = (cli_socks st)[nat i := - 1])))"
proof -
  have len: "length (cli_socks st) = MAX_CONNECTIONS" using inv by (simp add: pool_inv_def)
  have "fd \<in> fds" "fd < FD_SETSIZE" using slot_open [OF inv i] fd by auto
  moreover have "pool_inv base master (fds - {fd})
      (st\<lparr>active_fds := active_fds st - {fd}, cli_socks := (cli_socks st)[nat i := - 1]\<rparr>)"
    using pool_inv_drop [of base master fds st i fd] inv i fd len by (simp add: pool_drop_def)
  ultimately show ?thesis
    using inv i fd len
    by (auto simp: ameba_client_def io_simps Let_def sys_ok_def store_zeros RECV_BUF_SIZE_def
        nat_less_iff)
qed

lemma ameba_client_steady [steady_intros]: "steady (ameba_client i fd st)"
  unfolding ameba_client_def Let_def by (intro steady_intros)

lemma ameba_serve_Cons: "\<exists>ms ms'. ameba_serve rfds (i # is) st n =
    arr_get (cli_socks st) i (\<lambda>fd. says (ms fd)
      (if fd < 0 then ameba_serve rfds is st n
       else fd_isset fd rfds (\<lambda>r.
         if \<not> r then ameba_serve rfds is st n
         else says (ms' fd) (bnd (ameba_client i fd st)
           (\<lambda>st'. if n - 1 \<le> 0 then ret st' else ameba_serve rfds is st' (n - 1))))))"
  by (rule exI [of _ "\<lambda>_. []"], rule exI [of _ "\<lambda>_. []"]) (simp cong: if_cong)

interpretation ameba: pool_server ameba_client ameba_serve ameba_admit ameba_body
proof
  fix st :: pool and b :: reply and rfds :: "int set" and n :: int
  assume room: "\<not> pool_full st" "length (cli_socks st) = MAX_CONNECTIONS" and b: "0 \<le> rv b"
  have i: "free_slot (cli_socks st) < MAX_CONNECTIONS"
    using room free_slot_le [of "cli_socks st"] by (simp add: pool_full_def)
  show "\<exists>ms ms'. ameba_admit rfds n b st = says ms (fd_set (rv b) (active_fds st) (\<lambda>_. says ms'
        (let st' = pool_put (rv b) (st\<lparr>cli_addr := peer b\<rparr>)
         in if n - 1 \<le> 0 then ret (Inl st')
            else bnd (ameba_serve rfds [0..maxi st'] st' (n - 1)) (\<lambda>st''. ret (Inl st'')))))"
    by (rule exI [of _ "[]"], rule exI [of _ "[]"])
       (use i b room in \<open>simp add: ameba_admit_def Let_def pool_put_def arr_set_def fd_set_def max_def\<close>)
next
  fix st :: pool and b :: reply and rfds :: "int set" and n :: int
  assume full: "pool_full st" and b: "0 \<le> rv b"
  show "\<exists>ms ms'. ameba_admit rfds n b st =
        says ms (says ms' (sys (Close (rv b)) (\<lambda>_. ret (Inl (st\<lparr>cli_addr := peer b\<rparr>)))))"
    by (rule exI [of _ "[]"], rule exI [of _ "[''reach the max connections limit'' @ [LF]]"])
       (use full b in \<open>simp add: ameba_admit_def Let_def pool_full_def\<close>)
next
  fix st :: pool and b :: reply and rfds :: "int set" and n :: int
  assume b: "rv b < 0"
  show "\<exists>ms ms' ms''. ameba_admit rfds n b st = says ms (sys (Close (rv b)) (\<lambda>_. says ms'
        (if pool_full st then says ms'' (sys (Close (rv b)) (\<lambda>_. ret (Inl st)))
         else arr_set (cli_socks st) (int (free_slot (cli_socks st))) (rv b) (\<lambda>_. fault Fd_range))))"
    by (rule exI [of _ "[''main : error accept.'' @ [LF]]"], rule exI [of _ "[]"],
        rule exI [of _ "[''reach the max connections limit'' @ [LF]]"])
       (use b in \<open>simp add: ameba_admit_def Let_def pool_full_def fd_set_def\<close>)
qed (use ameba_client_ok ameba_serve_Cons in \<open>simp_all add: ameba_client_steady ameba_body_def\<close>)

text \<open>Every turn waits in \<open>select\<close>.\<close>

lemma ameba_admit_steady [steady_intros]: "steady (ameba_admit rfds n b st)"
  unfolding ameba_admit_def Let_def
  by (auto intro!: steady_intros ameba.steady_serve)

interpretation ameba_busy: busy_loop "ameba_body master" for master
  by unfold_locales (auto simp: ameba_body_def intro!: busy_sys steady_intros ameba.steady_serve)

subsection \<open>Properties\<close>

definition ameba_reach :: "int set \<Rightarrow> int \<Rightarrow> sockaddr \<Rightarrow> int set \<Rightarrow> pool \<Rightarrow> event list \<Rightarrow> bool" where
  "ameba_reach base master junk fds st h \<longleftrightarrow>
     0 \<le> master \<and> master < FD_SETSIZE \<and> master \<notin> base \<and> (\<forall>fd \<in> base. 0 \<le> fd) \<and>
     reach (ameba_body master) (insert master base) (start_pool master junk) fds st h"

lemma ameba_reach_inv: "ameba_reach base master junk fds st h \<Longrightarrow> pool_inv base master fds st"
  using ameba.reach_inv [of master "insert master base" "start_pool master junk" fds st h base]
  by (auto simp: ameba_reach_def pool_inv_start)

text \<open>
  The server on the board serves its clients as the other does: in every turn from a reachable
  state in which \<open>select\<close> reports some descriptors and no connection is refused, it reads each ready
  client exactly once, in slot order, and after the turn it has no descriptor open beyond those it
  started with, the listening socket and the clients in its slots.
\<close>

theorem ameba_serves_ready:
  assumes "ameba_reach base master junk fds st h"
    and "ameba_body master st (a # rs) = (Ret (Inl st'), t, rs')" and "conforms fds t"
    and "0 < rv a" and "master \<notin> rset a \<or> \<not> pool_full st"
  shows "reads_of t = filter (\<lambda>fd. fd \<in> rset a) (live st) \<and>
    fds_run fds t = base \<union> insert master (set (live st'))"
proof -
  have "turn_ok base master fds st (Ret (Inl st')) t"
    using vldD [OF ameba.body_ok [OF ameba_reach_inv [OF assms(1)]] assms(2,3)] .
  moreover obtain t2 where "t = Call (Select (max_sd st + 1) (active_fds st) {}) a # t2"
    using assms(2) by (auto simp: ameba_body_def sys_def split: prod.splits)
  ultimately show ?thesis using assms(4,5) by (auto simp: turn_ok_def pool_inv_def)
qed

text \<open>
  The loop of the board is adequate: no turn goes round without a call of the system.
\<close>

theorem ameba_never_diverges: "fst (ameba_main junk_status junk rs) \<noteq> Stop Diverge"
proof (rule steady_fst)
  show "steady (ameba_main junk_status junk)"
    unfolding ameba_main_def by (intro steady_intros ameba_busy.loop_steady; simp)
qed

lemma ameba_ten_slots: "replicate 10 x = [x, x, x, x, x, x, x, x, x, x]"
  by (simp add: numeral_eq_Suc)

lemmas ameba_defs = ameba_ten_slots ameba_body_def ameba_admit_def ameba_client_def
  start_pool_def pool_full_def free_slot_def live_def MAX_CONNECTIONS_def RECV_BUF_SIZE_def

lemma ameba_first_turn:
  "\<exists>st t. ameba_body 3 (start_pool 3 (Sa_other 0)) [ready {3} {}, ok 5] = (Ret (Inl st), t, []) \<and>
     conforms {0, 1, 2, 3} t \<and> fds_run {0, 1, 2, 3} t = {0, 1, 2, 3, 5} \<and> live st = [5] \<and>
     (case ameba_body 3 st [ready {5} {}, ok 0, ok 0] of (r, t', rs) \<Rightarrow>
        conforms {0, 1, 2, 3, 5} t' \<and> (case r of Ret (Inl st') \<Rightarrow> live st' = [] | _ \<Rightarrow> False))"
  by (simp add: run_simps ameba_defs upto.simps reply_simps insert_commute cong: lazy)

theorem ameba_serves_ready_witness:
  "\<exists>st h st' t rs'. ameba_reach {0, 1, 2} 3 (Sa_other 0) {0, 1, 2, 3, 5} st h \<and>
     ameba_body 3 st [ready {5} {}, ok 0, ok 0] = (Ret (Inl st'), t, rs') \<and> reads_of t = [5] \<and>
     fds_run {0, 1, 2, 3, 5} t = {0, 1, 2, 3}"
proof -
  from ameba_first_turn obtain st h where
    run: "ameba_body 3 (start_pool 3 (Sa_other 0)) [ready {3} {}, ok 5] = (Ret (Inl st), h, [])"
    and h: "conforms {0, 1, 2, 3} h" "fds_run {0, 1, 2, 3} h = {0, 1, 2, 3, 5}" and st: "live st = [5]"
    and turn2: "case ameba_body 3 st [ready {5} {}, ok 0, ok 0] of (r, t', rs) \<Rightarrow>
        conforms {0, 1, 2, 3, 5} t' \<and> (case r of Ret (Inl st') \<Rightarrow> live st' = [] | _ \<Rightarrow> False)"
    by (elim exE conjE) rule
  have fds: "insert 3 {0, 1, 2} = {0, 1, 2, 3 :: int}" by auto
  have 1: "ameba_reach {0, 1, 2} 3 (Sa_other 0) {0, 1, 2, 3, 5} st h"
    using reach_first [of "ameba_body 3", OF run h(1)] h(2) by (simp add: ameba_reach_def FD_SETSIZE_def fds)
  obtain st' t rs' where 2: "ameba_body 3 st [ready {5} {}, ok 0, ok 0] = (Ret (Inl st'), t, rs')"
    "conforms {0, 1, 2, 3, 5} t" "live st' = []"
    using turn2 by (auto split: prod.splits result.splits sum.splits)
  have "reads_of t = filter (\<lambda>fd. fd \<in> rset (ready {5} {})) (live st) \<and>
      fds_run {0, 1, 2, 3, 5} t = {0, 1, 2} \<union> insert 3 (set (live st'))"
    by (rule ameba_serves_ready [OF 1 2(1,2)]) (simp_all add: reply_simps ok_def)
  then show ?thesis using 1 2 st by (auto simp: reply_simps insert_commute)
qed

end
