(* ===== verification/Select_Server.thy ===== *)
theory Select_Server
  imports Conn_Pool
begin

text \<open>
  \<open>C/select_server.c\<close>: an echo server on port 10001 for at most three clients, which counts them in
  \<open>cur_conn_cnt\<close> and scans only the slots below the count.
\<close>

definition BUF_SIZE :: nat where "BUF_SIZE = 256"
definition PORT :: "16 word" where "PORT = 10001"
definition BACKLOG :: int where "BACKLOG = 5"
definition MAX_CLIENTS_NUM :: nat where "MAX_CLIENTS_NUM = 3"
definition ACCEPT_MSG :: string where "ACCEPT_MSG = ''Accept, connection established!''"
definition REFUSE_MSG :: string where
  "REFUSE_MSG = ''Refuse, connection numbers reach the upper limit!''"

record counted = conns +
  cur_conn_cnt :: int

subsection \<open>The program\<close>

definition sel_drop :: "int \<Rightarrow> int \<Rightarrow> counted \<Rightarrow> counted io" where
  "sel_drop i sd st =
     sys (Close sd) (\<lambda>_.
     fd_clr sd (active_fds st) (\<lambda>act.
     arr_set (cli_socks st) i (- 1) (\<lambda>socks.
     ret (st\<lparr>active_fds := act, cli_socks := socks, cur_conn_cnt := cur_conn_cnt st - 1\<rparr>))))"

definition sel_echo :: "int \<Rightarrow> buf \<Rightarrow> counted \<Rightarrow> counted io" where
  "sel_echo sd recv_buf st =
     with_cstr recv_buf (\<lambda>s.
     fits (put_cstr 0 (''ECHO BACK : '' @ s) (zeros BUF_SIZE)) (\<lambda>send_buf.
     sys (Send sd (cstr send_buf)) (\<lambda>w.
       if rv w < 0 then perror ''ERROR echo back'' (ret st) else ret st)))"

text \<open>A ready client. The echo is sent whatever \<open>recv\<close> returned.\<close>

definition sel_client :: "int \<Rightarrow> int \<Rightarrow> counted \<Rightarrow> counted io" where
  "sel_client i sd st =
     sys (Recv sd (BUF_SIZE - 1)) (\<lambda>a.
     fits (store 0 (dat a) (zeros BUF_SIZE)) (\<lambda>recv_buf.
     bnd (if rv a = - 1 then perror ''ERROR recv message'' (sel_drop i sd st)
          else if rv a = 0 then
            printf (''sock '' @ show_int sd @ '' close the connection.'') (sel_drop i sd st)
          else with_cstr recv_buf (\<lambda>s.
            printf (''recv ('' @ show_int (rv a) @ '') message: '' @ s @ ''.'' @ [LF]) (ret st))) (\<lambda>st'.
     sel_echo sd recv_buf st')))"

text \<open>
  The scan: \<open>is\<close> are the slots still to come, up to the count at the start of the scan. The test
  \<open>i < cur_conn_cnt\<close> reads the count anew each time; it can only have become smaller.
\<close>

fun sel_serve :: "int set \<Rightarrow> int list \<Rightarrow> counted \<Rightarrow> counted io" where
  "sel_serve rfds [] st = ret st"
| "sel_serve rfds (i # is) st =
     (if \<not> i < cur_conn_cnt st then ret st
      else arr_get (cli_socks st) i (\<lambda>sd.
        if sd < 0 then sel_serve rfds is st
        else fd_isset sd rfds (\<lambda>ready.
          if \<not> ready then sel_serve rfds is st
          else bnd (sel_client i sd st) (\<lambda>st'. sel_serve rfds is st'))))"

text \<open>The search of a free slot, which ends at the first -1.\<close>

definition sel_slot :: "int list \<Rightarrow> nat" where
  "sel_slot socks = length (takeWhile (\<lambda>s. s \<noteq> - 1) socks)"

lemma sel_slot_free: "\<forall>s \<in> set socks. - 1 \<le> s \<Longrightarrow> sel_slot socks = free_slot socks"
  unfolding sel_slot_def free_slot_def by (intro arg_cong [where f = length] takeWhile_cong) force+

text \<open>A new connection within the limit.\<close>

definition sel_admit :: "int \<Rightarrow> sockaddr \<Rightarrow> counted \<Rightarrow> counted io" where
  "sel_admit new_sock pa st =
     (let st0 = st\<lparr>cli_addr := pa\<rparr>;
          i = sel_slot (cli_socks st0);
          found = i < length (cli_socks st0);
          st1 = (if found then st0\<lparr>cli_socks := (cli_socks st0)[i := new_sock]\<rparr> else st0);
          st2 = st1\<lparr>max_sd := (if new_sock > max_sd st1 then new_sock else max_sd st1)\<rparr>
      in says ([''new connection, sockfd = '' @ show_int new_sock @ '', ip = '' @ inet_ntoa pa @
                '', port = '' @ show_port pa @ ''.'' @ [LF]] @
               (if found then [''add sock '' @ show_int new_sock @ '' to cli_socks['' @ show_int (int i) @
                 ''].'' @ [LF]] else []))
         (fd_set new_sock (active_fds st2) (\<lambda>act.
          let st3 = st2\<lparr>active_fds := act, cur_conn_cnt := cur_conn_cnt st2 + 1\<rparr>
          in sys (Send new_sock ACCEPT_MSG) (\<lambda>w.
             if rv w < 0 then perror ''ERROR send accept message'' (ret st3) else ret st3))))"

definition sel_refuse :: "int \<Rightarrow> sockaddr \<Rightarrow> counted \<Rightarrow> (counted + unit) io" where
  "sel_refuse new_sock pa st =
     printf (REFUSE_MSG @ ''.'' @ [LF])
     (sys (Send new_sock REFUSE_MSG) (\<lambda>w.
      let go = sys (Close new_sock) (\<lambda>_. ret (Inl (st\<lparr>cli_addr := pa\<rparr>)))
      in if rv w < 0 then perror ''ERROR send refuse message'' go else go))"

definition sel_clients :: "int set \<Rightarrow> counted \<Rightarrow> (counted + unit) io" where
  "sel_clients rfds st =
     bnd (sel_serve rfds [0..cur_conn_cnt st - 1] st) (\<lambda>st'. ret (Inl st'))"

definition sel_body :: "int \<Rightarrow> counted \<Rightarrow> (counted + unit) io" where
  "sel_body master st =
     sys (Select (max_sd st + 1) (active_fds st) {}) (\<lambda>a.
       if rv a = - 1 then
         (if en a = EINTR then ret (Inl st) else perror ''[ERROR] select'' (exit (- 1)))
       else if rv a = 0 then printf ''timeout.'' (ret (Inl st))
       else fd_isset master (rset a) (\<lambda>new.
         if \<not> new then sel_clients (rset a) st
         else sys (Accept master) (\<lambda>b.
           if rv b < 0 then perror ''ERROR accept'' (exit (- 1))
           else if cur_conn_cnt st > int MAX_CLIENTS_NUM - 1 then sel_refuse (rv b) (peer b) st
           else bnd (sel_admit (rv b) (peer b) st) (\<lambda>st'. sel_clients (rset a) st'))))"

definition sel_start :: "int \<Rightarrow> sockaddr \<Rightarrow> counted" where
  "sel_start master junk =
     \<lparr>cli_socks = replicate MAX_CLIENTS_NUM (- 1), active_fds = {master}, max_sd = master,
      cli_addr = junk, cur_conn_cnt = 0\<rparr>"

text \<open>\<open>opt\<close>, which turns the option on or off, is not initialised.\<close>

definition sel_main :: "int \<Rightarrow> sockaddr \<Rightarrow> unit io" where
  "sel_main opt junk =
     sys (Socket AF_INET SOCK_STREAM 0) (\<lambda>s.
       if rv s < 0 then perror ''ERROR socket'' (exit (- 1))
       else sys (Setsockopt_reuse (rv s) opt) (\<lambda>x.
         if rv x < 0 then perror ''ERROR setsockopt'' (exit (- 1))
         else sys (Bind (rv s) (Sin (htons PORT) (htonl INADDR_ANY))) (\<lambda>b.
           if rv b \<noteq> 0 then perror ''ERROR bind'' (exit (- 1))
           else sys (Listen (rv s) BACKLOG) (\<lambda>l.
             if rv l \<noteq> 0 then perror ''ERROR listen'' (exit (- 1))
             else fd_set (rv s) {} (\<lambda>_. loop (sel_body (rv s)) (sel_start (rv s) junk))))))"

subsection \<open>The invariant\<close>

text \<open>
  \<open>cur_conn_cnt\<close> is the number of clients, at most three, and the process has no other descriptor
  open than the listening socket, the clients and those it started with.
\<close>

definition sel_inv :: "int set \<Rightarrow> int \<Rightarrow> int set \<Rightarrow> counted \<Rightarrow> bool" where
  "sel_inv base master fds st \<longleftrightarrow>
     length (cli_socks st) = MAX_CLIENTS_NUM \<and> (\<forall>s \<in> set (cli_socks st). - 1 \<le> s) \<and> distinct (live st) \<and>
     master \<notin> set (live st) \<and> 0 \<le> master \<and> master < FD_SETSIZE \<and>
     cur_conn_cnt st = int (length (live st)) \<and>
     active_fds st = insert master (set (live st)) \<and>
     (\<forall>fd \<in> active_fds st. fd \<le> max_sd st \<and> fd < FD_SETSIZE) \<and>
     fds = base \<union> active_fds st \<and> base \<inter> active_fds st = {} \<and> (\<forall>fd \<in> base. 0 \<le> fd)"

text \<open>A message was received that is too long to be echoed.\<close>

fun is_long_recv :: "event \<Rightarrow> bool" where
  "is_long_recv (Call (Transfer _ (RECV n)) a) = (244 \<le> length (cstr (dat a)))"
| "is_long_recv _ = False"

definition long_recv :: "event list \<Rightarrow> bool" where
  "long_recv t = list_ex is_long_recv t"

lemma long_recv_simps [simp]:
  "\<not> long_recv []" "long_recv (e # t) \<longleftrightarrow> is_long_recv e \<or> long_recv t"
  "long_recv (s @ t) \<longleftrightarrow> long_recv s \<or> long_recv t"
  "\<not> long_recv (map Out ms)"
proof -
  show "\<not> long_recv (map Out ms)" by (induction ms) (simp_all add: long_recv_def)
qed (auto simp: long_recv_def)

lemma live_le: "length (live st) \<le> length (cli_socks st)"
  by (simp add: live_def)

lemma sel_slot_open:
  assumes inv: "sel_inv base master fds st" and i: "0 \<le> i" "i < int MAX_CLIENTS_NUM"
    and fd: "0 \<le> cli_socks st ! nat i"
  shows "cli_socks st ! nat i \<in> fds" "cli_socks st ! nat i < FD_SETSIZE"
proof -
  have "cli_socks st ! nat i \<in> set (cli_socks st)" using inv i by (intro nth_mem) (simp add: sel_inv_def)
  with fd have "cli_socks st ! nat i \<in> set (live st)" by (simp add: live_iff)
  then show "cli_socks st ! nat i \<in> fds" "cli_socks st ! nat i < FD_SETSIZE"
    using inv by (auto simp: sel_inv_def)
qed

lemma sel_inv_drop:
  assumes inv: "sel_inv base master fds st" and i: "0 \<le> i" "i < int MAX_CLIENTS_NUM"
    and fd: "cli_socks st ! nat i = fd" "0 \<le> fd"
    and st': "cli_socks st' = (cli_socks st)[nat i := - 1]" "active_fds st' = active_fds st - {fd}"
      "max_sd st' = max_sd st" "cur_conn_cnt st' = cur_conn_cnt st - 1"
  shows "sel_inv base master (fds - {fd}) st'"
proof -
  have i': "i < int (length (cli_socks st))" and dist: "distinct (live st)"
    using inv i by (simp_all add: sel_inv_def)
  note drop = live_drop [OF i(1) i' fd dist]
  have "live st' = live (pool_drop i st)" using st' by (simp add: live_def pool_drop_def)
  moreover have "fd \<noteq> master" "fd \<notin> base" using inv drop(3) by (auto simp: sel_inv_def)
  moreover have "\<forall>s \<in> set (cli_socks st'). - 1 \<le> s"
    using inv st'(1) set_update_subset_insert [of "cli_socks st" "nat i" "- 1"] by (auto simp: sel_inv_def)
  ultimately show ?thesis
    using inv drop st' by (auto simp: sel_inv_def)
qed

lemma sel_inv_add:
  assumes inv: "sel_inv base master fds st" and room: "cur_conn_cnt st < int MAX_CLIENTS_NUM"
    and fd: "fd \<notin> fds" "0 \<le> fd" "fd < FD_SETSIZE"
    and st': "cli_socks st' = (cli_socks st)[sel_slot (cli_socks st) := fd]"
      "active_fds st' = insert fd (active_fds st)" "max_sd st' = max (max_sd st) fd"
      "cur_conn_cnt st' = cur_conn_cnt st + 1"
  shows "sel_slot (cli_socks st) < length (cli_socks st)" "sel_inv base master (insert fd fds) st'"
proof -
  have eq: "sel_slot (cli_socks st) = free_slot (cli_socks st)"
    using inv by (intro sel_slot_free) (simp add: sel_inv_def)
  show i: "sel_slot (cli_socks st) < length (cli_socks st)"
  proof (rule ccontr)
    assume "\<not> ?thesis"
    then have "takeWhile (\<lambda>s. \<not> s < 0) (cli_socks st) = cli_socks st"
      using takeWhile_eq_take [of "\<lambda>s. \<not> s < 0" "cli_socks st"] by (simp add: eq free_slot_def)
    then have "live st = cli_socks st"
      by (auto simp: live_def filter_id_conv takeWhile_eq_all_conv)
    with room inv show False by (simp add: sel_inv_def)
  qed
  have "distinct (live st)" "fd \<notin> set (live st)" "fd \<noteq> master" "fd \<notin> base"
    using inv fd(1) by (auto simp: sel_inv_def)
  moreover have "\<forall>s \<in> set (cli_socks st'). - 1 \<le> s"
    using inv fd(2) st'(1) set_update_subset_insert [of "cli_socks st" "sel_slot (cli_socks st)" fd]
    by (auto simp: sel_inv_def)
  moreover note live_fill [OF refl i [unfolded eq] st'(1) [unfolded eq] fd(2)]
  ultimately show "sel_inv base master (insert fd fds) st'"
    using inv fd i st' by (auto simp: sel_inv_def le_max_iff_disj)
qed

subsection \<open>The contract\<close>

text \<open>A descriptor was given that an \<open>fd_set\<close> cannot hold. A call that gave none does not count.\<close>

definition big_new_fd :: "event list \<Rightarrow> bool" where
  "big_new_fd t \<longleftrightarrow> (\<exists>fd \<in> set (new_fds t). FD_SETSIZE \<le> fd)"

lemma big_new_fd_simps [simp]:
  "\<not> big_new_fd []"
  "big_new_fd (Call c a # t) \<longleftrightarrow> (makes_fd c \<and> FD_SETSIZE \<le> rv a) \<or> big_new_fd t"
  "big_new_fd (Out s # t) = big_new_fd t" "big_new_fd (Err s # t) = big_new_fd t"
  "big_new_fd (Perror s # t) = big_new_fd t" "big_new_fd (Syslog s # t) = big_new_fd t"
  "big_new_fd (t1 @ t2) \<longleftrightarrow> big_new_fd t1 \<or> big_new_fd t2"
  by (auto simp: big_new_fd_def)

text \<open>What may stop the program wrongly.\<close>

definition sel_stop_ok :: "stop \<Rightarrow> event list \<Rightarrow> bool" where
  "sel_stop_ok z t \<longleftrightarrow> (\<forall>f. z = Fault f \<longrightarrow> (f = Fd_range \<and> big_new_fd t) \<or> (f = Overflow \<and> long_recv t))"

lemma sel_stop_ok_simps [simp]:
  "sel_stop_ok Blocked t" "sel_stop_ok (Exit n) t"
  "sel_stop_ok (Fault f) t \<longleftrightarrow> (f = Fd_range \<and> big_new_fd t) \<or> (f = Overflow \<and> long_recv t)"
  by (simp_all add: sel_stop_ok_def)

definition sel_keeps :: "int set \<Rightarrow> int \<Rightarrow> int set \<Rightarrow> counted result \<Rightarrow> event list \<Rightarrow> bool" where
  "sel_keeps base master fds r t \<longleftrightarrow>
     (case r of Ret st' \<Rightarrow> sel_inv base master (fds_run fds t) st' | Stop z \<Rightarrow> sel_stop_ok z t)"

lemma sel_keeps_simps [simp]:
  "sel_keeps base master fds (Ret st') t = sel_inv base master (fds_run fds t) st'"
  "sel_keeps base master fds (Stop z) t = sel_stop_ok z t"
  by (simp_all add: sel_keeps_def)

lemma sel_stop_ok_append: "sel_stop_ok z t \<Longrightarrow> sel_stop_ok z (s @ t)"
  by (auto simp: sel_stop_ok_def)

lemma sel_keeps_append:
  "sel_keeps base master (fds_run fds s) r t \<Longrightarrow> sel_keeps base master fds r (s @ t)"
  by (auto simp: sel_keeps_def sel_stop_ok_append split: result.splits)

lemma sel_client_ok:
  assumes inv: "sel_inv base master fds st" and i: "0 \<le> i" "i < int MAX_CLIENTS_NUM"
    and fd: "cli_socks st ! nat i = fd" "0 \<le> fd"
  shows "vld fds (sel_client i fd st) (sel_keeps base master fds)"
proof -
  have len: "length (cli_socks st) = MAX_CLIENTS_NUM" using inv by (simp add: sel_inv_def)
  have "fd < FD_SETSIZE" using sel_slot_open [OF inv i] fd by auto
  moreover note drop = sel_inv_drop [OF inv i fd]
  ultimately show ?thesis
    using inv i fd len
    by (auto simp: sel_client_def sel_drop_def sel_echo_def io_simps sys_ok_def store_zeros
        put_cstr_None BUF_SIZE_def nat_less_iff intro!: drop)
qed

lemma sel_serve_ok:
  "sel_inv base master fds st \<Longrightarrow> \<forall>i \<in> set is. 0 \<le> i \<and> i < int MAX_CLIENTS_NUM \<Longrightarrow>
    vld fds (sel_serve rfds is st) (sel_keeps base master fds)"
proof (induction "is" arbitrary: fds st)
  case (Cons i "is")
  define fd where "fd = cli_socks st ! nat i"
  have i: "0 \<le> i" "i < int MAX_CLIENTS_NUM" "length (cli_socks st) = MAX_CLIENTS_NUM"
    using Cons.prems by (auto simp: sel_inv_def)
  have range: "0 \<le> fd \<Longrightarrow> fd < FD_SETSIZE" using sel_slot_open [OF Cons.prems(1) i(1,2)] by (simp add: fd_def)
  have "vld fds (sel_serve rfds is st) (sel_keeps base master fds)"
    using Cons by auto
  moreover have "vld fds (bnd (sel_client i fd st) (sel_serve rfds is)) (sel_keeps base master fds)"
    if "0 \<le> fd"
    by (rule vld_bnd_use [OF sel_client_ok [OF Cons.prems(1) i(1,2) fd_def [symmetric] that]])
       (use Cons in \<open>auto intro!: vld_mono [OF Cons.IH] sel_keeps_append\<close>)
  ultimately show ?case
    using i Cons.prems range by (auto simp: io_simps fd_def [symmetric])
qed (simp add: io_simps)

lemma sel_clients_ok:
  assumes "sel_inv base master fds st"
  shows "vld fds (sel_clients rfds st) (\<lambda>r t. case r of
      Ret (Inl st') \<Rightarrow> sel_inv base master (fds_run fds t) st'
    | Ret (Inr _) \<Rightarrow> False | Stop z \<Rightarrow> sel_stop_ok z t)"
  unfolding sel_clients_def
proof (rule vld_bnd_use [OF sel_serve_ok [OF assms]])
  show "\<forall>i \<in> set [0..cur_conn_cnt st - 1]. 0 \<le> i \<and> i < int MAX_CLIENTS_NUM"
    using assms live_le [of st] by (auto simp: sel_inv_def)
qed (auto simp: io_simps)

definition sel_next :: "int set \<Rightarrow> int \<Rightarrow> int set \<Rightarrow> (counted + unit) result \<Rightarrow> event list \<Rightarrow> bool" where
  "sel_next base master fds r t \<longleftrightarrow>
     (case r of
        Ret (Inl st') \<Rightarrow> sel_inv base master (fds_run fds t) st'
      | Ret (Inr _) \<Rightarrow> False
      | Stop z \<Rightarrow> sel_stop_ok z t)"

lemma sel_next_simps [simp]:
  "sel_next base master fds (Ret (Inl st')) t = sel_inv base master (fds_run fds t) st'"
  "sel_next base master fds (Stop z) t = sel_stop_ok z t"
  by (simp_all add: sel_next_def)

lemma sel_next_append:
  "sel_next base master (fds_run fds s) r t \<Longrightarrow> sel_next base master fds r (s @ t)"
  by (auto simp: sel_next_def sel_stop_ok_append split: result.splits sum.splits)

lemma sel_clients_next:
  "sel_inv base master (fds_run fds s) st \<Longrightarrow>
    vld (fds_run fds s) (sel_clients rfds st) (\<lambda>r t. sel_next base master fds r (s @ t))"
  by (rule vld_mono [OF sel_clients_ok])
     (auto simp: sel_next_def sel_stop_ok_append split: result.splits sum.splits)

lemma sel_admit_ok:
  assumes inv: "sel_inv base master fds st" and room: "cur_conn_cnt st \<le> int MAX_CLIENTS_NUM - 1"
    and fd: "fd \<notin> fds" "0 \<le> fd"
  shows "vld (insert fd fds) (sel_admit fd pa st) (\<lambda>r t. case r of
      Ret st' \<Rightarrow> sel_inv base master (fds_run (insert fd fds) t) st'
    | Stop z \<Rightarrow> z = Blocked \<or> (z = Fault Fd_range \<and> FD_SETSIZE \<le> fd))"
proof -
  have room': "cur_conn_cnt st < int MAX_CLIENTS_NUM" using room by simp
  show ?thesis
  proof (cases "fd < FD_SETSIZE")
    case True
    note add = sel_inv_add [OF inv room' fd True]
    have slot: "sel_slot (cli_socks st) < length (cli_socks st)"
      by (rule add(1) [of "st\<lparr>cli_socks := (cli_socks st)[sel_slot (cli_socks st) := fd],
        active_fds := insert fd (active_fds st), max_sd := max (max_sd st) fd,
        cur_conn_cnt := cur_conn_cnt st + 1\<rparr>"]) simp_all
    with True fd show ?thesis
      by (auto simp: sel_admit_def Let_def io_simps max_def intro!: add(2))
  next
    case False
    with fd show ?thesis by (auto simp: sel_admit_def Let_def io_simps)
  qed
qed

lemma sel_inv_addr [simp]: "sel_inv base master fds (st\<lparr>cli_addr := x\<rparr>) = sel_inv base master fds st"
  by (simp add: sel_inv_def live_def)

lemma sel_body_ok:
  assumes inv: "sel_inv base master fds st"
  shows "vld fds (sel_body master st) (sel_next base master fds)"
proof -
  have act: "master \<in> fds" "0 \<le> master" "master < FD_SETSIZE" using inv by (auto simp: sel_inv_def)
  have clients: "vld fds (sel_clients rfds st) (\<lambda>r t. sel_next base master fds r (Call (Select n S {}) a # t))"
    for rfds n S a
    using sel_clients_next [of base master fds "[Call (Select n S {}) a]" st rfds] inv by simp
  have admit: "vld (insert (rv b) fds) (bnd (sel_admit (rv b) (peer b) st) (\<lambda>st'. sel_clients rfds st'))
      (\<lambda>r t. sel_next base master fds r (Call (Select n S {}) a # Call (Accept master) b # t))"
    if "\<not> int MAX_CLIENTS_NUM - 1 < cur_conn_cnt st" "rv b \<notin> fds" "0 \<le> rv b" for rfds n S a b
  proof (rule vld_bnd_use [OF sel_admit_ok [OF inv _ that(2,3)]])
    fix st' t assume "case Ret st' of Ret st' \<Rightarrow> sel_inv base master (fds_run (insert (rv b) fds) t) st'
        | Stop z \<Rightarrow> z = Blocked \<or> (z = Fault Fd_range \<and> FD_SETSIZE \<le> rv b)"
    then show "vld (fds_run (insert (rv b) fds) t) (sel_clients rfds st')
       (\<lambda>r ta. sel_next base master fds r (Call (Select n S {}) a # Call (Accept master) b # t @ ta))"
      using sel_clients_next [of base master fds "Call (Select n S {}) a # Call (Accept master) b # t" st' rfds] that(3)
      by simp
  qed (use that in auto)
  have refuse: "vld (insert (rv b) fds) (sel_refuse (rv b) (peer b) st)
      (\<lambda>r t. sel_next base master fds r (Call (Select n S {}) a # Call (Accept master) b # t))"
    if "rv b \<notin> fds" "0 \<le> rv b" for n S a b
    using that inv by (auto simp: sel_refuse_def io_simps Let_def)
  show ?thesis
    unfolding sel_body_def
    using act inv by (auto simp: io_simps sys_ok_def intro!: clients admit refuse)
qed

interpretation sel: loop_contract "sel_body master" "\<lambda>fds st h. sel_inv base master fds st"
    "\<lambda>r h. \<exists>z. r = Stop z \<and> (z = Diverge \<or> sel_stop_ok z h)" for base master
  by unfold_locales
    (auto intro!: vld_mono [OF sel_body_ok] simp: sel_next_def sel_stop_ok_append
      split: result.splits sum.splits)

lemma sel_inv_start:
  assumes "0 \<le> m" "m < FD_SETSIZE" "m \<notin> base" "\<forall>fd \<in> base. 0 \<le> fd"
  shows "sel_inv base m (insert m base) (sel_start m junk)"
  using assms by (auto simp: sel_inv_def sel_start_def live_def MAX_CLIENTS_NUM_def)

lemma sel_main_ok:
  assumes "\<forall>fd \<in> base. 0 \<le> fd"
  shows "vld base (sel_main opt junk) (\<lambda>r t. \<forall>f. r = Stop (Fault f) \<longrightarrow> sel_stop_ok (Fault f) t)"
proof -
  have run: "vld (insert m base) (loop (sel_body m) (sel_start m junk)) (\<lambda>r t. \<forall>f. r = Stop (Fault f) \<longrightarrow>
      sel_stop_ok (Fault f) t)" if "0 \<le> m" "m < FD_SETSIZE" "m \<notin> base" for m
    by (rule vld_mono [OF sel.loop_post]) (use assms that in \<open>auto intro: sel_inv_start\<close>)
  show ?thesis
    unfolding sel_main_def
    by (auto simp: io_simps sys_ok_def intro!: vld_mono [OF run])
qed

text \<open>A scan that finds no ready client below the count does nothing.\<close>

lemma sel_serve_idle:
  "\<forall>i \<in> set is. 0 \<le> i \<and> i < int (length (cli_socks st)) \<and>
      (i < cur_conn_cnt st \<longrightarrow> cli_socks st ! nat i < 0 \<or>
        (cli_socks st ! nat i \<notin> rfds \<and> cli_socks st ! nat i < FD_SETSIZE)) \<Longrightarrow>
    sel_serve rfds is st = ret st"
  by (induction "is") (auto simp: arr_get_def fd_isset_def)

subsection \<open>Properties\<close>

definition sel_reach :: "int set \<Rightarrow> int \<Rightarrow> sockaddr \<Rightarrow> int set \<Rightarrow> counted \<Rightarrow> event list \<Rightarrow> bool" where
  "sel_reach base master junk fds st h \<longleftrightarrow>
     0 \<le> master \<and> master < FD_SETSIZE \<and> master \<notin> base \<and> (\<forall>fd \<in> base. 0 \<le> fd) \<and>
     reach (sel_body master) (insert master base) (sel_start master junk) fds st h"

lemma sel_reach_inv: "sel_reach base master junk fds st h \<Longrightarrow> sel_inv base master fds st"
  using sel.reach_inv [of master "insert master base" "sel_start master junk" fds st h base]
  by (auto simp: sel_reach_def sel_inv_start)

text \<open>
  A session for the examples: the clients 5 and 6 connect, then 5 closes its end. The echo the server
  still sends to 5 fails.
\<close>

definition two_then_one :: "reply list list" where
  "two_then_one =
     [[ready {3} {}, ok 5, ok 31], [ready {3} {}, ok 6, ok 31],
      [ready {5} {}, got '''', ok 0, fail EBADF]]"

lemma three_slots: "replicate 3 x = [x, x, x]"
  by (simp add: numeral_eq_Suc)

lemmas sel_defs = sel_body_def sel_admit_def sel_clients_def sel_client_def sel_drop_def sel_echo_def
  sel_start_def sel_slot_def BUF_SIZE_def MAX_CLIENTS_NUM_def ACCEPT_MSG_def three_slots

lemma two_then_one_run:
  "\<exists>st h. turns (sel_body 3) (sel_start 3 (Sa_other 0)) two_then_one = Some (st, h) \<and>
     conforms {0, 1, 2, 3} h \<and> fds_run {0, 1, 2, 3} h = {0, 1, 2, 3, 6} \<and>
     cur_conn_cnt st = 1 \<and> cli_socks st = [- 1, 6, - 1]"
  by (simp add: run_simps sel_defs two_then_one_def upto.simps reply_simps cong: lazy) auto

lemma sel_example:
  obtains st h where "sel_reach {0, 1, 2} 3 (Sa_other 0) {0, 1, 2, 3, 6} st h"
    "cur_conn_cnt st = 1" "cli_socks st = [- 1, 6, - 1]"
proof -
  from two_then_one_run obtain st h where
    run: "turns (sel_body 3) (sel_start 3 (Sa_other 0)) two_then_one = Some (st, h)"
    "conforms {0, 1, 2, 3} h" and "fds_run {0, 1, 2, 3} h = {0, 1, 2, 3, 6}"
    "cur_conn_cnt st = 1" "cli_socks st = [- 1, 6, - 1]"
    by (elim exE conjE) rule
  moreover have "insert 3 {0, 1, 2} = {0, 1, 2, 3 :: int}" by auto
  ultimately show thesis
    using turns_reach [OF run] that by (simp add: sel_reach_def FD_SETSIZE_def)
qed

text \<open>
  C16: The echo server's count is right: in every state it can reach, \<open>cur_conn_cnt\<close> is the number of
  clients connected, it never exceeds three, and the process has open exactly what it had before,
  the listening socket and those clients, which are what \<open>select\<close> waits for.
\<close>

theorem sel_count:
  assumes "sel_reach base master junk fds st h"
  shows "cur_conn_cnt st = int (length (live st)) \<and> cur_conn_cnt st \<le> 3 \<and> distinct (live st) \<and>
    active_fds st = insert master (set (live st)) \<and> fds = base \<union> insert master (set (live st))"
  using sel_reach_inv [OF assms] live_le [of st]
  by (auto simp: sel_inv_def MAX_CLIENTS_NUM_def)

theorem sel_count_witness:
  "\<exists>st h. sel_reach {0, 1, 2} 3 (Sa_other 0) {0, 1, 2, 3, 6} st h \<and> live st = [6] \<and>
     cur_conn_cnt st = int (length (live st))"
proof -
  obtain st h where 1: "sel_reach {0, 1, 2} 3 (Sa_other 0) {0, 1, 2, 3, 6} st h"
    "cli_socks st = [- 1, 6, - 1]" using sel_example by metis
  then show ?thesis using sel_count [OF 1(1)] by (auto simp: live_def)
qed

text \<open>
  A client may be stranded. The scan covers the slots below the number of clients, so after an
  earlier client has left, a client in a slot at or above the count is not seen: a turn in which it
  alone is ready reads nothing and ends in the state it began in, and \<open>select\<close> reports the client again
  at once.
\<close>

theorem sel_strands_client:
  assumes "sel_reach base master junk fds st h"
    and "cur_conn_cnt st \<le> i" and "i < 3" and "cli_socks st ! nat i = fd" and "0 \<le> fd"
    and "rset a = {fd}" and "rv a = 1"
  shows "sel_body master st (a # rs) =
    (Ret (Inl st), [Call (Select (max_sd st + 1) (active_fds st) {}) a], rs)"
proof -
  have inv: "sel_inv base master fds st" using sel_reach_inv [OF assms(1)] .
  then have len: "length (cli_socks st) = 3" and dist: "distinct (live st)" and cnt: "0 \<le> cur_conn_cnt st"
    and m: "0 \<le> master" "master < FD_SETSIZE" "master \<notin> set (live st)"
    by (auto simp: sel_inv_def MAX_CLIENTS_NUM_def)
  have i: "nat i < length (cli_socks st)" "0 \<le> i" using assms(2,3) len cnt by auto
  then have "fd \<in> set (live st)" using assms(4,5) by (auto simp: live_iff)
  then have "fd \<noteq> master" using m by auto
  moreover have "cli_socks st ! nat j \<noteq> fd" if "0 \<le> j" "j < cur_conn_cnt st" for j
  proof -
    have "nat j < nat i" using that assms(2) by linarith
    then have "nat j \<noteq> nat i" "nat j < length (cli_socks st)" using i by linarith+
    then show ?thesis
      using distinct_filter_nth [of "\<lambda>s. 0 \<le> s" "cli_socks st" "nat i" "nat j"] assms(4,5) i dist
      by (auto simp: live_def)
  qed
  moreover have "cli_socks st ! nat j < FD_SETSIZE" if "0 \<le> j" "j < cur_conn_cnt st" for j
    using sel_slot_open(2) [OF inv that(1)] that assms(2,3) FD_SETSIZE_def
    by (cases "0 \<le> cli_socks st ! nat j") (auto simp: MAX_CLIENTS_NUM_def)
  ultimately have idle: "sel_serve {fd} [0..cur_conn_cnt st - 1] st = ret st"
    using assms(2,3) len by (intro sel_serve_idle) auto
  show ?thesis
    using m \<open>fd \<noteq> master\<close> assms(6,7)
    by (simp add: sel_body_def sys_def fd_isset_def sel_clients_def idle bnd_ret ret_def)
qed

theorem sel_strands_client_witness:
  "\<exists>st h. sel_reach {0, 1, 2} 3 (Sa_other 0) {0, 1, 2, 3, 6} st h \<and> live st = [6] \<and>
     fst (sel_body 3 st [ready {6} {}]) = Ret (Inl st)"
proof -
  obtain st h where 1: "sel_reach {0, 1, 2} 3 (Sa_other 0) {0, 1, 2, 3, 6} st h"
    "cur_conn_cnt st = 1" "cli_socks st = [- 1, 6, - 1]" by (rule sel_example)
  have "sel_body 3 st (ready {6} {} # []) =
      (Ret (Inl st), [Call (Select (max_sd st + 1) (active_fds st) {}) (ready {6} {})], [])"
    by (rule sel_strands_client [OF 1(1), of 1 6]) (use 1 in \<open>simp_all add: reply_simps ok_def\<close>)
  then show ?thesis using 1 by (auto simp: live_def)
qed

text \<open>
  The echo overflows its buffer exactly for messages of 244 characters or more: a client whose
  read brought such a message stops the server with a write past \<open>send_buf\<close>, and no other read does.
\<close>

theorem sel_echo_overflows:
  assumes "0 < rv a" and "length (dat a) \<le> 255"
  shows "fst (sel_client i sd st (a # rs)) = Stop (Fault Overflow) \<longleftrightarrow> 244 \<le> length (cstr (dat a))"
  using assms
  by (cases rs)
     (auto simp: sel_client_def sel_echo_def sys_def BUF_SIZE_def store_zeros fits_def with_cstr_def
      put_cstr_None put_cstr_0 printf_def tell_def perror_def bnd_def ret_def stop_def
      split: option.splits prod.splits)

text \<open>
  A client that has gone is still sent an echo. When \<open>recv\<close> meets the end of the connection the
  server closes the descriptor and then sends on it; under the kernel's contract that send fails
  with \<open>EBADF\<close>.
\<close>

theorem sel_echo_after_close:
  assumes "sel_client i sd st (a # c # w # rs) = (r, t, rs')" and "conforms fds t"
    and "rv a = 0" and "0 \<le> sd" "sd < FD_SETSIZE" and "0 \<le> i" "i < int (length (cli_socks st))"
  shows "Call (Close sd) c \<in> set t \<and> Call (Send sd ''ECHO BACK : '') w \<in> set t \<and> rv w = - 1 \<and> en w = EBADF"
  using assms
  by (auto simp: sel_client_def sel_drop_def sel_echo_def run_ops run_print tell_def bnd_def BUF_SIZE_def
      store_zeros put_cstr_0 sys_ok_def split: prod.splits if_splits)

definition long_message :: reply where
  "long_message = got (replicate 244 CHR ''A'')"

theorem sel_echo_overflows_witness:
  "fst (sel_client 0 5 (sel_start 3 (Sa_other 0)) [long_message]) = Stop (Fault Overflow)"
proof -
  have "cstr (dat long_message) = replicate 244 CHR ''A''"
    by (simp add: long_message_def got_def cstr_id)
  then show ?thesis
    by (subst sel_echo_overflows) (simp_all add: long_message_def got_def ok_def)
qed

theorem sel_echo_after_close_witness:
  "case sel_client 0 5 ((sel_start 3 (Sa_other 0))\<lparr>cli_socks := [5, - 1, - 1], active_fds := {3, 5}\<rparr>)
      [got '''', ok 0, fail EBADF] of (r, t, rs) \<Rightarrow>
     conforms {0, 1, 2, 3, 5} t \<and> Call (Send 5 ''ECHO BACK : '') (fail EBADF) \<in> set t"
proof -
  let ?st = "(sel_start 3 (Sa_other 0))\<lparr>cli_socks := [5, - 1, - 1], active_fds := {3, 5}\<rparr>"
  obtain r t rs where run: "sel_client 0 5 ?st [got '''', ok 0, fail EBADF] = (r, t, rs)"
    by (cases "sel_client 0 5 ?st [got '''', ok 0, fail EBADF]") auto
  have "case sel_client 0 5 ?st [got '''', ok 0, fail EBADF] of (r, t, rs) \<Rightarrow> conforms {0, 1, 2, 3, 5} t"
    by (simp add: run_simps sel_defs cong: lazy)
  then have "conforms {0, 1, 2, 3, 5} t" using run by simp
  from sel_echo_after_close [OF run this] this run show ?thesis
    by (simp add: got_def ok_def FD_SETSIZE_def)
qed

text \<open>
  C32: The echo server is otherwise memory-safe: a run of \<open>main\<close> that faults has either received a
  message too long to echo, or been given a descriptor too large for an \<open>fd_set\<close>. A call that fails
  to give a descriptor never leads to a fault: its \<open>-1\<close> reaches no \<open>fd_set\<close>.
\<close>

theorem sel_safe:
  assumes "sel_main opt junk rs = (Stop (Fault f), t, rs')" and "conforms base t"
    and "\<forall>fd \<in> base. 0 \<le> fd"
  shows "(f = Overflow \<and> long_recv t) \<or> (f = Fd_range \<and> big_new_fd t)"
  using vldD [OF sel_main_ok assms(1,2)] assms(3) by auto

definition sel_overflow_script :: "reply list" where
  "sel_overflow_script =
     [ok 3, ok 0, ok 0, ok 0, ready {3} {}, ok 5, ok 31, ready {5} {}, long_message]"

theorem sel_safe_witness:
  "case sel_main 0 (Sa_other 0) sel_overflow_script of (r, t, rs) \<Rightarrow>
     r = Stop (Fault Overflow) \<and> conforms {0, 1, 2} t \<and> long_recv t"
proof -
  have cstr: "cstr (replicate n CHR ''A'' @ zeros k) = replicate n CHR ''A''" for n k
    by (simp add: cstr_id)
  have "case sel_main 0 (Sa_other 0) sel_overflow_script of (r, t, rs) \<Rightarrow>
     r = Stop (Fault Overflow) \<and> conforms {0, 1, 2} t"
    by (simp add: run_simps sel_defs sel_main_def sel_overflow_script_def long_message_def upto.simps
        reply_simps cstr cstr_id [of "replicate 244 CHR ''A''"] zeros_def [of 1] cong: lazy)
  then show ?thesis
    using sel_safe [of 0 "Sa_other 0" sel_overflow_script Overflow _ _ "{0, 1, 2}"]
    by (auto split: prod.splits)
qed

end
