(* ===== verification/Same_Calls.thy ===== *)
theory Same_Calls
  imports Trace
begin

text \<open>
  Two programs that differ only in what they print: from the same replies they make the same system
  calls, use up the same replies and end in the same way. The relation is kept by every combinator, so
  that it is shown for a program by going through its text.
\<close>

fun is_sys :: "event \<Rightarrow> bool" where
  "is_sys (Call c a) = True"
| "is_sys _ = False"

definition sys_calls :: "event list \<Rightarrow> event list" where
  "sys_calls t = filter is_sys t"

lemma sys_calls_simps [simp]:
  "sys_calls [] = []"
  "sys_calls (e # t) = (if is_sys e then e # sys_calls t else sys_calls t)"
  "sys_calls (s @ t) = sys_calls s @ sys_calls t"
  by (simp_all add: sys_calls_def)

text \<open>The part of a run that two such programs share.\<close>

definition shared :: "'a result \<times> event list \<times> reply list \<Rightarrow> 'a result \<times> event list \<times> reply list" where
  "shared x = (case x of (r, t, rs) \<Rightarrow> (r, sys_calls t, rs))"

definition same_calls :: "'a io \<Rightarrow> 'a io \<Rightarrow> bool" where
  "same_calls m m' \<longleftrightarrow> (\<forall>rs. shared (m rs) = shared (m' rs))"

named_theorems same_intros "programs that make the same calls"

lemma same_refl: "same_calls m m"
  by (simp add: same_calls_def)

lemma same_sym: "same_calls m m' \<Longrightarrow> same_calls m' m"
  by (simp add: same_calls_def)

lemma same_trans: "same_calls m m' \<Longrightarrow> same_calls m' m'' \<Longrightarrow> same_calls m m''"
  by (simp add: same_calls_def)

lemma same_end [same_intros]: "same_calls (ret x) (ret x)" "same_calls (stop z) (stop z)"
  by (rule same_refl)+

lemma same_sys [same_intros]: "(\<And>a. same_calls (k a) (k' a)) \<Longrightarrow> same_calls (sys c k) (sys c k')"
  by (force simp: same_calls_def shared_def sys_def split: list.splits prod.splits)

lemma same_print [same_intros]:
  "same_calls m m' \<Longrightarrow> same_calls (printf s m) m'" "same_calls m m' \<Longrightarrow> same_calls (eprintf s m) m'"
  "same_calls m m' \<Longrightarrow> same_calls (perror s m) m'" "same_calls m m' \<Longrightarrow> same_calls (syslog s m) m'"
  by (force simp: same_calls_def shared_def io_defs split: prod.splits)+

lemma same_print_right [same_intros]:
  "same_calls m m' \<Longrightarrow> same_calls m (printf s m')" "same_calls m m' \<Longrightarrow> same_calls m (eprintf s m')"
  "same_calls m m' \<Longrightarrow> same_calls m (perror s m')" "same_calls m m' \<Longrightarrow> same_calls m (syslog s m')"
  by (rule same_sym, intro same_print, erule same_sym)+

lemma same_if [same_intros]:
  "(b \<Longrightarrow> same_calls m m') \<Longrightarrow> (\<not> b \<Longrightarrow> same_calls n n') \<Longrightarrow>
    same_calls (if b then m else n) (if b then m' else n')"
  by simp

lemma same_bnd [same_intros]:
  assumes "same_calls m m'" and "\<And>x. same_calls (f x) (f' x)"
  shows "same_calls (bnd m f) (bnd m' f')"
  unfolding same_calls_def
proof
  fix rs
  obtain r t rs1 where m: "m rs = (r, t, rs1)" by (cases "m rs") auto
  obtain r' t' rs1' where m': "m' rs = (r', t', rs1')" by (cases "m' rs") auto
  from assms(1) m m' have eq: "r' = r" "sys_calls t' = sys_calls t" "rs1' = rs1"
    by (auto simp: same_calls_def shared_def dest!: spec [of _ rs])
  show "shared (bnd m f rs) = shared (bnd m' f' rs)"
  proof (cases r)
    case (Ret x)
    from assms(2) have "shared (f x rs1) = shared (f' x rs1)" by (simp add: same_calls_def)
    then show ?thesis using m m' eq Ret
      by (auto simp: bnd_def shared_def split: prod.splits)
  qed (use m m' eq in \<open>simp add: bnd_def shared_def\<close>)
qed

lemma same_loop [same_intros]:
  assumes "\<And>s. same_calls (body s) (body' s)"
  shows "same_calls (loop body s) (loop body' s)"
proof -
  have "shared (loop body s rs) = shared (loop body' s rs)" for s rs
  proof (induction "length rs" arbitrary: s rs rule: less_induct)
    case less
    obtain r t rs1 where m: "body s rs = (r, t, rs1)" by (cases "body s rs") auto
    obtain r' t' rs1' where m': "body' s rs = (r', t', rs1')" by (cases "body' s rs") auto
    from assms [of s] m m' have eq: "r' = r" "sys_calls t' = sys_calls t" "rs1' = rs1"
      by (auto simp: same_calls_def shared_def dest!: spec [of _ rs])
    show ?case
    proof (cases "\<exists>s'. r = Ret (Inl s') \<and> length rs1 < length rs")
      case True
      then obtain s' where "r = Ret (Inl s')" "length rs1 < length rs" by blast
      with less [of rs1 s'] m m' eq show ?thesis
        by (auto simp: loop.simps [of body s rs] loop.simps [of body' s rs] shared_def split: prod.splits)
    next
      case False
      with m m' eq show ?thesis
        by (auto simp: loop.simps [of body s rs] loop.simps [of body' s rs] shared_def
            split: result.splits sum.splits)
    qed
  qed
  then show ?thesis by (simp add: same_calls_def)
qed

subsection \<open>Programs that account for their replies\<close>

text \<open>Each call uses one reply, and a program that waits has used all it had.\<close>

definition accounts :: "'a io \<Rightarrow> bool" where
  "accounts m \<longleftrightarrow> (\<forall>rs r t rs'. m rs = (r, t, rs') \<longrightarrow>
     length rs = length (sys_calls t) + length rs' \<and> (r = Stop Blocked \<longrightarrow> rs' = []))"

named_theorems accounts_intros "programs that account for their replies"

lemma accountsI:
  "(\<And>rs r t rs'. m rs = (r, t, rs') \<Longrightarrow> length rs = length (sys_calls t) + length rs' \<and> (r = Stop Blocked \<longrightarrow> rs' = [])) \<Longrightarrow>
    accounts m"
  by (simp add: accounts_def)

lemma accountsD:
  "accounts m \<Longrightarrow> m rs = (r, t, rs') \<Longrightarrow> length rs = length (sys_calls t) + length rs' \<and> (r = Stop Blocked \<longrightarrow> rs' = [])"
  by (simp add: accounts_def)

lemma accounts_end [accounts_intros]: "accounts (ret x)" "z \<noteq> Blocked \<Longrightarrow> accounts (stop z)"
  by (simp_all add: accounts_def ret_def stop_def)

lemma accounts_sys [accounts_intros]: "(\<And>a. accounts (k a)) \<Longrightarrow> accounts (sys c k)"
  by (rule accountsI) (fastforce simp: sys_def split: list.splits prod.splits dest: accountsD)

lemma accounts_print [accounts_intros]:
  "accounts m \<Longrightarrow> accounts (printf s m)" "accounts m \<Longrightarrow> accounts (eprintf s m)"
  "accounts m \<Longrightarrow> accounts (perror s m)" "accounts m \<Longrightarrow> accounts (syslog s m)"
  by (rule accountsI; fastforce simp: io_defs split: prod.splits dest: accountsD)+

lemma accounts_if [accounts_intros]:
  "(b \<Longrightarrow> accounts m) \<Longrightarrow> (\<not> b \<Longrightarrow> accounts m') \<Longrightarrow> accounts (if b then m else m')"
  by simp

lemma accounts_helpers [accounts_intros]:
  "(\<And>b. accounts (k1 b)) \<Longrightarrow> accounts (fits x k1)"
  "(\<And>s. accounts (k2 s)) \<Longrightarrow> accounts (with_cstr b k2)"
  "(\<And>y. accounts (k3 y)) \<Longrightarrow> accounts (arr_get xs i k3)"
  by (auto simp: fits_def with_cstr_def arr_get_def intro: accounts_end split: option.split)

lemma accounts_bnd [accounts_intros]:
  assumes "accounts m" and "\<And>x. accounts (f x)"
  shows "accounts (bnd m f)"
proof (rule accountsI)
  fix rs r t rs'
  assume run: "bnd m f rs = (r, t, rs')"
  obtain r1 t1 rs1 where m: "m rs = (r1, t1, rs1)" by (cases "m rs") auto
  show "length rs = length (sys_calls t) + length rs' \<and> (r = Stop Blocked \<longrightarrow> rs' = [])"
  proof (cases r1)
    case (Ret x)
    obtain r2 t2 rs2 where f: "f x rs1 = (r2, t2, rs2)" by (cases "f x rs1") auto
    with accountsD [OF assms(1) m] accountsD [OF assms(2) f] run m Ret show ?thesis by (auto simp: bnd_def)
  qed (use accountsD [OF assms(1) m] run m in \<open>auto simp: bnd_def\<close>)
qed

lemma accounts_loop [accounts_intros]:
  assumes "\<And>s. accounts (body s)"
  shows "accounts (loop body s)"
proof -
  have "length rs = length (sys_calls t) + length rs' \<and> (r = Stop Blocked \<longrightarrow> rs' = [])"
    if "loop body s rs = (r, t, rs')" for rs r t rs'
    using that
  proof (induction "length rs" arbitrary: s rs r t rs' rule: less_induct)
    case less
    obtain r1 t1 rs1 where b: "body s rs = (r1, t1, rs1)" by (cases "body s rs") auto
    note 1 = accountsD [OF assms b]
    show ?case
    proof (cases "\<exists>s'. r1 = Ret (Inl s') \<and> length rs1 < length rs")
      case True
      then obtain s' where s': "r1 = Ret (Inl s')" "length rs1 < length rs" by blast
      obtain r2 t2 rs2 where l: "loop body s' rs1 = (r2, t2, rs2)" by (cases "loop body s' rs1") auto
      from less.hyps [OF s'(2) l] less.prems b s' l 1 show ?thesis by (auto simp: loop.simps [of body s rs])
    next
      case False
      with less.prems b 1 show ?thesis
        by (auto simp: loop.simps [of body s rs] split: result.splits sum.splits if_splits)
    qed
  qed
  then show ?thesis by (rule accountsI)
qed

end
