(* ===== verification/Http_Client.thy ===== *)
theory Http_Client
  imports Eval Same_Calls
begin

text \<open>
  \<open>C/http_client.c\<close>: the size of the request is computed first, then \<open>sprintf\<close> and \<open>strcat\<close> build the
  request in a block of that size, which is sent in as many writes as it takes; the answer is
  collected up to 4095 bytes.
\<close>

subsection \<open>The request\<close>

definition arg_or :: "string \<Rightarrow> string \<Rightarrow> string" where
  "arg_or s d = (if 0 < length s then s else d)"

text \<open>
  What is added to \<open>message_size\<close>, in order. The sum is an \<open>int\<close>: each \<open>+=\<close> adds a \<open>size_t\<close> and converts back.
\<close>

definition header_lens :: "string list \<Rightarrow> nat list" where
  "header_lens hs = map (\<lambda>h. length h + length crlf) hs"

definition message_lens :: "string list \<Rightarrow> nat list" where
  "message_lens argv =
     (if argv ! 3 = ''GET'' then
        [length (''%s %s%s%s HTTP/1.0'' @ crlf), length (argv ! 3), length (argv ! 4)] @
        (if length argv > 5 then [length (argv ! 5)] else []) @
        header_lens (drop 6 argv) @ [length crlf]
      else
        [length (''%s %s HTTP/1.0'' @ crlf), length (argv ! 3), length (argv ! 4)] @
        header_lens (drop 6 argv) @
        (if length argv > 5 then [length (''Content-Length: %d'' @ crlf) + 10] else []) @ [length crlf] @
        (if length argv > 5 then [length (argv ! 5)] else []))"

definition message_size :: "string list \<Rightarrow> int" where
  "message_size argv = foldl (\<lambda>size n. to_int32 (size + int n)) 0 (message_lens argv)"

text \<open>The argument of \<open>malloc\<close>: the \<open>int\<close> as a \<open>size_t\<close>.\<close>

definition as_size :: "int \<Rightarrow> nat" where
  "as_size v = unat (word_of_int v :: 64 word)"

fun put_headers :: "string list \<Rightarrow> buf \<Rightarrow> buf option" where
  "put_headers [] b = Some b"
| "put_headers (h # hs) b =
     Option.bind (strcat h b) (\<lambda>b. Option.bind (strcat crlf b) (put_headers hs))"

definition put_message :: "string list \<Rightarrow> buf \<Rightarrow> buf option" where
  "put_message argv message =
     (if argv ! 3 = ''GET'' then
        Option.bind
          (if length argv > 5 then
             put_cstr 0 (arg_or (argv ! 3) ''GET'' @ '' '' @ arg_or (argv ! 4) ''/'' @
               (if 0 < length (argv ! 5) then ''?'' else '''') @ (argv ! 5) @ '' HTTP/1.0'' @ crlf) message
           else
             put_cstr 0 (arg_or (argv ! 3) ''GET'' @ '' '' @ arg_or (argv ! 4) ''/'' @ '' HTTP/1.0'' @ crlf) message)
          (\<lambda>b. Option.bind (put_headers (drop 6 argv) b) (\<lambda>b. strcat crlf b))
      else
        Option.bind
          (put_cstr 0 (arg_or (argv ! 3) ''POST'' @ '' '' @ arg_or (argv ! 4) ''/'' @ '' HTTP/1.0'' @ crlf) message)
          (\<lambda>b. Option.bind (put_headers (drop 6 argv) b) (\<lambda>b. Option.bind
            (if length argv > 5 then
               put_cstr (length (cstr b)) (''Content-Length: '' @ show_int (int (length (argv ! 5))) @ crlf) b
             else Some b) (\<lambda>b. Option.bind (strcat crlf b) (\<lambda>b.
            if length argv > 5 then strcat (argv ! 5) b else Some b)))))"

subsection \<open>Sending and receiving\<close>

definition http_error :: "string \<Rightarrow> 'a io" where
  "http_error msg = perror msg (exit 1)"

text \<open>
  One turn of each \<open>do ... while\<close>; \<open>Inr\<close> ends the loop. The counts are of the type \<open>int\<close>. They stay below
  \<open>INT_MAX\<close>: a block that \<open>malloc\<close> gives has the size of a positive \<open>int\<close>, since a negative one asks
  for more bytes than an object can have (\<open>http_request_built\<close> below).
\<close>

definition send_body :: "int \<Rightarrow> string \<Rightarrow> nat \<Rightarrow> (nat + nat) io" where
  "send_body sockfd message sent =
     sys (Write sockfd (drop sent message)) (\<lambda>a.
       if rv a < 0 then http_error ''ERROR writing message to socket''
       else if rv a = 0 then ret (Inr sent)
       else let sent' = sent + nat (rv a)
            in if sent' < length message then ret (Inl sent') else ret (Inr sent'))"

definition RESPONSE_SIZE :: nat where "RESPONSE_SIZE = 4096"

definition recv_body :: "int \<Rightarrow> buf \<times> nat \<Rightarrow> (buf \<times> nat + buf \<times> nat) io" where
  "recv_body sockfd = (\<lambda>(response, received).
     sys (Read sockfd (RESPONSE_SIZE - 1 - received)) (\<lambda>a.
       if rv a < 0 then http_error ''ERROR reading response from socket''
       else if rv a = 0 then ret (Inr (response, received))
       else fits (store received (dat a) response) (\<lambda>response'.
         let received' = received + nat (rv a)
         in if received' < RESPONSE_SIZE - 1 then ret (Inl (response', received'))
            else ret (Inr (response', received')))))"

text \<open>\<open>memcpy\<close> of the first address of the host into the four bytes of \<open>sin_addr\<close>.\<close>

definition http_connect :: "string list \<Rightarrow> (int \<Rightarrow> 'a io) \<Rightarrow> 'a io" where
  "http_connect argv k =
     (let host = arg_or (argv ! 1) ''localhost'';
          port = (if atoi (argv ! 2) > 0 then atoi (argv ! 2) else 80)
      in sys (Socket AF_INET SOCK_STREAM 0) (\<lambda>s.
         if rv s < 0 then http_error ''ERROR opening socket''
         else sys (Gethostbyname host) (\<lambda>g.
           if rv g = 0 then http_error ''ERROR, no such host''
           else if length (ip g) > 4 then fault Overflow
           else sys (Connect (rv s) (Sin (htons (word_of_int port)) (take 4 (ip g @ htonl 0)))) (\<lambda>c.
             if rv c < 0 then http_error ''ERROR connecting'' else k (rv s)))))"

definition http_finish :: "int \<Rightarrow> buf \<times> nat \<Rightarrow> unit io" where
  "http_finish sockfd = (\<lambda>(response, received).
     if received = RESPONSE_SIZE - 1 then
       http_error ''ERROR storing complete response from socket''
     else sys (Close sockfd) (\<lambda>_.
       with_cstr response (\<lambda>r. printf ([LF] @ ''Response:'' @ [LF] @ r @ [LF]) (exit 0))))"

definition http_exchange :: "string \<Rightarrow> int \<Rightarrow> unit io" where
  "http_exchange message sockfd =
     bnd (loop (send_body sockfd message) 0) (\<lambda>_.
     bnd (loop (recv_body sockfd) (zeros RESPONSE_SIZE, 0)) (http_finish sockfd))"

text \<open>\<open>alloc\<close> is \<open>malloc\<close>: \<open>None\<close> is the null pointer, which is not tested and which \<open>sprintf\<close> writes to.\<close>

definition http_main :: "(nat \<Rightarrow> buf option) \<Rightarrow> string list \<Rightarrow> unit io" where
  "http_main alloc argv =
     (if length argv < 5 then
        arr_get argv 0 (\<lambda>name.
          printf (''USAGE : '' @ name @ '' <host> <port> <method> <path> [<data> [<headers>]]'') (exit 1))
      else
        case alloc (as_size (message_size argv)) of
          None \<Rightarrow> fault Null
        | Some block \<Rightarrow>
            fits (put_message argv block) (\<lambda>message.
            with_cstr message (\<lambda>s.
            printf ([LF] @ ''Request:'' @ [LF] @ s @ [LF])
            (http_connect argv (http_exchange s)))))"

subsection \<open>The text that is built\<close>

text \<open>The request as a text, which is what the buffer should hold.\<close>

definition headers_text :: "string list \<Rightarrow> string" where
  "headers_text hs = concat (map (\<lambda>h. h @ crlf) hs)"

definition request_text :: "string list \<Rightarrow> string" where
  "request_text argv =
     (let meth = argv ! 3; path = arg_or (argv ! 4) ''/''; data = argv ! 5; has_data = length argv > 5 in
      if meth = ''GET'' then
        ''GET '' @ path @ (if has_data \<and> data \<noteq> '''' then ''?'' @ data else '''') @ '' HTTP/1.0'' @ crlf @
        headers_text (drop 6 argv) @ crlf
      else
        arg_or meth ''POST'' @ '' '' @ path @ '' HTTP/1.0'' @ crlf @
        headers_text (drop 6 argv) @
        (if has_data then ''Content-Length: '' @ show_int (int (length data)) @ crlf else '''') @ crlf @
        (if has_data then data else ''''))"

text \<open>\<open>builds p n x\<close>: \<open>x\<close> is a buffer of \<open>n\<close> bytes with the text \<open>p\<close>, or the overflow if \<open>p\<close> does not fit.\<close>

definition builds :: "string \<Rightarrow> nat \<Rightarrow> buf option \<Rightarrow> bool" where
  "builds p n x \<longleftrightarrow>
     (case x of
        None \<Rightarrow> n \<le> length p
      | Some b \<Rightarrow> length p < n \<and> length b = n \<and> terminated b \<and> cstr b = p)"

lemma NUL_notin_crlf [simp]: "NUL \<notin> set crlf"
  by (simp add: crlf_def)

lemma builds_start: "length b = n \<Longrightarrow> NUL \<notin> set s \<Longrightarrow> builds s n (put_cstr 0 s b)"
  by (auto simp: builds_def put_cstr_0 terminated_def split: option.split)

lemma builds_strcat:
  assumes "builds p n x" and "NUL \<notin> set s"
  shows "builds (p @ s) n (Option.bind x (strcat s))"
proof (cases x)
  case (Some b)
  then have b: "length p < n" "length b = n" "terminated b" "cstr b = p"
    using assms(1) by (auto simp: builds_def)
  then show ?thesis
    using Some strcat_spec [OF b(3) assms(2)] assms(2) cstr_no_NUL [of b]
    by (auto simp: builds_def cstr_append terminated_def)
qed (use assms in \<open>simp add: builds_def\<close>)



lemma builds_headers:
  "builds p n x \<Longrightarrow> \<forall>h \<in> set hs. NUL \<notin> set h \<Longrightarrow>
    builds (p @ headers_text hs) n (Option.bind x (put_headers hs))"
proof (induction hs arbitrary: p x)
  case Nil
  then show ?case by (cases x) (simp_all add: headers_text_def)
next
  case (Cons h hs)
  have "builds ((p @ h) @ crlf) n (Option.bind (Option.bind x (strcat h)) (strcat crlf))"
    using Cons.prems by (intro builds_strcat) auto
  then have "builds (((p @ h) @ crlf) @ headers_text hs) n
      (Option.bind (Option.bind (Option.bind x (strcat h)) (strcat crlf)) (put_headers hs))"
    using Cons.prems by (intro Cons.IH) auto
  then show ?case by (cases x) (simp_all add: headers_text_def Option.bind_assoc)
qed

text \<open>The arguments are C strings.\<close>

definition c_args :: "string list \<Rightarrow> bool" where
  "c_args argv \<longleftrightarrow> (\<forall>a \<in> set argv. NUL \<notin> set a)"

lemma c_args_nth: "c_args argv \<Longrightarrow> i < length argv \<Longrightarrow> NUL \<notin> set (argv ! i)"
  by (simp add: c_args_def)

lemma c_args_drop: "c_args argv \<Longrightarrow> \<forall>h \<in> set (drop n argv). NUL \<notin> set h"
  by (auto simp: c_args_def dest: in_set_dropD)

lemma put_message_builds:
  assumes argc: "5 \<le> length argv" and args: "c_args argv" and len: "length block = n"
  shows "builds (request_text argv) n (put_message argv block)"
proof (cases "argv ! 3 = ''GET''")
  case True
  define line where "line = ''GET '' @ arg_or (argv ! 4) ''/'' @
    (if length argv > 5 \<and> argv ! 5 \<noteq> '''' then ''?'' @ argv ! 5 else '''') @ '' HTTP/1.0'' @ crlf"
  have "NUL \<notin> set line"
    using args argc c_args_nth [of argv 4] c_args_nth [of argv 5] by (auto simp: line_def arg_or_def)
  then have "builds line n (put_cstr 0 line block)" using len by (intro builds_start)
  then have "builds ((line @ headers_text (drop 6 argv)) @ crlf) n
      (Option.bind (Option.bind (put_cstr 0 line block) (put_headers (drop 6 argv))) (strcat crlf))"
    using args by (intro builds_strcat builds_headers c_args_drop) simp_all
  moreover have "put_message argv block =
      Option.bind (Option.bind (put_cstr 0 line block) (put_headers (drop 6 argv))) (strcat crlf)"
    using True by (auto simp: put_message_def line_def arg_or_def Option.bind_assoc)
  moreover have "request_text argv = (line @ headers_text (drop 6 argv)) @ crlf"
    using True by (simp add: request_text_def line_def Let_def)
  ultimately show ?thesis by simp
next
  case False
  define line where "line = arg_or (argv ! 3) ''POST'' @ '' '' @ arg_or (argv ! 4) ''/'' @ '' HTTP/1.0'' @ crlf"
  define x1 where "x1 = Option.bind (put_cstr 0 line block) (put_headers (drop 6 argv))"
  have ok: "NUL \<notin> set line"
    using args argc c_args_nth [of argv 3] c_args_nth [of argv 4] by (auto simp: line_def arg_or_def)
  then have "builds line n (put_cstr 0 line block)" using len by (intro builds_start)
  then have 1: "builds (line @ headers_text (drop 6 argv)) n x1"
    unfolding x1_def using args by (intro builds_headers c_args_drop)
  show ?thesis
  proof (cases "length argv > 5")
    case True
    define cl where "cl = ''Content-Length: '' @ show_int (int (length (argv ! 5))) @ crlf"
    have "NUL \<notin> set cl" "NUL \<notin> set (argv ! 5)" using True args by (auto simp: cl_def c_args_nth)
    then have "builds ((((line @ headers_text (drop 6 argv)) @ cl) @ crlf) @ (argv ! 5)) n
        (Option.bind (Option.bind (Option.bind x1 (strcat cl)) (strcat crlf)) (strcat (argv ! 5)))"
      by (intro builds_strcat 1) simp_all
    moreover have "Option.bind x1 (\<lambda>b. put_cstr (length (cstr b)) cl b) = Option.bind x1 (strcat cl)"
      using 1 by (cases x1) (auto simp: builds_def strcat_def)
    moreover have "put_message argv block = Option.bind (Option.bind (Option.bind x1
        (\<lambda>b. put_cstr (length (cstr b)) cl b)) (strcat crlf)) (strcat (argv ! 5))"
      using True False unfolding put_message_def x1_def line_def [symmetric] cl_def [symmetric]
      by (simp add: Option.bind_assoc)
    moreover have "request_text argv = (((line @ headers_text (drop 6 argv)) @ cl) @ crlf) @ (argv ! 5)"
      using True False by (simp add: request_text_def line_def cl_def Let_def)
    ultimately show ?thesis by simp
  next
    case short: False
    have "builds ((line @ headers_text (drop 6 argv)) @ crlf) n (Option.bind x1 (strcat crlf))"
      by (intro builds_strcat 1) simp
    moreover have "put_message argv block = Option.bind x1 (strcat crlf)"
      using short False unfolding put_message_def x1_def line_def [symmetric]
      by (simp add: Option.bind_assoc)
    moreover have "request_text argv = (line @ headers_text (drop 6 argv)) @ crlf"
      using short False by (simp add: request_text_def line_def Let_def)
    ultimately show ?thesis by simp
  qed
qed

text \<open>The sum without wrap-around, and what the \<open>int\<close> makes of it.\<close>

definition message_total :: "string list \<Rightarrow> nat" where
  "message_total argv = sum_list (message_lens argv)"

lemma to_int32_add: "to_int32 (to_int32 a + b) = to_int32 (a + b)"
  unfolding to_int32_def by (simp only: of_int_add of_int_sint scast_id)

lemma message_size_wraps: "message_size argv = to_int32 (int (message_total argv))"
proof -
  have "foldl (\<lambda>size n. to_int32 (size + int n)) (to_int32 v) ns = to_int32 (v + int (sum_list ns))" for v ns
    by (induction ns arbitrary: v) (simp_all add: to_int32_add add.assoc)
  from this [of 0] show ?thesis by (simp add: message_size_def message_total_def in_int_def INT_MAX_def INT_MIN_def)
qed

lemma message_size_exact: "int (message_total argv) \<le> INT_MAX \<Longrightarrow> message_size argv = int (message_total argv)"
  by (simp add: message_size_wraps in_int_def INT_MIN_def)

lemma to_int32_bounds: "in_int (to_int32 v)"
  using sint_greater_eq [of "word_of_int v :: 32 word"] sint_less [of "word_of_int v :: 32 word"]
  by (simp add: to_int32_def in_int_def INT_MAX_def INT_MIN_def)

lemma to_int32_beyond: "INT_MAX < v \<Longrightarrow> to_int32 v + 2 ^ 32 \<le> v"
proof -
  assume v: "INT_MAX < v"
  have "take_bit 32 v = take_bit 32 (to_int32 v)"
    by (simp add: to_int32_def signed_of_int take_bit_signed_take_bit)
  then have "2 ^ 32 dvd v - to_int32 v" by (simp only: take_bit_eq_mod mod_eq_dvd_iff)
  moreover have "0 < v - to_int32 v" using v to_int32_bounds [of v] by (simp add: in_int_def)
  ultimately have "2 ^ 32 \<le> v - to_int32 v" by (rule zdvd_imp_le)
  then show ?thesis by simp
qed

lemma as_size_positive: "0 \<le> v \<Longrightarrow> in_int v \<Longrightarrow> as_size v = nat v"
  by (simp add: as_size_def in_int_def INT_MAX_def unat_eq_nat_uint uint_word_of_int)

lemma as_size_negative:
  assumes "v < 0" and "in_int v"
  shows "2 ^ 63 \<le> as_size v"
proof -
  have "v mod 2 ^ 64 = (v + 2 ^ 64) mod 2 ^ 64" by simp
  also have "\<dots> = v + 2 ^ 64" using assms by (intro mod_pos_pos_trivial) (simp_all add: in_int_def INT_MIN_def)
  finally have "as_size v = nat (v + 2 ^ 64)" by (simp add: as_size_def unat_eq_nat_uint uint_word_of_int)
  moreover have "(2 ^ 63 :: int) \<le> v + 2 ^ 64" using assms by (simp add: in_int_def INT_MIN_def)
  then have "nat (2 ^ 63) \<le> nat (v + 2 ^ 64)" by (rule nat_mono)
  ultimately show ?thesis by simp
qed

text \<open>The size computed is enough, but for one case.\<close>

lemma headers_size: "length (headers_text hs) = sum_list (header_lens hs)" "header_lens [] = []"
  by (induction hs) (simp_all add: headers_text_def header_lens_def)

lemma request_length:
  assumes argc: "5 \<le> length argv"
  shows "message_total argv \<le> length (request_text argv) + 40"
  using argc
  by (auto simp: request_text_def message_total_def message_lens_def headers_size arg_or_def Let_def crlf_def)

lemma message_fits:
  assumes argc: "5 \<le> length argv" and small: "int (message_total argv) \<le> INT_MAX"
  shows "length (request_text argv) < message_total argv \<longleftrightarrow> \<not> (argv ! 3 = '''' \<and> length argv = 5)"
proof -
  have "length (show_int (int (length (argv ! 5)))) \<le> 10" if "length argv > 5"
  proof -
    have "length (argv ! 5) \<le> message_total argv" using that by (auto simp: message_total_def message_lens_def)
    then have "length (dec (length (argv ! 5))) \<le> 10"
      using small by (intro length_dec) (auto simp: INT_MAX_def)
    then show ?thesis by (simp add: show_int_def)
  qed
  moreover have "drop 6 argv = []" if "length argv = 5" using that by simp
  ultimately show ?thesis
    using argc
    by (auto simp: request_text_def message_total_def message_lens_def headers_size arg_or_def Let_def crlf_def)
qed

subsection \<open>The two loops\<close>

text \<open>A write that took nothing, which ends the sending.\<close>

fun is_zero_write :: "event \<Rightarrow> bool" where
  "is_zero_write (Call (Transfer _ (WRITE bs)) a) = (rv a = 0)"
| "is_zero_write _ = False"

definition zero_write :: "event list \<Rightarrow> bool" where
  "zero_write t = list_ex is_zero_write t"

lemma zero_write_simps [simp]:
  "\<not> zero_write []" "zero_write (e # t) \<longleftrightarrow> is_zero_write e \<or> zero_write t"
  "zero_write (s @ t) \<longleftrightarrow> zero_write s \<or> zero_write t"
  by (auto simp: zero_write_def)

definition plain_stop :: "'a result \<Rightarrow> bool" where
  "plain_stop r \<longleftrightarrow> (\<forall>z. r = Stop z \<longrightarrow> z = Exit 1 \<or> z = Blocked \<or> z = Diverge)"

lemma plain_stop_simps [simp]:
  "plain_stop (Ret x)" "plain_stop (Stop z) \<longleftrightarrow> z = Exit 1 \<or> z = Blocked \<or> z = Diverge"
  by (simp_all add: plain_stop_def)

definition sent_ok :: "int \<Rightarrow> string \<Rightarrow> nat result \<Rightarrow> event list \<Rightarrow> bool" where
  "sent_ok sockfd msg r h \<longleftrightarrow>
     plain_stop r \<and> printed h = [] \<and> prefix (written sockfd h) msg \<and>
     (\<forall>s. s \<noteq> sockfd \<longrightarrow> written s h = []) \<and> (\<forall>s. received s h = []) \<and>
     (\<forall>n. r = Ret n \<longrightarrow> written sockfd h = msg \<or> zero_write h)"

interpretation http_send: loop_contract "send_body sockfd msg"
    "\<lambda>fds sent h. sent \<le> length msg \<and> written sockfd h = take sent msg \<and> printed h = [] \<and>
      (\<forall>s. s \<noteq> sockfd \<longrightarrow> written s h = []) \<and> (\<forall>s. received s h = [])"
    "sent_ok sockfd msg" for sockfd msg
proof
  fix fds sent h
  assume inv: "sent \<le> length msg \<and> written sockfd h = take sent msg \<and> printed h = [] \<and>
      (\<forall>s. s \<noteq> sockfd \<longrightarrow> written s h = []) \<and> (\<forall>s. received s h = [])"
  have step: "take sent msg @ take k (drop sent msg) = take (sent + k) msg" for k
    by (simp add: take_add)
  show "vld fds (send_body sockfd msg sent) (\<lambda>r t. case r of
      Ret (Inl s') \<Rightarrow> s' \<le> length msg \<and> written sockfd (h @ t) = take s' msg \<and> printed (h @ t) = [] \<and>
        (\<forall>s. s \<noteq> sockfd \<longrightarrow> written s (h @ t) = []) \<and> (\<forall>s. received s (h @ t) = [])
    | Ret (Inr x) \<Rightarrow> sent_ok sockfd msg (Ret x) (h @ t)
    | Stop z \<Rightarrow> sent_ok sockfd msg (Stop z) (h @ t))"
    using inv
    by (auto simp: send_body_def http_error_def io_simps Let_def sent_ok_def sys_ok_def take_is_prefix step)
  show "sent_ok sockfd msg (Stop Diverge) h"
    using inv by (auto simp: sent_ok_def take_is_prefix)
qed

definition got_ok :: "int \<Rightarrow> (buf \<times> nat) result \<Rightarrow> event list \<Rightarrow> bool" where
  "got_ok sockfd r h \<longleftrightarrow>
     plain_stop r \<and> printed h = [] \<and> (\<forall>s. written s h = []) \<and>
     (\<forall>resp n. r = Ret (resp, n) \<longrightarrow> n \<le> RESPONSE_SIZE - 1 \<and> n = length (received sockfd h) \<and>
        resp = received sockfd h @ zeros (RESPONSE_SIZE - n))"

lemma store_next:
  assumes "n + length bs \<le> N"
  shows "length p = n \<Longrightarrow> store n bs (p @ zeros (N - n)) = Some ((p @ bs) @ zeros (N - (n + length bs)))"
  using assms by (auto simp: store_def zeros_def)

definition recv_inv :: "int \<Rightarrow> buf \<times> nat \<Rightarrow> event list \<Rightarrow> bool" where
  "recv_inv sockfd s h \<longleftrightarrow>
     snd s < RESPONSE_SIZE - 1 \<and> snd s = length (received sockfd h) \<and>
     fst s = received sockfd h @ zeros (RESPONSE_SIZE - snd s) \<and> printed h = [] \<and> (\<forall>s. written s h = [])"

interpretation http_recv: loop_contract "recv_body sockfd" "\<lambda>fds. recv_inv sockfd" "got_ok sockfd" for sockfd
proof
  fix fds and s :: "buf \<times> nat" and h
  assume inv: "recv_inv sockfd s h"
  define p where "p = received sockfd h"
  have s: "s = (p @ zeros (RESPONSE_SIZE - length p), length p)" and p: "length p < RESPONSE_SIZE - 1"
    and h: "printed h = []" "\<And>s. written s h = []"
    using inv by (auto simp: recv_inv_def p_def prod_eq_iff)
  have fits: "store (length p) bs (p @ zeros (RESPONSE_SIZE - length p)) =
      Some ((p @ bs) @ zeros (RESPONSE_SIZE - (length p + length bs)))"
    if "length bs \<le> RESPONSE_SIZE - 1 - length p" for bs
    using store_next [of "length p" bs RESPONSE_SIZE p] that p by auto
  show "vld fds (recv_body sockfd s) (\<lambda>r t. case r of
      Ret (Inl s') \<Rightarrow> recv_inv sockfd s' (h @ t)
    | Ret (Inr x) \<Rightarrow> got_ok sockfd (Ret x) (h @ t)
    | Stop z \<Rightarrow> got_ok sockfd (Stop z) (h @ t))"
    using p
    by (auto simp: s recv_body_def http_error_def io_simps Let_def got_ok_def sys_ok_def recv_inv_def
        fits h p_def [symmetric])
  show "got_ok sockfd (Stop Diverge) h"
    using inv by (auto simp: got_ok_def recv_inv_def)
qed

subsection \<open>The program\<close>

definition http_post :: "string list \<Rightarrow> unit result \<Rightarrow> event list \<Rightarrow> bool" where
  "http_post argv r t \<longleftrightarrow>
     (\<forall>s. prefix (written s t) (request_text argv)) \<and> (\<forall>f. r \<noteq> Stop (Fault f)) \<and>
     (r = Stop (Exit 0) \<longrightarrow>
       (\<exists>s. (written s t = request_text argv \<or> zero_write t) \<and> length (received s t) < 4095 \<and>
          printed t = [[LF] @ ''Request:'' @ [LF] @ request_text argv @ [LF],
                       [LF] @ ''Response:'' @ [LF] @ cstr (received s t) @ [LF]]))"

lemma prefix_of_only:
  assumes "prefix (written sockfd h) msg" and "\<forall>s. s \<noteq> sockfd \<longrightarrow> written s h = []"
  shows "prefix (written s h) msg"
  using assms by (cases "s = sockfd") auto

lemma http_exchange_ok:
  assumes req: "msg = request_text argv"
  shows "vld fds (http_exchange msg sockfd) (\<lambda>r t. http_post argv r
    (Out ([LF] @ ''Request:'' @ [LF] @ msg @ [LF]) # Call (Socket f ty n) a #
      Call (Gethostbyname host) g # Call (Connect sockfd' sa) c # t))"
  (is "vld fds _ ?Q")
  unfolding http_exchange_def
proof (rule vld_bnd_use [OF http_send.loop_post])
  fix sent t
  assume sent: "sent_ok sockfd msg (Ret sent) t"
  show "vld (fds_run fds t) (bnd (loop (recv_body sockfd) (zeros RESPONSE_SIZE, 0)) (http_finish sockfd))
      (\<lambda>r t'. ?Q r (t @ t'))"
  proof (rule vld_bnd_use [OF http_recv.loop_post])
    show "recv_inv sockfd (zeros RESPONSE_SIZE, 0) []"
      by (simp add: recv_inv_def RESPONSE_SIZE_def)
  next
    fix x t2
    assume got: "got_ok sockfd (Ret x) t2"
    obtain resp n where x: "x = (resp, n)" by (cases x)
    have n: "n \<le> 4095" "length (received sockfd t2) = n" "resp = received sockfd t2 @ zeros (4096 - n)"
      using got by (auto simp: got_ok_def x RESPONSE_SIZE_def)
    then have "terminated resp" "cstr resp = cstr (received sockfd t2)" by simp_all
    then show "vld (fds_run (fds_run fds t) t2) (http_finish sockfd x) (\<lambda>r t'. ?Q r (t @ t2 @ t'))"
      using sent got n prefix_of_only [of sockfd t msg]
      by (auto simp: x http_finish_def http_error_def io_simps http_post_def RESPONSE_SIZE_def sent_ok_def
          got_ok_def req intro!: exI [of _ sockfd])
  next
    fix z t2
    assume "got_ok sockfd (Stop z) t2"
    then show "?Q (Stop z) (t @ t2)"
      using sent prefix_of_only [of sockfd t msg] by (auto simp: http_post_def sent_ok_def got_ok_def req)
  qed
next
  fix z t
  assume "sent_ok sockfd msg (Stop z) t"
  then show "?Q (Stop z) t"
    using prefix_of_only [of sockfd t msg] by (auto simp: http_post_def sent_ok_def req)
qed simp

lemma as_size_total: "int (message_total argv) \<le> INT_MAX \<Longrightarrow> as_size (message_size argv) = message_total argv"
  by (simp add: message_size_exact as_size_positive in_int_def INT_MIN_def)

lemma http_main_ok:
  assumes argc: "5 \<le> length argv" and args: "c_args argv"
    and small: "int (message_total argv) \<le> INT_MAX"
    and alloc: "alloc (as_size (message_size argv)) = Some block" "length block = as_size (message_size argv)"
    and ne: "\<not> (argv ! 3 = '''' \<and> length argv = 5)"
  shows "vld fds (http_main alloc argv) (http_post argv)"
proof -
  have "builds (request_text argv) (message_total argv) (put_message argv block)"
    using put_message_builds [OF argc args alloc(2)] small as_size_total [OF small] by simp
  moreover have "length (request_text argv) < message_total argv"
    using message_fits [OF argc small] ne by simp
  ultimately obtain b where b: "put_message argv block = Some b" "terminated b" "cstr b = request_text argv"
    by (cases "put_message argv block") (auto simp: builds_def)
  have early: "http_post argv (Stop z) (Out s # t)"
    if "z = Exit 1 \<or> z = Blocked" "\<And>s. written s t = []" for z s t
    using that by (auto simp: http_post_def)
  have "http_main alloc argv = printf ([LF] @ ''Request:'' @ [LF] @ request_text argv @ [LF])
      (http_connect argv (http_exchange (request_text argv)))"
    using argc alloc b by (simp add: http_main_def fits_def with_cstr_def)
  then show ?thesis
    by (auto simp: http_connect_def http_error_def io_simps Let_def sys_ok_def
        intro!: early http_exchange_ok [simplified])
qed

subsection \<open>Properties\<close>

text \<open>
  C9: The size computed for the request is right, up to two cases. For every list of C strings as
  arguments, as long as the lengths add up to at most \<open>INT_MAX\<close>, the \<open>int\<close> \<open>message_size\<close> is their sum, and the
  calls of \<open>sprintf\<close> and \<open>strcat\<close> build exactly the request, with its method, path, query string or content
  length and body, and every header, inside the block; only an empty method without data overruns it.
  A larger sum wraps around: to a size that is too small, and the block is overrun, or to a negative one,
  with which \<open>malloc\<close> is asked for \<open>2 ^ 63\<close> bytes or more.
\<close>

theorem http_request_built:
  assumes "5 \<le> length argv" and "c_args argv" and "length block = as_size (message_size argv)"
  shows "if int (message_total argv) \<le> INT_MAX then
      message_size argv = int (message_total argv) \<and>
      (if argv ! 3 = '''' \<and> length argv = 5 then put_message argv block = None
       else \<exists>b. put_message argv block = Some b \<and> length b = message_total argv \<and> terminated b \<and>
         cstr b = request_text argv)
    else if 0 \<le> message_size argv then put_message argv block = None
    else 2 ^ 63 \<le> length block"
proof -
  note built = put_message_builds [OF assms(1,2,3)]
  show ?thesis
  proof (cases "int (message_total argv) \<le> INT_MAX")
    case True
    have "length block = message_total argv" using assms(3) as_size_total [OF True] by simp
    then show ?thesis using built message_fits [OF assms(1) True] message_size_exact [OF True] True assms(3)
      by (cases "put_message argv block") (auto simp: builds_def)
  next
    case False
    have int: "in_int (message_size argv)" by (simp add: message_size_wraps to_int32_bounds)
    have "message_size argv + 2 ^ 32 \<le> int (message_total argv)"
      using to_int32_beyond False by (simp add: message_size_wraps)
    then have "put_message argv block = None" if "0 \<le> message_size argv"
      using built request_length [OF assms(1)] that as_size_positive [OF that int] assms(3)
      by (cases "put_message argv block") (auto simp: builds_def)
    then show ?thesis using False as_size_negative [OF _ int] assms(3) by auto
  qed
qed

definition post_args :: "string list" where
  "post_args = [''http_client'', ''localhost'', ''80'', ''POST'', '''', ''a=1'', ''X: y'']"

theorem http_request_built_witness:
  "\<exists>b. put_message post_args (zeros 61) = Some b \<and> message_size post_args = 61 \<and>
     cstr b = ''POST / HTTP/1.0'' @ crlf @ ''X: y'' @ crlf @ ''Content-Length: 3'' @ crlf @ crlf @ ''a=1''"
proof -
  have req: "request_text post_args =
      ''POST / HTTP/1.0'' @ crlf @ ''X: y'' @ crlf @ ''Content-Length: 3'' @ crlf @ crlf @ ''a=1''"
    by (simp add: request_text_def post_args_def headers_text_def arg_or_def run_simps)
  have total: "message_total post_args = 61"
    by (simp add: message_total_def message_lens_def header_lens_def post_args_def crlf_def)
  then have small: "int (message_total post_args) \<le> INT_MAX" by (simp add: INT_MAX_def)
  have "length (zeros 61) = as_size (message_size post_args)" using as_size_total [OF small] total by simp
  from http_request_built [OF _ _ this] small total req show ?thesis
    by (auto simp: post_args_def c_args_def)
qed

lemma http_request_overrun:
  assumes "length argv = 5" and "argv ! 3 = ''''" and "c_args argv" and "int (message_total argv) \<le> INT_MAX"
    and "length block = as_size (message_size argv)"
  shows "put_message argv block = None"
  using put_message_builds [OF _ assms(3,5)] message_fits [OF _ assms(4)] assms(1,2,5) as_size_total [OF assms(4)]
  by (cases "put_message argv block") (auto simp: builds_def)

text \<open>
  The client overruns its buffer when it is called with an empty method and no data: the
  default \<open>POST\<close> is four bytes longer than what was counted, and the program writes past the block it
  allocated before it makes any call.
\<close>

theorem http_empty_method_overflows:
  assumes "length argv = 5" and "argv ! 3 = ''''" and "c_args argv" and "int (message_total argv) \<le> INT_MAX"
    and "alloc (as_size (message_size argv)) = Some block" and "length block = as_size (message_size argv)"
  shows "http_main alloc argv rs = (Stop (Fault Overflow), [], rs)"
proof -
  have "put_message argv block = None"
    using http_request_overrun [OF assms(1-4,6)] by simp
  then show ?thesis using assms by (simp add: http_main_def fits_def stop_def)
qed

theorem http_empty_method_overflows_witness:
  "http_main (\<lambda>n. Some (zeros n)) [''http_client'', ''localhost'', ''80'', '''', ''/''] [] =
     (Stop (Fault Overflow), [], [])"
  by (rule http_empty_method_overflows [where block = "zeros (as_size (message_size _))"])
    (simp_all add: c_args_def message_total_def message_lens_def header_lens_def crlf_def INT_MAX_def)

text \<open>
  C6: What the client does with the request and the answer, when the lengths of its arguments add up to at
  most \<open>INT_MAX\<close> and the method is not empty or there is data. When \<open>malloc\<close> gives no block, it writes to the
  null pointer before it makes any call. Else no run faults; in every run it writes to the socket, in
  however many pieces the kernel takes, a prefix of the request; and a run that ends with success has sent
  the whole request (or a write took nothing) and prints the request and then the answer, which is
  everything it read, less than 4095 bytes, up to a NUL.
\<close>

theorem http_client_exchange:
  assumes "http_main alloc argv rs = (r, t, rs')" and "conforms fds t"
    and "5 \<le> length argv" and "c_args argv" and "int (message_total argv) \<le> INT_MAX"
    and "\<not> (argv ! 3 = '''' \<and> length argv = 5)"
    and malloc: "\<And>n b. alloc n = Some b \<Longrightarrow> length b = n"
  shows "if alloc (message_total argv) = None then r = Stop (Fault Null) \<and> t = []
    else (\<forall>s. prefix (written s t) (request_text argv)) \<and> (\<forall>f. r \<noteq> Stop (Fault f)) \<and>
      (r = Stop (Exit 0) \<longrightarrow>
        (\<exists>s. (written s t = request_text argv \<or> zero_write t) \<and> length (received s t) < 4095 \<and>
           printed t = [[LF] @ ''Request:'' @ [LF] @ request_text argv @ [LF],
                        [LF] @ ''Response:'' @ [LF] @ cstr (received s t) @ [LF]]))"
proof (cases "alloc (message_total argv)")
  case None
  then show ?thesis using assms(1,3) by (simp add: http_main_def as_size_total [OF assms(5)] stop_def)
next
  case (Some block)
  then have "alloc (as_size (message_size argv)) = Some block" "length block = as_size (message_size argv)"
    using malloc [OF Some] by (simp_all add: as_size_total [OF assms(5)])
  from vldD [OF http_main_ok [where alloc = alloc, OF assms(3,4,5) this assms(6)] assms(1,2)] Some show ?thesis
    unfolding http_post_def by simp
qed

definition get_args :: "string list" where
  "get_args = [''http_client'', ''localhost'', ''80'', ''GET'', ''/x'']"

definition get_script :: "reply list" where
  "get_script = [ok 3, (ok 1)\<lparr>ip := [127, 0, 0, 1]\<rparr>, ok 0, ok 10, ok 9, got ''200 '', got ''OK'', got '''', ok 0]"

theorem http_client_exchange_witness:
  "case http_main (\<lambda>n. Some (zeros n)) get_args get_script of (r, t, rs) \<Rightarrow>
     r = Stop (Exit 0) \<and> conforms {0, 1, 2} t \<and>
     (\<exists>s. (written s t = request_text get_args \<or> zero_write t) \<and> length (received s t) < 4095)"
proof -
  obtain r t rs where run: "http_main (\<lambda>n. Some (zeros n)) get_args get_script = (r, t, rs)"
    by (cases "http_main (\<lambda>n. Some (zeros n)) get_args get_script") auto
  have total: "message_total get_args = 27"
    by (simp add: message_total_def message_lens_def header_lens_def get_args_def crlf_def)
  then have small: "int (message_total get_args) \<le> INT_MAX" by (simp add: INT_MAX_def)
  have "case http_main (\<lambda>n. Some (zeros n)) get_args get_script of (r, t, rs) \<Rightarrow>
      r = Stop (Exit 0) \<and> conforms {0, 1, 2} t"
    unfolding http_main_def as_size_total [OF small] total
    by (simp add: run_simps http_connect_def http_exchange_def http_finish_def send_body_def
        recv_body_def put_message_def arg_or_def strcat_def crlf_def
        get_args_def get_script_def RESPONSE_SIZE_def cong: lazy)
  with run have 1: "r = Stop (Exit 0)" "conforms {0, 1, 2} t" by simp_all
  have "5 \<le> length get_args" "c_args get_args" "\<not> (get_args ! 3 = '''' \<and> length get_args = 5)"
    by (simp_all add: get_args_def c_args_def)
  from http_client_exchange [OF run 1(2) this(1,2) small this(3)] run 1 show ?thesis by auto
qed

text \<open>The rest of a message goes out when every write takes something.\<close>

lemma send_rest:
  assumes "loop (send_body sockfd msg) sent rs = (r, t, rs')" and "conforms fds t"
    and "sent < length msg" and "length msg \<le> sent + length rs" and "\<forall>a \<in> set rs. 0 < rv a"
  shows "r = Ret (length msg) \<and> written sockfd t = drop sent msg"
  using assms
proof (induction rs arbitrary: sent t fds)
  case (Cons a rs)
  have pos: "0 < rv a" using Cons.prems(5) by simp
  let ?next = "sent + nat (rv a)"
  have "send_body sockfd msg sent (a # rs) =
      (Ret (if ?next < length msg then Inl ?next else Inr ?next), [Call (Write sockfd (drop sent msg)) a], rs)"
    using pos by (simp add: send_body_def run_ops Let_def)
  then obtain t' where t: "t = Call (Write sockfd (drop sent msg)) a # t'"
    and rest: "if ?next < length msg then loop (send_body sockfd msg) ?next rs = (r, t', rs')
      else r = Ret ?next \<and> t' = []"
    using Cons.prems(1) by (auto simp: loop.simps [of _ sent] split: if_splits prod.splits)
  with Cons.prems(2) have le: "?next \<le> length msg" and c: "conforms (fds_after fds (Write sockfd (drop sent msg)) a) t'"
    using Cons.prems(3) by (auto simp: sys_ok_def)
  have cut: "take (nat (rv a)) (drop sent msg) @ drop ?next msg = drop sent msg"
    by (metis append_take_drop_id drop_drop add.commute)
  show ?case
  proof (cases "?next < length msg")
    case True
    with rest have "loop (send_body sockfd msg) ?next rs = (r, t', rs')" by simp
    from Cons.IH [OF this c True] Cons.prems(4,5) pos t cut show ?thesis by simp
  next
    case False
    with le have "?next = length msg" by simp
    with rest t cut show ?thesis by simp
  qed
qed simp

text \<open>
  C28: The send loop of the client gets to its end: whatever sizes the kernel cuts the request into, as long
  as each write takes at least one byte and the kernel goes on replying, the loop returns after at most as
  many writes as the request has bytes, with the whole request written.
\<close>

theorem http_send_completes:
  assumes "loop (send_body sockfd msg) 0 rs = (r, t, rs')" and "conforms fds t"
    and "msg \<noteq> []" and "length msg \<le> length rs" and "\<forall>a \<in> set rs. 0 < rv a"
  shows "r = Ret (length msg) \<and> written sockfd t = msg"
  using send_rest [OF assms(1,2)] assms(3-) by simp

theorem http_send_completes_witness:
  "case loop (send_body 3 ''GET'') 0 [ok 2, ok 1, ok 1] of (r, t, rs) \<Rightarrow>
     conforms {0, 1, 2, 3} t \<and> r = Ret 3 \<and> written 3 t = ''GET'' \<and> length t = 2"
proof -
  obtain r t rs where run: "loop (send_body 3 ''GET'') 0 [ok 2, ok 1, ok 1] = (r, t, rs)"
    by (cases "loop (send_body 3 ''GET'') 0 [ok 2, ok 1, ok 1]") auto
  have "case loop (send_body 3 ''GET'') 0 [ok 2, ok 1, ok 1] of (r, t, rs) \<Rightarrow> conforms {0, 1, 2, 3} t \<and> length t = 2"
    by (simp add: run_simps send_body_def cong: lazy)
  with run have 1: "conforms {0, 1, 2, 3} t" "length t = 2" by simp_all
  from http_send_completes [OF run 1(1)] 1 run show ?thesis by (simp add: ok_def)
qed

text \<open>Every turn makes a call; and how many calls the two loops make.\<close>

interpretation send_busy: busy_loop "send_body fd message" for fd message
  by unfold_locales (unfold send_body_def http_error_def Let_def, intro busy_intros steady_intros; simp)

interpretation recv_busy: busy_loop "recv_body fd" for fd
  unfolding recv_body_def case_prod_unfold
  by (unfold_locales; unfold http_error_def Let_def; intro busy_intros steady_intros; simp)

lemma http_steady: "steady (http_main new argv)"
  unfolding http_main_def http_connect_def http_exchange_def http_finish_def http_error_def Let_def case_prod_unfold
  by (auto split: option.split intro!: steady_intros send_busy.loop_steady recv_busy.loop_steady)

interpretation send_calls: loop_contract "send_body sockfd msg"
    "\<lambda>fds sent h. sent < length msg \<and> length (sys_calls h) \<le> sent" "\<lambda>r h. length (sys_calls h) \<le> length msg" for sockfd msg
  by unfold_locales (auto simp: send_body_def http_error_def io_simps Let_def sys_ok_def)

interpretation recv_calls: loop_contract "recv_body sockfd"
    "\<lambda>fds s h. snd s < RESPONSE_SIZE - 1 \<and> length (sys_calls h) \<le> snd s" "\<lambda>r h. length (sys_calls h) \<le> RESPONSE_SIZE - 1"
    for sockfd
proof
  fix fds and s :: "buf \<times> nat" and h
  assume inv: "snd s < RESPONSE_SIZE - 1 \<and> length (sys_calls h) \<le> snd s"
  obtain b n where s: "s = (b, n)" by (cases s)
  show "vld fds (recv_body sockfd s) (\<lambda>r t. case r of
      Ret (Inl s') \<Rightarrow> snd s' < RESPONSE_SIZE - 1 \<and> length (sys_calls (h @ t)) \<le> snd s'
    | Ret (Inr x) \<Rightarrow> length (sys_calls (h @ t)) \<le> RESPONSE_SIZE - 1
    | Stop z \<Rightarrow> length (sys_calls (h @ t)) \<le> RESPONSE_SIZE - 1)"
    using inv by (auto simp: s recv_body_def http_error_def io_simps Let_def sys_ok_def)
qed simp

lemma exchange_calls:
  assumes "msg \<noteq> []"
  shows "vld fds (http_exchange msg sockfd)
    (\<lambda>r t. length (sys_calls t) \<le> length msg + RESPONSE_SIZE \<and> (\<forall>x. r \<noteq> Ret x))"
  unfolding http_exchange_def
proof (rule vld_bnd_use [OF send_calls.loop_post])
  fix x t
  assume t: "length (sys_calls t) \<le> length msg"
  show "vld (fds_run fds t) (bnd (loop (recv_body sockfd) (zeros RESPONSE_SIZE, 0)) (http_finish sockfd))
      (\<lambda>r t'. length (sys_calls (t @ t')) \<le> length msg + RESPONSE_SIZE \<and> (\<forall>x. r \<noteq> Ret x))"
  proof (rule vld_bnd_use [OF recv_calls.loop_post])
    fix x t2
    assume "length (sys_calls t2) \<le> RESPONSE_SIZE - 1"
    then show "vld (fds_run (fds_run fds t) t2) (http_finish sockfd x)
        (\<lambda>r t'. length (sys_calls (t @ t2 @ t')) \<le> length msg + RESPONSE_SIZE \<and> (\<forall>x. r \<noteq> Ret x))"
      using t by (cases x) (auto simp: http_finish_def http_error_def io_simps RESPONSE_SIZE_def)
  qed (use t in \<open>auto simp: RESPONSE_SIZE_def\<close>)
qed (use assms in \<open>auto simp: RESPONSE_SIZE_def\<close>)

lemma main_calls:
  assumes "5 \<le> length argv" and "c_args argv" and "\<And>n b. alloc n = Some b \<Longrightarrow> length b = n"
  shows "vld fds (http_main alloc argv)
    (\<lambda>r t. length (sys_calls t) \<le> length (request_text argv) + 4099 \<and> (\<forall>x. r \<noteq> Ret x))"
proof -
  have ne: "request_text argv \<noteq> []" by (simp add: request_text_def Let_def)
  have cs: "cstr b = request_text argv"
    if "alloc (as_size (message_size argv)) = Some block" "put_message argv block = Some b" for block b
    using put_message_builds [OF assms(1,2) assms(3) [OF that(1)]] that(2) by (simp add: builds_def)
  have go: "vld fds' (http_exchange (request_text argv) s)
      (\<lambda>r t. length (sys_calls t) \<le> length (request_text argv) + 4096 \<and> (\<forall>x. r \<noteq> Ret x))" for fds' s
    using exchange_calls [OF ne] by (simp add: RESPONSE_SIZE_def)
  show ?thesis
    using assms(1) unfolding http_main_def
    by (auto simp: io_simps http_connect_def http_error_def Let_def cs split: option.split intro!: vld_mono [OF go])
qed

lemma main_accounts: "accounts (http_main alloc argv)"
  unfolding http_main_def http_connect_def http_exchange_def http_finish_def send_body_def recv_body_def http_error_def Let_def
  by (auto intro!: accounts_intros split: option.split)

text \<open>
  C14: The client comes to its end. Whatever the server sends and in whatever pieces the kernel takes and
  gives bytes, a run makes no more system calls than the request has characters and 4099: each \<open>write\<close>
  and each \<open>read\<close> makes progress or is the last of its loop. So with that many replies the program has
  stopped, and not because it waits or goes round for ever.
\<close>

theorem http_client_ends:
  assumes "http_main alloc argv rs = (r, t, rs')" and "conforms fds t"
    and "5 \<le> length argv" and "c_args argv" and malloc: "\<And>n b. alloc n = Some b \<Longrightarrow> length b = n"
  shows "length (sys_calls t) \<le> length (request_text argv) + 4099 \<and>
    (length (request_text argv) + 4099 < length rs \<longrightarrow> (\<exists>z. r = Stop z \<and> z \<noteq> Blocked \<and> z \<noteq> Diverge))"
proof -
  have le: "length (sys_calls t) \<le> length (request_text argv) + 4099 \<and> (\<forall>x. r \<noteq> Ret x)"
    by (rule vldD [OF main_calls [OF assms(3,4) malloc] assms(1,2)])
  have "length rs = length (sys_calls t) + length rs'" "r = Stop Blocked \<Longrightarrow> rs' = []"
    using accountsD [OF main_accounts assms(1)] by auto
  moreover have "r \<noteq> Stop Diverge" using steady_fst [OF http_steady, of alloc argv rs] assms(1) by simp
  ultimately show ?thesis using le by (cases r) auto
qed

theorem http_client_ends_witness:
  "case http_main (\<lambda>n. Some (zeros n)) get_args (get_script @ replicate 4200 (ok 0)) of (r, t, rs) \<Rightarrow>
     conforms {0, 1, 2} t \<and> length (sys_calls t) = 9 \<and> (\<exists>z. r = Stop z \<and> z \<noteq> Blocked \<and> z \<noteq> Diverge)"
proof -
  let ?rs = "get_script @ replicate 4200 (ok 0)"
  obtain r t rs where run: "http_main (\<lambda>n. Some (zeros n)) get_args ?rs = (r, t, rs)"
    by (cases "http_main (\<lambda>n. Some (zeros n)) get_args ?rs") auto
  have total: "message_total get_args = 27"
    by (simp add: message_total_def message_lens_def header_lens_def get_args_def crlf_def)
  then have small: "int (message_total get_args) \<le> INT_MAX" by (simp add: INT_MAX_def)
  define more where "more = replicate 4200 (ok 0)"
  have "case http_main (\<lambda>n. Some (zeros n)) get_args (get_script @ more) of (r, t, rs) \<Rightarrow>
      conforms {0, 1, 2} t \<and> length (sys_calls t) = 9"
    unfolding http_main_def as_size_total [OF small] total
    by (simp add: run_simps http_connect_def http_exchange_def http_finish_def send_body_def
        recv_body_def put_message_def arg_or_def strcat_def crlf_def
        get_args_def get_script_def RESPONSE_SIZE_def cong: lazy)
  with run have 1: "conforms {0, 1, 2} t" "length (sys_calls t) = 9" by (simp_all add: more_def)
  have "5 \<le> length get_args" "c_args get_args" and len: "length (request_text get_args) = 19" "length get_script = 9"
    by (simp_all add: get_args_def c_args_def request_text_def headers_text_def arg_or_def crlf_def get_script_def)
  from http_client_ends [OF run 1(1) this(1,2)] run 1 len show ?thesis by simp
qed

end
