(* ===== verification/Heartbeat.thy ===== *)
theory Heartbeat
  imports Eval
begin

text \<open>
  The heartbeat programs \<open>C/heartbeat_srv.c\<close>, \<open>C/heartbeat_cli.c\<close> and \<open>C/heartbeat_android.c\<close>. A peer
  sends the urgent byte \<open>c\<close>, the server answers \<open>s\<close>; an alarm counts how long nothing has come.

  The programs are a main loop and a signal handler that share global variables. The handler is a
  program of its own here, the main loop is cut where it waits, and the step relation \<open>sig_run\<close> runs the
  two in every order in which signals find the main loop waiting in one of its calls.
\<close>

record expiry =
  expire_cnt :: int
  already_reset :: int

record hb_server = expiry +
  cli_fd :: int

record hb_client = expiry +
  conn_fd :: int
  got_reply :: bool

definition NOT_UP :: string where
  "NOT_UP = ''RESET PEER : maybe not start up.'' @ [LF]"

definition LOST :: string where
  "LOST = ''RESET PEER : lost connection to server!'' @ [LF]"

text \<open>\<open>if (PEER_EXPIRE_CNT == expire_cnt++ && 0 == already_reset)\<close> and what it guards.\<close>

definition expire_tick ::
  "(string \<Rightarrow> 'a expiry_scheme io \<Rightarrow> 'a expiry_scheme io) \<Rightarrow> int \<Rightarrow> 'a expiry_scheme \<Rightarrow> 'a expiry_scheme io" where
  "expire_tick say limit st =
     (if expire_cnt st = INT_MAX then fault Int_overflow
      else if limit = expire_cnt st \<and> already_reset st = 0 then say NOT_UP (ret (st\<lparr>expire_cnt := 0\<rparr>))
      else ret (st\<lparr>expire_cnt := expire_cnt st + 1\<rparr>))"

text \<open>The byte \<open>recv\<close> put into \<open>c\<close>, or what the variable held when it brought none.\<close>

definition oob_char :: "char \<Rightarrow> reply \<Rightarrow> char" where
  "oob_char junk a = (if dat a = [] then junk else hd (dat a))"

subsection \<open>The server\<close>

definition SRV_PEER_EXPIRE_CNT :: int where "SRV_PEER_EXPIRE_CNT = 3"
definition SRV_ALARM_INTERVAL :: int where "SRV_ALARM_INTERVAL = 2"

text \<open>\<open>junk\<close> is what the local \<open>c\<close> holds.\<close>

definition srv_sig_handler :: "char \<Rightarrow> sig \<Rightarrow> hb_server \<Rightarrow> hb_server io" where
  "srv_sig_handler junk signo st =
     (if signo = SIGURG then
        sys (Recv_oob (cli_fd st) 1) (\<lambda>a.
        let done = ret (st\<lparr>expire_cnt := 0, already_reset := 0\<rparr>)
        in if oob_char junk a = CHR ''c''
           then printf (''recv SIGURG'' @ [LF]) (sys (Send_oob (cli_fd st) ''s'') (\<lambda>_. done))
           else done)
      else if signo = SIGALRM then
        sys (Alarm SRV_ALARM_INTERVAL) (\<lambda>_. expire_tick printf SRV_PEER_EXPIRE_CNT st)
      else if signo = SIGCHLD then sys Wait (\<lambda>_. ret st)
      else ret st)"

text \<open>One turn of the \<open>for\<close> loop, cut where \<open>recv\<close> waits: \<open>True\<close> when it goes on to wait there.\<close>

definition srv_accept :: "int \<Rightarrow> hb_server \<Rightarrow> (bool \<times> hb_server) io" where
  "srv_accept listen_fd st =
     sys (Accept listen_fd) (\<lambda>a.
     let st' = st\<lparr>cli_fd := rv a\<rparr>
     in if rv a > 0 then
          sys (Setown (rv a)) (\<lambda>s.
            if rv s \<noteq> 0 then perror ''Can't claim SIGIO and SIGURG'' (ret (True, st')) else ret (True, st'))
        else perror ''accept()'' (ret (False, st')))"

definition srv_receive :: "hb_server \<Rightarrow> hb_server io" where
  "srv_receive st =
     sys (Recv (cli_fd st) 1024) (\<lambda>_.
     printf (''RESET PEER : socket have been shutdown'' @ [LF])
     (sys (Close (cli_fd st)) (\<lambda>_. ret (st\<lparr>already_reset := 1\<rparr>))))"

definition srv_turn :: "int \<Rightarrow> hb_server \<Rightarrow> (hb_server + unit) io" where
  "srv_turn listen_fd st =
     bnd (srv_accept listen_fd st) (\<lambda>(got, st').
       if got then bnd (srv_receive st') (\<lambda>st''. ret (Inl st'')) else ret (Inl st'))"

text \<open>The same turn as steps of the main loop between the two calls in which it waits.\<close>

datatype srv_phase = Accepting | Receiving

definition srv_step :: "int \<Rightarrow> srv_phase \<Rightarrow> hb_server \<Rightarrow> (srv_phase \<times> hb_server) io" where
  "srv_step listen_fd p st =
     (case p of
        Accepting \<Rightarrow> bnd (srv_accept listen_fd st) (\<lambda>(got, st'). ret (if got then Receiving else Accepting, st'))
      | Receiving \<Rightarrow> bnd (srv_receive st) (\<lambda>st'. ret (Accepting, st')))"

definition srv_start :: hb_server where
  "srv_start = \<lparr>expire_cnt = 0, already_reset = 0, cli_fd = 0\<rparr>"

text \<open>\<open>main\<close>, in a run in which no signal comes.\<close>

definition srv_main :: "string list \<Rightarrow> unit io" where
  "srv_main strings =
     (if length strings \<noteq> 2 then
        arr_get strings 0 (\<lambda>name. printf (''usage: '' @ name @ '' <port>'' @ [LF]) (exit 0))
      else
        sys (Signal SIGCHLD (Handler ''sig_handler'')) (\<lambda>_.
        sys (Signal SIGURG (Handler ''sig_handler'')) (\<lambda>_.
        sys (Signal SIGALRM (Handler ''sig_handler'')) (\<lambda>_.
        sys (Socket AF_INET SOCK_STREAM 0) (\<lambda>s.
        sys (Setsockopt_reuse (rv s) 1) (\<lambda>opt.
          if rv opt < 0 then perror ''setsockopt'' (exit (- 1))
          else sys (Bind (rv s) (Sin (htons (word_of_int (atoi (strings ! 1)))) (htonl INADDR_ANY))) (\<lambda>b.
            let go = sys (Listen (rv s) 15) (\<lambda>_.
                sys (Alarm SRV_ALARM_INTERVAL) (\<lambda>_.
                loop (srv_turn (rv s)) srv_start))
            in if rv b \<noteq> 0 then perror ''bind()'' go else go)))))))"

subsection \<open>The client\<close>

definition CLI_ALARM_INTERVAL :: int where "CLI_ALARM_INTERVAL = 3"
definition CLI_PEER_EXPIRE_CNT :: int where "CLI_PEER_EXPIRE_CNT = 3"

text \<open>
  \<open>inet_aton\<close> fills the address when the text is one; its result is not tested. The function is cut
  where \<open>connect\<close> waits: \<open>cli_dial\<close> is the part before.
\<close>

definition cli_dial :: "string \<Rightarrow> int \<Rightarrow> hb_client \<Rightarrow> (sockaddr \<times> hb_client) io" where
  "cli_dial ip_text port st =
     sys (Socket AF_INET SOCK_STREAM 0) (\<lambda>s.
     let st' = st\<lparr>conn_fd := rv s\<rparr>
     in sys (Setown (conn_fd st')) (\<lambda>own.
        let go = sys (Inet_pton ip_text) (\<lambda>p.
              ret (Sin (htons (word_of_int port)) (if rv p = 1 then ip p else htonl 0), st'))
        in if rv own \<noteq> 0 then perror ''Can't claim SIGURG and SIGIO'' go else go))"

definition cli_connecting :: "sockaddr \<Rightarrow> hb_client \<Rightarrow> (int \<times> hb_client) io" where
  "cli_connecting addr st =
     sys (Connect (conn_fd st) addr) (\<lambda>c.
       if rv c \<noteq> 0 then perror ''connect'' (sys (Close (conn_fd st)) (\<lambda>_. ret (- 1, st)))
       else ret (0, st))"

definition cli_connect_server :: "string \<Rightarrow> int \<Rightarrow> hb_client \<Rightarrow> (int \<times> hb_client) io" where
  "cli_connect_server ip_text port st =
     bnd (cli_dial ip_text port st) (\<lambda>(addr, st'). cli_connecting addr st')"

definition cli_sig_handler :: "char \<Rightarrow> sig \<Rightarrow> hb_client \<Rightarrow> hb_client io" where
  "cli_sig_handler junk signo st =
     (if signo = SIGURG then
        sys (Recv_oob (conn_fd st) 1) (\<lambda>a.
        printf (''[server is alive]'' @ [LF])
        (ret (st\<lparr>got_reply := (oob_char junk a = CHR ''s''), already_reset := 0\<rparr>)))
      else if signo = SIGALRM then
        sys (Alarm CLI_ALARM_INTERVAL) (\<lambda>_.
          if got_reply st then sys (Send_oob (conn_fd st) ''c'') (\<lambda>_. ret (st\<lparr>got_reply := False\<rparr>))
          else sys (Close (conn_fd st)) (\<lambda>_.
            if already_reset st = 0 then printf LOST (ret (st\<lparr>already_reset := 1\<rparr>)) else ret st))
      else ret st)"

text \<open>
  One turn of the loop. It waits in \<open>connect\<close>, in \<open>recv\<close> and in \<open>sleep\<close>, and there a signal may find it:
  \<open>cli_connected\<close> goes from the end of \<open>connect_server\<close> to \<open>recv\<close> (\<open>True\<close>) or to \<open>sleep\<close>, \<open>cli_received\<close> is \<open>recv\<close> and
  what follows it.
\<close>

definition cli_connected :: "int \<Rightarrow> hb_client \<Rightarrow> (bool \<times> hb_client) io" where
  "cli_connected r st =
     (if r = 0 then sys (Alarm CLI_ALARM_INTERVAL) (\<lambda>_. ret (True, st\<lparr>got_reply := True\<rparr>))
      else bnd (expire_tick printf CLI_PEER_EXPIRE_CNT st) (\<lambda>st'. ret (False, st')))"

definition cli_received :: "hb_client \<Rightarrow> hb_client io" where
  "cli_received st = sys (Recv (conn_fd st) 1024) (\<lambda>_. ret (st\<lparr>got_reply := False\<rparr>))"

definition cli_turn :: "string \<Rightarrow> int \<Rightarrow> hb_client \<Rightarrow> (hb_client + unit) io" where
  "cli_turn ip_text port st =
     bnd (cli_connect_server ip_text port st) (\<lambda>(r, st1).
     bnd (cli_connected r st1) (\<lambda>(waits, st2).
     bnd (if waits then cli_received st2 else ret st2) (\<lambda>st3.
     sys (Sleep 3) (\<lambda>_. ret (Inl st3)))))"

text \<open>The same turn in steps from one of these calls to the next; \<open>Dialing\<close> holds the local \<open>addr\<close>.\<close>

datatype cli_phase = Looping | Dialing sockaddr | Waiting | Asleep

definition cli_step :: "string \<Rightarrow> int \<Rightarrow> cli_phase \<Rightarrow> hb_client \<Rightarrow> (cli_phase \<times> hb_client) io" where
  "cli_step ip_text port p st =
     (case p of
        Looping \<Rightarrow> bnd (cli_dial ip_text port st) (\<lambda>(addr, st'). ret (Dialing addr, st'))
      | Dialing addr \<Rightarrow> bnd (cli_connecting addr st) (\<lambda>(r, st').
          bnd (cli_connected r st') (\<lambda>(waits, st''). ret (if waits then Waiting else Asleep, st'')))
      | Waiting \<Rightarrow> bnd (cli_received st) (\<lambda>st'. ret (Asleep, st'))
      | Asleep \<Rightarrow> sys (Sleep 3) (\<lambda>_. ret (Looping, st)))"

definition cli_start :: hb_client where
  "cli_start = \<lparr>expire_cnt = 0, already_reset = 0, conn_fd = 0, got_reply = True\<rparr>"

text \<open>\<open>main\<close>, in a run in which no signal comes. The address is copied into 16 bytes.\<close>

definition hb_cli_main :: "string list \<Rightarrow> unit io" where
  "hb_cli_main argv =
     (if length argv \<noteq> 3 then
        arr_get argv 0 (\<lambda>name. printf (''usage: '' @ name @ '' <ip> <port>'' @ [LF]) (exit 0))
      else
        sys (Signal SIGURG (Handler ''sig_handler'')) (\<lambda>_.
        sys (Signal SIGALRM (Handler ''sig_handler'')) (\<lambda>_.
        fits (put_cstr 0 (argv ! 1) (zeros 16)) (\<lambda>ip_buf.
        loop (cli_turn (cstr ip_buf) (atoi (argv ! 2))) cli_start))))"

subsection \<open>The client on Android\<close>

text \<open>\<open>hb_debug\<close> and \<open>hb_error\<close> write to the system's log, \<open>hb_error\<close> with the text of \<open>errno\<close>.\<close>

definition AND_ALARM_INTERVAL :: int where "AND_ALARM_INTERVAL = 3"
definition AND_PEER_EXPIRE_CNT :: int where "AND_PEER_EXPIRE_CNT = 10"
definition AND_IP :: string where "AND_IP = ''192.168.88.254''"
definition AND_PORT :: int where "AND_PORT = 5003"

definition hb_error :: "(errno \<Rightarrow> string) \<Rightarrow> string \<Rightarrow> errno \<Rightarrow> 'a io \<Rightarrow> 'a io" where
  "hb_error strerror s e = syslog (s @ '' : '' @ strerror e @ [LF])"

definition and_dial :: "(errno \<Rightarrow> string) \<Rightarrow> hb_client \<Rightarrow> (sockaddr \<times> hb_client) io" where
  "and_dial strerror st =
     sys (Socket AF_INET SOCK_STREAM 0) (\<lambda>s.
     let st' = st\<lparr>conn_fd := rv s\<rparr>
     in sys (Setown (conn_fd st')) (\<lambda>own.
        let go = sys (Inet_pton AND_IP) (\<lambda>p.
              ret (Sin (htons (word_of_int AND_PORT)) (if rv p = 1 then ip p else htonl 0), st'))
        in if rv own \<noteq> 0 then hb_error strerror ''Can't claim SIGURG and SIGIO'' (en own) go else go))"

definition and_connecting :: "(errno \<Rightarrow> string) \<Rightarrow> sockaddr \<Rightarrow> hb_client \<Rightarrow> (int \<times> hb_client) io" where
  "and_connecting strerror addr st =
     sys (Connect (conn_fd st) addr) (\<lambda>c.
       if rv c \<noteq> 0 then
         hb_error strerror ''connect'' (en c) (sys (Close (conn_fd st)) (\<lambda>_. ret (- 1, st)))
       else ret (0, st))"

definition and_connect_server :: "(errno \<Rightarrow> string) \<Rightarrow> hb_client \<Rightarrow> (int \<times> hb_client) io" where
  "and_connect_server strerror st =
     bnd (and_dial strerror st) (\<lambda>(addr, st'). and_connecting strerror addr st')"

definition and_sig_handler :: "char \<Rightarrow> sig \<Rightarrow> hb_client \<Rightarrow> hb_client io" where
  "and_sig_handler junk signo st =
     (if signo = SIGURG then
        sys (Recv_oob (conn_fd st) 1) (\<lambda>a.
        syslog (''[server is alive]'' @ [LF])
        (ret (st\<lparr>got_reply := (oob_char junk a = CHR ''s''), already_reset := 0\<rparr>)))
      else if signo = SIGALRM then
        sys (Alarm AND_ALARM_INTERVAL) (\<lambda>_.
          if got_reply st then sys (Send_oob (conn_fd st) ''c'') (\<lambda>_. ret (st\<lparr>got_reply := False\<rparr>))
          else sys (Close (conn_fd st)) (\<lambda>_.
            if already_reset st = 0 then syslog LOST (ret (st\<lparr>already_reset := 1\<rparr>)) else ret st))
      else ret st)"

definition and_connected :: "int \<Rightarrow> hb_client \<Rightarrow> (bool \<times> hb_client) io" where
  "and_connected r st =
     (if r = 0 then sys (Alarm AND_ALARM_INTERVAL) (\<lambda>_. ret (True, st\<lparr>got_reply := True\<rparr>))
      else bnd (expire_tick syslog AND_PEER_EXPIRE_CNT st) (\<lambda>st'. ret (False, st')))"

definition and_received :: "hb_client \<Rightarrow> hb_client io" where
  "and_received st =
     sys (Recv (conn_fd st) 256) (\<lambda>_. sys (Close (conn_fd st)) (\<lambda>_. ret (st\<lparr>got_reply := False\<rparr>)))"

definition and_turn :: "(errno \<Rightarrow> string) \<Rightarrow> hb_client \<Rightarrow> (hb_client + unit) io" where
  "and_turn strerror st =
     bnd (and_connect_server strerror st) (\<lambda>(r, st1).
     bnd (and_connected r st1) (\<lambda>(waits, st2).
     bnd (if waits then and_received st2 else ret st2) (\<lambda>st3.
     sys (Sleep 3) (\<lambda>_. ret (Inl st3)))))"

definition and_step :: "(errno \<Rightarrow> string) \<Rightarrow> cli_phase \<Rightarrow> hb_client \<Rightarrow> (cli_phase \<times> hb_client) io" where
  "and_step strerror p st =
     (case p of
        Looping \<Rightarrow> bnd (and_dial strerror st) (\<lambda>(addr, st'). ret (Dialing addr, st'))
      | Dialing addr \<Rightarrow> bnd (and_connecting strerror addr st) (\<lambda>(r, st').
          bnd (and_connected r st') (\<lambda>(waits, st''). ret (if waits then Waiting else Asleep, st'')))
      | Waiting \<Rightarrow> bnd (and_received st) (\<lambda>st'. ret (Asleep, st'))
      | Asleep \<Rightarrow> sys (Sleep 3) (\<lambda>_. ret (Looping, st)))"

definition and_main :: "(errno \<Rightarrow> string) \<Rightarrow> unit io" where
  "and_main strerror =
     sys (Signal SIGURG (Handler ''sig_handler'')) (\<lambda>_.
     sys (Signal SIGALRM (Handler ''sig_handler'')) (\<lambda>_.
     loop (and_turn strerror) cli_start))"

subsection \<open>Signals and the main loop\<close>

text \<open>
  A process: \<open>step\<close> takes its main loop from one point where it waits to the next; \<open>p\<close> is the point. A signal
  that finds it there runs the handler \<open>hnd\<close> at once. \<open>ss\<close> are the signals so far, \<open>h\<close> is the trace, \<open>fds\<close>
  the open descriptors.
\<close>

inductive sig_run ::
  "(char \<Rightarrow> sig \<Rightarrow> 's \<Rightarrow> 's io) \<Rightarrow> ('p \<Rightarrow> 's \<Rightarrow> ('p \<times> 's) io) \<Rightarrow> int set \<Rightarrow> 'p \<Rightarrow> 's \<Rightarrow>
    sig list \<Rightarrow> event list \<Rightarrow> int set \<Rightarrow> 'p \<Rightarrow> 's \<Rightarrow> bool"
  for hnd step fds0 p0 s0 where
  start: "sig_run hnd step fds0 p0 s0 [] [] fds0 p0 s0"
| signal: "sig_run hnd step fds0 p0 s0 ss h fds p s \<Longrightarrow> hnd junk signo s rs = (Ret s', t, rs') \<Longrightarrow>
    conforms fds t \<Longrightarrow> sig_run hnd step fds0 p0 s0 (ss @ [signo]) (h @ t) (fds_run fds t) p s'"
| main_step: "sig_run hnd step fds0 p0 s0 ss h fds p s \<Longrightarrow> step p s rs = (Ret (p', s'), t, rs') \<Longrightarrow>
    conforms fds t \<Longrightarrow> sig_run hnd step fds0 p0 s0 ss (h @ t) (fds_run fds t) p' s'"

text \<open>What the handler and the steps of a program promise, and the invariant that follows.\<close>

locale sig_machine =
  fixes hnd :: "char \<Rightarrow> sig \<Rightarrow> 's \<Rightarrow> 's io"
    and step :: "'p \<Rightarrow> 's \<Rightarrow> ('p \<times> 's) io"
    and inv :: "sig list \<Rightarrow> 's \<Rightarrow> event list \<Rightarrow> bool"
  assumes on_signal: "inv ss s h \<Longrightarrow>
      vld fds (hnd junk signo s) (\<lambda>r t. \<forall>s'. r = Ret s' \<longrightarrow> inv (ss @ [signo]) s' (h @ t))"
    and on_step: "inv ss s h \<Longrightarrow> vld fds (step p s) (\<lambda>r t. \<forall>p' s'. r = Ret (p', s') \<longrightarrow> inv ss s' (h @ t))"
begin

lemma machine_inv: "sig_run hnd step fds0 p0 s0 ss h fds p s \<Longrightarrow> inv [] s0 [] \<Longrightarrow> inv ss s h"
proof (induction rule: sig_run.induct)
  case (signal ss h fds p s junk signo rs s' t rs')
  then show ?case using vldD [OF on_signal [of ss s h fds junk signo] signal(2,3)] by blast
next
  case (main_step ss h fds p s rs p' s' t rs')
  then show ?case using vldD [OF on_step [of ss s h fds p] main_step(2,3)] by blast
qed

end

subsection \<open>The server's count\<close>

text \<open>Alarms since the last heartbeat, and how many may follow one another.\<close>

definition alarms_since :: "sig list \<Rightarrow> nat" where
  "alarms_since ss = length (filter (\<lambda>s. s = SIGALRM) (takeWhile (\<lambda>s. s \<noteq> SIGURG) (rev ss)))"

definition gaps_ok :: "nat \<Rightarrow> sig list \<Rightarrow> bool" where
  "gaps_ok k ss \<longleftrightarrow> (\<forall>n \<le> length ss. alarms_since (take n ss) \<le> k)"

lemma alarms_since_simps [simp]:
  "alarms_since [] = 0"
  "alarms_since (ss @ [s]) = (if s = SIGURG then 0 else (if s = SIGALRM then 1 else 0) + alarms_since ss)"
  by (simp_all add: alarms_since_def)

lemma gaps_ok_snoc: "gaps_ok k (ss @ [s]) \<longleftrightarrow> gaps_ok k ss \<and> alarms_since (ss @ [s]) \<le> k"
proof
  assume l: "gaps_ok k (ss @ [s])"
  have "alarms_since (take n ss) \<le> k" if "n \<le> length ss" for n
    using l that by (auto simp: gaps_ok_def dest: spec [of _ n])
  moreover have "alarms_since (ss @ [s]) \<le> k"
    using l by (auto simp: gaps_ok_def dest: spec [of _ "Suc (length ss)"])
  ultimately show "gaps_ok k ss \<and> alarms_since (ss @ [s]) \<le> k" by (simp add: gaps_ok_def)
next
  assume r: "gaps_ok k ss \<and> alarms_since (ss @ [s]) \<le> k"
  show "gaps_ok k (ss @ [s])"
    unfolding gaps_ok_def
  proof (intro allI impI)
    fix n assume "n \<le> length (ss @ [s])"
    then show "alarms_since (take n (ss @ [s])) \<le> k"
      using r by (cases "n \<le> length ss") (auto simp: gaps_ok_def le_Suc_eq simp del: alarms_since_simps)
  qed
qed

lemmas srv_defs = srv_sig_handler_def srv_step_def srv_accept_def srv_receive_def expire_tick_def NOT_UP_def

interpretation srv_silent: sig_machine srv_sig_handler "srv_step listen_fd"
    "\<lambda>ss st h. gaps_ok 3 ss \<longrightarrow> NOT_UP \<notin> set (printed h) \<and> expire_cnt st \<le> int (alarms_since ss)" for listen_fd
  by unfold_locales
    (auto simp: srv_defs io_simps Let_def gaps_ok_snoc SRV_PEER_EXPIRE_CNT_def split: srv_phase.split)

lemma div4_step:
  "n mod 4 = 3 \<Longrightarrow> Suc n div 4 = Suc (n div 4) \<and> Suc n mod 4 = 0"
  "n mod 4 \<noteq> (3 :: nat) \<Longrightarrow> Suc n div 4 = n div 4 \<and> Suc n mod 4 = Suc (n mod 4)"
  by presburger+

interpretation srv_exact: sig_machine srv_sig_handler "srv_step listen_fd"
    "\<lambda>ss st h. SIGURG \<notin> set ss \<and> already_reset st = 0 \<longrightarrow>
      count_list (printed h) NOT_UP = count_list ss SIGALRM div 4 \<and>
      expire_cnt st = int (count_list ss SIGALRM mod 4)" for listen_fd
proof
  fix ss and st :: hb_server and h fds junk signo
  assume inv: "SIGURG \<notin> set ss \<and> already_reset st = 0 \<longrightarrow>
      count_list (printed h) NOT_UP = count_list ss SIGALRM div 4 \<and>
      expire_cnt st = int (count_list ss SIGALRM mod 4)"
  show "vld fds (srv_sig_handler junk signo st) (\<lambda>r t. \<forall>s'. r = Ret s' \<longrightarrow>
      SIGURG \<notin> set (ss @ [signo]) \<and> already_reset s' = 0 \<longrightarrow>
      count_list (printed (h @ t)) NOT_UP = count_list (ss @ [signo]) SIGALRM div 4 \<and>
      expire_cnt s' = int (count_list (ss @ [signo]) SIGALRM mod 4))"
    using inv div4_step [of "count_list ss SIGALRM"]
    by (auto simp: srv_sig_handler_def expire_tick_def io_simps Let_def SRV_PEER_EXPIRE_CNT_def)
next
  fix ss and st :: hb_server and h fds and p :: srv_phase
  assume inv: "SIGURG \<notin> set ss \<and> already_reset st = 0 \<longrightarrow>
      count_list (printed h) NOT_UP = count_list ss SIGALRM div 4 \<and>
      expire_cnt st = int (count_list ss SIGALRM mod 4)"
  then show "vld fds (srv_step listen_fd p st) (\<lambda>r t. \<forall>p' s'. r = Ret (p', s') \<longrightarrow>
      SIGURG \<notin> set ss \<and> already_reset s' = 0 \<longrightarrow>
      count_list (printed (h @ t)) NOT_UP = count_list ss SIGALRM div 4 \<and>
      expire_cnt s' = int (count_list ss SIGALRM mod 4))"
    by (auto simp: srv_step_def srv_accept_def srv_receive_def io_simps Let_def split: srv_phase.split)
qed

subsection \<open>The clients' pace\<close>

text \<open>
  Heartbeats sent, connections made, and answers: urgent bytes \<open>s\<close>. A \<open>recv\<close> that brings nothing leaves \<open>c\<close>
  as it was, which may be anything; it is counted too.
\<close>

fun is_beat :: "event \<Rightarrow> bool" where
  "is_beat (Call (Transfer _ (SEND_OOB bs)) a) = (bs = ''c'')"
| "is_beat _ = False"

fun is_connected :: "event \<Rightarrow> bool" where
  "is_connected (Call (On _ (CONNECT sa)) a) = (rv a = 0)"
| "is_connected _ = False"

fun is_answer :: "event \<Rightarrow> bool" where
  "is_answer (Call (Transfer _ (RECV_OOB n)) a) = (dat a = [] \<or> hd (dat a) = CHR ''s'')"
| "is_answer _ = False"

definition answered :: "event list \<Rightarrow> nat" where
  "answered t = length (filter is_answer t)"

definition beats :: "event list \<Rightarrow> nat" where
  "beats t = length (filter is_beat t)"

definition connected :: "event list \<Rightarrow> nat" where
  "connected t = length (filter is_connected t)"

lemma beats_simps [simp]:
  "beats [] = 0" "beats (e # t) = (if is_beat e then 1 else 0) + beats t" "beats (s @ t) = beats s + beats t"
  "connected [] = 0" "connected (e # t) = (if is_connected e then 1 else 0) + connected t"
  "connected (s @ t) = connected s + connected t"
  "answered [] = 0" "answered (e # t) = (if is_answer e then 1 else 0) + answered t"
  "answered (s @ t) = answered s + answered t"
  by (simp_all add: beats_def connected_def answered_def)

text \<open>The messages to the user: on standard output, or in the log.\<close>

fun is_lost :: "event \<Rightarrow> bool" where
  "is_lost (Out s) = (s = LOST)"
| "is_lost (Syslog s) = (s = LOST)"
| "is_lost _ = False"

definition losses :: "event list \<Rightarrow> nat" where
  "losses t = length (filter is_lost t)"

lemma losses_simps [simp]:
  "losses [] = 0" "losses (e # t) = (if is_lost e then 1 else 0) + losses t" "losses (s @ t) = losses s + losses t"
  by (simp_all add: losses_def)

definition pace_inv :: "sig list \<Rightarrow> hb_client \<Rightarrow> event list \<Rightarrow> bool" where
  "pace_inv ss st h \<longleftrightarrow>
     beats h + (if got_reply st then 1 else 0) \<le> 1 + answered h + connected h \<and>
     losses h + (if already_reset st = 0 then 1 else 0) \<le> 1 + count_list ss SIGURG"

lemmas pace_simps = io_simps pace_inv_def Let_def expire_tick_def NOT_UP_def LOST_def oob_char_def

lemmas cli_defs = cli_connect_server_def cli_dial_def cli_connecting_def cli_connected_def cli_received_def
lemmas and_defs = and_connect_server_def and_dial_def and_connecting_def and_connected_def and_received_def hb_error_def

interpretation cli_pace: sig_machine cli_sig_handler "cli_step ip_text port" pace_inv for ip_text port
  by unfold_locales
    (auto simp: cli_sig_handler_def cli_step_def cli_dial_def cli_connecting_def cli_connected_def cli_received_def
      pace_simps split: cli_phase.split)

interpretation and_pace: sig_machine and_sig_handler "and_step strerror" pace_inv for strerror
  by unfold_locales
    (auto simp: and_sig_handler_def and_step_def and_dial_def and_connecting_def hb_error_def and_connected_def
      and_received_def pace_simps split: cli_phase.split)

subsection \<open>Properties\<close>

abbreviation srv_run :: "int \<Rightarrow> int set \<Rightarrow> sig list \<Rightarrow> event list \<Rightarrow> int set \<Rightarrow> srv_phase \<Rightarrow> hb_server \<Rightarrow> bool" where
  "srv_run listen_fd fds0 \<equiv> sig_run srv_sig_handler (srv_step listen_fd) fds0 Accepting srv_start"

text \<open>A silence of \<open>n\<close> alarms, for the examples.\<close>

lemma srv_alarm_run:
  "\<exists>t. srv_sig_handler junk SIGALRM st [ok 0] = (Ret (if already_reset st = 0 \<and> expire_cnt st = 3
      then st\<lparr>expire_cnt := 0\<rparr> else st\<lparr>expire_cnt := expire_cnt st + 1\<rparr>), t, []) \<and>
    conforms fds t \<and> fds_run fds t = fds \<and>
    printed t = (if already_reset st = 0 \<and> expire_cnt st = 3 then [NOT_UP] else [])"
  if "expire_cnt st < INT_MAX"
  using that by (auto simp: srv_sig_handler_def expire_tick_def run_simps SRV_PEER_EXPIRE_CNT_def)

lemma srv_one_alarm:
  assumes "srv_run l fds0 ss h fds p st" and "expire_cnt st < INT_MAX" and "already_reset st = 0"
  shows "\<exists>h'. srv_run l fds0 (ss @ [SIGALRM]) h' fds p
    (if expire_cnt st = 3 then st\<lparr>expire_cnt := 0\<rparr> else st\<lparr>expire_cnt := expire_cnt st + 1\<rparr>)"
proof -
  obtain t where t: "srv_sig_handler NUL SIGALRM st [ok 0] = (Ret (if already_reset st = 0 \<and> expire_cnt st = 3
      then st\<lparr>expire_cnt := 0\<rparr> else st\<lparr>expire_cnt := expire_cnt st + 1\<rparr>), t, [])"
    "conforms fds t" "fds_run fds t = fds"
    using srv_alarm_run [OF assms(2)] by metis
  from sig_run.signal [OF assms(1) t(1,2)] t(3) assms(3) show ?thesis by auto
qed

lemma srv_four_alarms:
  "\<exists>h. srv_run l fds0 [SIGALRM, SIGALRM, SIGALRM, SIGALRM] h fds0 Accepting srv_start"
proof -
  have 0: "srv_run l fds0 [] [] fds0 Accepting srv_start" by (rule sig_run.start)
  have fresh: "expire_cnt srv_start = 0" "already_reset srv_start = 0" by (simp_all add: srv_start_def)
  from srv_one_alarm [OF 0] fresh obtain h1 where
    1: "srv_run l fds0 [SIGALRM] h1 fds0 Accepting (srv_start\<lparr>expire_cnt := 1\<rparr>)"
    by (auto simp: INT_MAX_def)
  from srv_one_alarm [OF 1] fresh obtain h2 where
    2: "srv_run l fds0 [SIGALRM, SIGALRM] h2 fds0 Accepting (srv_start\<lparr>expire_cnt := 2\<rparr>)"
    by (auto simp: INT_MAX_def)
  from srv_one_alarm [OF 2] fresh obtain h3 where
    3: "srv_run l fds0 [SIGALRM, SIGALRM, SIGALRM] h3 fds0 Accepting (srv_start\<lparr>expire_cnt := 3\<rparr>)"
    by (auto simp: INT_MAX_def)
  from srv_one_alarm [OF 3] fresh show ?thesis by (auto simp: INT_MAX_def srv_start_def)
qed

text \<open>
  C17: The server raises no false alarm. In every run of the server, with signals and turns of the main
  loop in any order, as long as no more than three alarms have followed one another without a
  heartbeat in between, the peer has not been declared down for silence.
\<close>

theorem srv_no_false_alarm:
  assumes "srv_run listen_fd fds0 ss h fds p st" and "gaps_ok 3 ss"
  shows "NOT_UP \<notin> set (printed h)"
  using srv_silent.machine_inv [OF assms(1)] assms(2) by (simp add: srv_start_def)

theorem srv_no_false_alarm_witness:
  "\<exists>h st. srv_run 3 {0, 1, 2, 3} [SIGALRM] h {0, 1, 2, 3} Accepting st \<and> NOT_UP \<notin> set (printed h)"
proof -
  obtain h where h: "srv_run 3 {0, 1, 2, 3} [SIGALRM] h {0, 1, 2, 3} Accepting (srv_start\<lparr>expire_cnt := 1\<rparr>)"
    using srv_one_alarm [OF sig_run.start, of 3 "{0, 1, 2, 3}"]
    by (auto simp: srv_start_def INT_MAX_def)
  have "gaps_ok 3 [SIGALRM]" using gaps_ok_snoc [of 3 "[]" SIGALRM] by (simp add: gaps_ok_def alarms_since_def)
  then show ?thesis using srv_no_false_alarm [OF h] h by blast
qed

text \<open>
  C18: A silent peer is declared down after every fourth alarm, not every third. In every run in which
  no heartbeat has come and no connection has ended, the number of declarations is the number of
  alarms divided by four, and the counter is the remainder: the constant \<open>PEER_EXPIRE_CNT\<close> of 3 is
  compared with the count before it is incremented.
\<close>

theorem srv_declares_every_fourth:
  assumes "srv_run listen_fd fds0 ss h fds p st" and "SIGURG \<notin> set ss" and "already_reset st = 0"
  shows "count_list (printed h) NOT_UP = count_list ss SIGALRM div 4 \<and>
    expire_cnt st = int (count_list ss SIGALRM mod 4)"
  using srv_exact.machine_inv [OF assms(1)] assms(2,3) by (simp add: srv_start_def)

theorem srv_declares_every_fourth_witness:
  "\<exists>h. srv_run 3 {0, 1, 2, 3} [SIGALRM, SIGALRM, SIGALRM, SIGALRM] h {0, 1, 2, 3} Accepting srv_start \<and>
     count_list (printed h) NOT_UP = 1"
proof -
  obtain h where h: "srv_run 3 {0, 1, 2, 3} [SIGALRM, SIGALRM, SIGALRM, SIGALRM] h {0, 1, 2, 3} Accepting srv_start"
    using srv_four_alarms by blast
  then show ?thesis using srv_declares_every_fourth [OF h] by (auto simp: srv_start_def)
qed

text \<open>
  C27: A client sends a heartbeat only when it has reason to, and tells the user of a loss only once. In
  every run of the client and of its version for Android, with signals whenever the main loop waits, in
  \<open>connect\<close>, \<open>recv\<close> or \<open>sleep\<close>, the heartbeats sent are at most one more than the answers and the
  connections together. An answer is an urgent byte \<open>s\<close>, or a \<open>recv\<close> that brought no byte and left the
  variable as it was; another byte is none. The losses announced are at most one more than the urgent
  signals.
\<close>

theorem client_pace:
  assumes "sig_run cli_sig_handler (cli_step ip_text port) fds0 Looping cli_start ss h fds p st \<or>
    sig_run and_sig_handler (and_step strerror) fds0 Looping cli_start ss h fds p st"
  shows "beats h \<le> 1 + answered h + connected h \<and> losses h \<le> 1 + count_list ss SIGURG"
  using assms cli_pace.machine_inv [of ip_text port fds0 Looping cli_start ss h fds p st]
    and_pace.machine_inv [of strerror fds0 Looping cli_start ss h fds p st]
  by (auto simp: pace_inv_def cli_start_def)

text \<open>An alarm finds the client in \<open>connect\<close>; later the connection is made.\<close>

theorem client_pace_witness:
  "\<exists>h fds st. sig_run and_sig_handler (and_step (\<lambda>_. [])) {0, 1, 2} Looping cli_start [SIGALRM] h fds Waiting st \<and>
     connected h = 1 \<and> beats h = 1 \<and> beats h \<le> 1 + answered h + connected h"
proof -
  let ?run = "sig_run and_sig_handler (and_step (\<lambda>_. [])) {0, 1, 2} Looping cli_start"
  let ?st = "cli_start\<lparr>conn_fd := 3\<rparr>"
  let ?addr = "Sin (htons (word_of_int AND_PORT)) [192, 168, 88, 254]"
  have start: "?run [] [] {0, 1, 2} Looping cli_start" by (rule sig_run.start)
  obtain t1 where 1: "and_step (\<lambda>_. []) Looping cli_start [ok 3, ok 0, (ok 1)\<lparr>ip := [192, 168, 88, 254]\<rparr>] =
      (Ret (Dialing ?addr, ?st), t1, [])" "conforms {0, 1, 2} t1" "connected t1 = 0" "beats t1 = 0" "fds_run {0, 1, 2} t1 = {0, 1, 2, 3}"
    by (auto simp: and_step_def and_dial_def run_simps)
  obtain t2 where 2: "and_sig_handler NUL SIGALRM ?st [ok 0, ok 1] = (Ret (?st\<lparr>got_reply := False\<rparr>), t2, [])"
    "conforms {0, 1, 2, 3} t2" "connected t2 = 0" "beats t2 = 1" "fds_run {0, 1, 2, 3} t2 = {0, 1, 2, 3}"
    by (auto simp: and_sig_handler_def cli_start_def run_simps)
  obtain t3 where 3: "and_step (\<lambda>_. []) (Dialing ?addr) (?st\<lparr>got_reply := False\<rparr>) [ok 0, ok 0] =
      (Ret (Waiting, ?st\<lparr>got_reply := True\<rparr>), t3, [])" "conforms {0, 1, 2, 3} t3" "connected t3 = 1" "beats t3 = 0"
    by (auto simp: and_step_def and_connecting_def and_connected_def run_simps)
  from sig_run.main_step [OF start 1(1,2)] 1(5) have "?run [] t1 {0, 1, 2, 3} (Dialing ?addr) ?st" by simp
  from sig_run.signal [OF this 2(1,2)] 2(5)
  have "?run [SIGALRM] (t1 @ t2) {0, 1, 2, 3} (Dialing ?addr) (?st\<lparr>got_reply := False\<rparr>)" by simp
  from sig_run.main_step [OF this 3(1,2)]
  have run: "?run [SIGALRM] ((t1 @ t2) @ t3) (fds_run {0, 1, 2, 3} t3) Waiting (?st\<lparr>got_reply := True\<rparr>)" .
  from client_pace [OF disjI2, OF run] run 1(3,4) 2(3,4) 3(3,4) show ?thesis by fastforce
qed

text \<open>
  The client leaks its socket, the version for Android does not. After a turn of the client in which
  it was connected, the socket of that turn is still open, a new descriptor of the process; after any
  turn of the version for Android the process has the descriptors it had before.
\<close>

theorem client_leaks_socket:
  assumes "conforms fds t" and "\<forall>fd \<in> fds. 0 \<le> fd"
  shows "(cli_turn ip_text port st rs = (Ret (Inl st'), t, rs') \<and> connected t = 1 \<longrightarrow>
      conn_fd st' \<notin> fds \<and> fds_run fds t = insert (conn_fd st') fds) \<and>
    (and_turn strerror st rs = (Ret (Inl st'), t, rs') \<longrightarrow> fds_run fds t = fds)"
proof -
  have "vld fds (cli_turn ip_text port st) (\<lambda>r t. \<forall>st'. r = Ret (Inl st') \<and> connected t = 1 \<longrightarrow>
      conn_fd st' \<notin> fds \<and> fds_run fds t = insert (conn_fd st') fds)"
    using assms(2)
    by (auto simp: cli_turn_def cli_defs expire_tick_def io_simps
        Let_def sys_ok_def)
  moreover have "vld fds (and_turn strerror st) (\<lambda>r t. \<forall>st'. r = Ret (Inl st') \<longrightarrow> fds_run fds t = fds)"
    using assms(2)
    by (auto simp: and_turn_def and_defs expire_tick_def io_simps
        Let_def sys_ok_def)
  ultimately show ?thesis using assms(1) by (auto dest: vldD)
qed

theorem client_leaks_socket_witness:
  "case cli_turn ''127.0.0.1'' 5003 cli_start
      [ok 3, ok 0, (ok 1)\<lparr>ip := [127, 0, 0, 1]\<rparr>, ok 0, ok 0, ok 0, ok 0] of (r, t, rs) \<Rightarrow>
     conforms {0, 1, 2} t \<and> fds_run {0, 1, 2} t = {0, 1, 2, 3}"
proof -
  let ?run = "cli_turn ''127.0.0.1'' 5003 cli_start
      [ok 3, ok 0, (ok 1)\<lparr>ip := [127, 0, 0, 1]\<rparr>, ok 0, ok 0, ok 0, ok 0]"
  obtain st t rs where run: "?run = (Ret (Inl st), t, rs)" and t: "conforms {0, 1, 2} t" "connected t = 1"
      "conn_fd st = 3"
    by (auto simp: cli_turn_def cli_defs cli_start_def
        CLI_ALARM_INTERVAL_def run_simps cong: lazy)
  have "fds_run {0, 1, 2} t = insert (conn_fd st) {0, 1, 2}"
    using client_leaks_socket [OF t(1), of "''127.0.0.1''" 5003 cli_start _ st rs] run t(2) by auto
  then show ?thesis using run t by auto
qed

end
