(* ===== verification/Heartbeat_Router.thy ===== *)
theory Heartbeat_Router
  imports Heartbeat
begin

text \<open>
  \<open>C/heartbeat_router.c\<close>: the heartbeat server for a router. The connection is served in a child process,
  the alarm runs in the parent; the count of alarms without a heartbeat is kept in a file, since both
  processes use it.
\<close>

definition FILENAME :: string where "FILENAME = ''/tmp/heartbeat''"
definition ROUTER_PEER_EXPIRE_CNT :: int where "ROUTER_PEER_EXPIRE_CNT = 30"
definition LISTEN_PORT :: "16 word" where "LISTEN_PORT = 5003"
definition REBOOT :: string where "REBOOT = ''echo 1 > /sys/android/reboot''"

text \<open>\<open>O_RDWR | O_CREAT | O_TRUNC\<close> and \<open>O_RDONLY\<close>.\<close>

definition O_REWRITE :: "32 word" where "O_REWRITE = 0x242"

record router =
  router_fd :: int
  child_pid :: int
  router_reset :: int

subsection \<open>The count in the file\<close>

text \<open>The local \<open>str\<close> has 25 bytes; \<open>junk\<close> is what it holds.\<close>

definition write_expire_cnt :: "buf \<Rightarrow> int \<Rightarrow> unit io" where
  "write_expire_cnt junk v =
     fits (put_cstr 0 (show_int v) junk) (\<lambda>str.
     sys (Open FILENAME O_REWRITE) (\<lambda>fd.
     sys (Write (rv fd) (cstr str @ [NUL])) (\<lambda>_.
     sys (Close (rv fd)) (\<lambda>_. ret ()))))"

definition read_expire_cnt :: "buf \<Rightarrow> int io" where
  "read_expire_cnt junk =
     sys (Open FILENAME O_RDONLY) (\<lambda>fd.
     sys (Read (rv fd) (length junk)) (\<lambda>a.
     fits (store 0 (dat a) junk) (\<lambda>str.
     sys (Close (rv fd)) (\<lambda>_.
     with_cstr str (\<lambda>s. ret (atoi s))))))"

subsection \<open>The handler\<close>

definition router_alarm :: "buf \<Rightarrow> router \<Rightarrow> router io" where
  "router_alarm junk st =
     sys (Alarm 2) (\<lambda>_.
     bnd (read_expire_cnt junk) (\<lambda>cnt.
     printf (''expire_cnt = '' @ show_int cnt @ '', already_reset = '' @ show_int (router_reset st) @ ''.'' @ [LF])
     (bnd (if ROUTER_PEER_EXPIRE_CNT = cnt \<and> router_reset st = 0 then
             printf NOT_UP
             (sys (Close (router_fd st)) (\<lambda>_.
              bnd (if child_pid st > 0 then sys (Kill (child_pid st) SIGKILL) (\<lambda>_. ret ()) else ret ()) (\<lambda>_.
              sys (System REBOOT) (\<lambda>_.
              bnd (write_expire_cnt junk 0) (\<lambda>_. ret (st\<lparr>router_reset := 1\<rparr>))))))
           else ret st) (\<lambda>st'.
      if cnt = INT_MAX then fault Int_overflow
      else bnd (write_expire_cnt junk (cnt + 1)) (\<lambda>_. ret st')))))"

definition router_urgent :: "buf \<Rightarrow> char \<Rightarrow> router \<Rightarrow> router io" where
  "router_urgent junk junk_c st =
     sys (Recv_oob (router_fd st) 1) (\<lambda>a.
     bnd (if oob_char junk_c a = CHR ''c''
          then printf (''recv SIGURG'' @ [LF]) (sys (Send_oob (router_fd st) ''s'') (\<lambda>_. ret ()))
          else ret ()) (\<lambda>_.
     bnd (write_expire_cnt junk 0) (\<lambda>_. ret (st\<lparr>router_reset := 0\<rparr>))))"

definition router_sig_handler :: "buf \<Rightarrow> char \<Rightarrow> sig \<Rightarrow> router \<Rightarrow> router io" where
  "router_sig_handler junk junk_c signo st =
     (if signo = SIGURG then router_urgent junk junk_c st
      else if signo = SIGALRM then router_alarm junk st
      else if signo = SIGCHLD then sys Wait (\<lambda>_. ret st)
      else ret st)"

subsection \<open>The processes\<close>

text \<open>The child installs the handler for \<open>SIGURG\<close>, which the parent has not.\<close>

definition servlet :: "router \<Rightarrow> 'a io" where
  "servlet st =
     sys (Signal SIGURG (Handler ''sig_handler'')) (\<lambda>_.
     sys (Setown (router_fd st)) (\<lambda>own.
     let go = sys (Recv (router_fd st) 256) (\<lambda>_.
           printf (''RESET PEER : socket have been shutdown'' @ [LF])
           (sys (System REBOOT) (\<lambda>_. sys (Close (router_fd st)) (\<lambda>_. exit 0))))
     in if rv own \<noteq> 0 then perror ''Can't claim SIGIO and SIGURG'' go else go))"

text \<open>One turn of the parent; it never waits elsewhere than in \<open>accept\<close>.\<close>

definition router_turn :: "int \<Rightarrow> router \<Rightarrow> router io" where
  "router_turn listen_fd st =
     printf (''waiting for a scoket.'' @ [LF])
     (sys (Accept listen_fd) (\<lambda>a.
      let st1 = st\<lparr>router_fd := rv a\<rparr>
      in printf (''accept '' @ show_int (rv a) @ '' socket.'' @ [LF])
         (if rv a > 0 then
            sys Fork (\<lambda>pid.
              if rv pid = 0 then sys (Close listen_fd) (\<lambda>_. servlet st1)
              else sys (Close (rv a)) (\<lambda>_. ret (st1\<lparr>child_pid := rv pid\<rparr>)))
          else perror ''accept()'' (ret st1))))"

text \<open>The turn as a step of \<open>sig_run\<close>; there is one point where it waits.\<close>

definition router_step :: "int \<Rightarrow> unit \<Rightarrow> router \<Rightarrow> (unit \<times> router) io" where
  "router_step listen_fd _ st = bnd (router_turn listen_fd st) (\<lambda>st'. ret ((), st'))"

definition router_main :: "unit io" where
  "router_main =
     sys (Signal SIGCHLD (Handler ''sig_handler'')) (\<lambda>_.
     sys (Signal SIGALRM (Handler ''sig_handler'')) (\<lambda>_.
     sys (Socket AF_INET SOCK_STREAM 0) (\<lambda>s.
     sys (Setsockopt_reuse (rv s) 1) (\<lambda>opt.
       if rv opt < 0 then perror ''setsockopt'' (exit (- 1))
       else sys (Bind (rv s) (Sin (htons LISTEN_PORT) (htonl INADDR_ANY))) (\<lambda>b.
         let go = sys (Listen (rv s) 15) (\<lambda>_. sys (Alarm 2) (\<lambda>_.
           loop (\<lambda>st. bnd (router_turn (rv s) st) (\<lambda>st'. ret (Inl st')))
             \<lparr>router_fd = 0, child_pid = 0, router_reset = 0\<rparr>))
         in if rv b \<noteq> 0 then perror ''bind()'' go else go)))))"

subsection \<open>The file\<close>

text \<open>
  What the file holds after a trace, and that every open of it succeeds, every write is complete and
  every read brings the first bytes of it. The program reads and writes nothing but the file with
  \<open>read\<close> and \<open>write\<close>.
\<close>

fun file_after :: "string \<Rightarrow> event list \<Rightarrow> string" where
  "file_after c [] = c"
| "file_after c (Call (File (OPEN p fl)) a # t) = file_after (if fl = O_REWRITE then '''' else c) t"
| "file_after c (Call (Transfer fd (WRITE bs)) a # t) = file_after (c @ bs) t"
| "file_after c (_ # t) = file_after c t"

fun file_ok :: "string \<Rightarrow> event list \<Rightarrow> bool" where
  "file_ok c [] = True"
| "file_ok c (Call (File (OPEN p fl)) a # t) =
     (0 \<le> rv a \<and> file_ok (if fl = O_REWRITE then '''' else c) t)"
| "file_ok c (Call (Transfer fd (WRITE bs)) a # t) = (rv a = int (length bs) \<and> file_ok (c @ bs) t)"
| "file_ok c (Call (Transfer fd (READ n)) a # t) = (dat a = take n c \<and> file_ok c t)"
| "file_ok c (_ # t) = file_ok c t"

lemma file_after_append [simp]: "file_after c (s @ t) = file_after (file_after c s) t"
  by (induction c s rule: file_after.induct) auto

lemma file_ok_append [simp]: "file_ok c (s @ t) \<longleftrightarrow> file_ok c s \<and> file_ok (file_after c s) t"
  by (induction c s rule: file_ok.induct) auto

text \<open>How many times the peer was rebooted.\<close>

fun is_reboot :: "event \<Rightarrow> bool" where
  "is_reboot (Call (Proc (SYSTEM cmd)) a) = (cmd = REBOOT)"
| "is_reboot _ = False"

definition reboots :: "event list \<Rightarrow> nat" where
  "reboots t = length (filter is_reboot t)"

lemma reboots_simps [simp]:
  "reboots [] = 0" "reboots (e # t) = (if is_reboot e then 1 else 0) + reboots t"
  "reboots (s @ t) = reboots s + reboots t"
  by (simp_all add: reboots_def)

definition holds_cnt :: "int \<Rightarrow> string \<Rightarrow> bool" where
  "holds_cnt v c \<longleftrightarrow> c = show_int v @ [NUL]"

lemma show_int_fits: "in_int v \<Longrightarrow> length (show_int v) < 25"
  using length_show_int [of v] by simp

text \<open>Writing the count and reading it back.\<close>

lemma write_cnt_ok:
  assumes "in_int v" and "length junk = 25"
  shows "vld fds (write_expire_cnt junk v) (\<lambda>r t. reboots t = 0 \<and> (\<forall>z. r = Stop z \<longrightarrow> z = Blocked) \<and>
    (r = Ret () \<longrightarrow> (\<forall>c. holds_cnt v (file_after c t))))"
  using assms show_int_fits [of v]
  by (auto simp: write_expire_cnt_def io_simps put_cstr_0 holds_cnt_def cstr_append)

lemma read_cnt_ok:
  assumes "in_int v" and "length junk = 25" and "holds_cnt v c"
  shows "vld fds (read_expire_cnt junk) (\<lambda>r t. reboots t = 0 \<and> file_after c t = c \<and>
    (file_ok c t \<longrightarrow> (\<forall>z. r = Stop z \<longrightarrow> z = Blocked) \<and> (\<forall>w. r = Ret w \<longrightarrow> w = v)))"
proof -
  have len: "length (show_int v) < 25" using show_int_fits [OF assms(1)] .
  then have "take 25 c = show_int v @ [NUL]" using assms(3) by (simp add: holds_cnt_def)
  moreover have "store 0 (show_int v @ [NUL]) junk = Some ((show_int v @ [NUL]) @ drop (Suc (length (show_int v))) junk)"
    using len assms(2) by (simp add: store_def)
  ultimately show ?thesis
    using assms by (auto simp: read_expire_cnt_def io_simps O_REWRITE_def O_RDONLY_def cstr_append sys_ok_def store_def)
qed
lemma file_skip [simp]:
  "file_ok c (Call (Alarm n) a # t) = file_ok c t" "file_after c (Call (Alarm n) a # t) = file_after c t"
  by simp_all

text \<open>The part of the handler that reboots the peer.\<close>

lemma reset_ok:
  assumes "length junk = 25"
  shows "vld fds (sys (Close (router_fd st)) (\<lambda>_.
      bnd (if child_pid st > 0 then sys (Kill (child_pid st) SIGKILL) (\<lambda>_. ret ()) else ret ()) (\<lambda>_.
      sys (System REBOOT) (\<lambda>_.
      bnd (write_expire_cnt junk 0) (\<lambda>_. ret (st\<lparr>router_reset := 1\<rparr>))))))
    (\<lambda>r t. \<forall>st'. r = Ret st' \<longrightarrow> reboots t = 1 \<and> router_reset st' = 1)"
proof -
  have w: "vld fds' (bnd (write_expire_cnt junk 0) (\<lambda>_. ret (st\<lparr>router_reset := 1\<rparr>)))
      (\<lambda>r t. \<forall>st'. r = Ret st' \<longrightarrow> reboots t = 0 \<and> router_reset st' = 1)" for fds'
    by (rule vld_bnd_use [OF write_cnt_ok]) (use assms in \<open>auto simp: io_simps in_int_def INT_MAX_def INT_MIN_def\<close>)
  show ?thesis
    by (auto simp: io_simps intro!: vld_mono [OF w])
qed

text \<open>What an alarm does to the count and the flag, when the file holds \<open>v\<close>.\<close>

definition alarm_done :: "int \<Rightarrow> router \<Rightarrow> router result \<Rightarrow> event list \<Rightarrow> bool" where
  "alarm_done v st r t \<longleftrightarrow> (\<forall>st'. r = Ret st' \<longrightarrow> v < INT_MAX \<and>
     (\<forall>c. holds_cnt (v + 1) (file_after c t)) \<and>
     (if v = ROUTER_PEER_EXPIRE_CNT \<and> router_reset st = 0 then reboots t = 1 \<and> router_reset st' = 1
      else reboots t = 0 \<and> router_reset st' = router_reset st))"

definition alarm_ok :: "int \<Rightarrow> router \<Rightarrow> string \<Rightarrow> router result \<Rightarrow> event list \<Rightarrow> bool" where
  "alarm_ok v st c r t \<longleftrightarrow> (file_ok c t \<longrightarrow> alarm_done v st r t)"

lemma alarm_simps [simp]:
  "alarm_ok v st c (Stop z) t" "alarm_done v st (Stop z) t"
  "alarm_ok v st c r (Call (Alarm n) a # t) = alarm_ok v st c r t"
  "alarm_done v st r (Out s # t) = alarm_done v st r t"
  by (simp_all add: alarm_ok_def alarm_done_def)

lemma router_alarm_ok:
  assumes junk: "length junk = 25" and v: "in_int v" and c: "holds_cnt v c"
  shows "vld fds (router_alarm junk st) (alarm_ok v st c)"
proof -
  define reset where "reset = (sys (Close (router_fd st)) (\<lambda>_.
      bnd (if child_pid st > 0 then sys (Kill (child_pid st) SIGKILL) (\<lambda>_. ret ()) else ret ()) (\<lambda>_.
      sys (System REBOOT) (\<lambda>_.
      bnd (write_expire_cnt junk 0) (\<lambda>_. ret (st\<lparr>router_reset := 1\<rparr>))))))"
  have last: "vld fds' (bnd (write_expire_cnt junk (v + 1)) (\<lambda>_. ret st'))
      (\<lambda>r t. \<forall>x. r = Ret x \<longrightarrow> x = st' \<and> reboots t = 0 \<and> (\<forall>c. holds_cnt (v + 1) (file_after c t)))"
    if "v \<noteq> INT_MAX" for fds' st'
  proof -
    have "in_int (v + 1)" using v that by (auto simp: in_int_def)
    from write_cnt_ok [OF this junk] show ?thesis by (rule vld_bnd_use) (auto simp: io_simps)
  qed
  define rest where "rest = (\<lambda>x. bnd (if ROUTER_PEER_EXPIRE_CNT = x \<and> router_reset st = 0
        then printf NOT_UP reset else ret st)
      (\<lambda>st'. if x = INT_MAX then fault Int_overflow
             else bnd (write_expire_cnt junk (x + 1)) (\<lambda>_. ret st')))"
  have rest: "vld fds' (rest v) (alarm_done v st)" for fds'
  proof (cases "v = INT_MAX")
    case True
    then show ?thesis by (simp add: rest_def io_simps ROUTER_PEER_EXPIRE_CNT_def INT_MAX_def)
  next
    case small: False
    then have lt: "v < INT_MAX" using v by (simp add: in_int_def)
    note last = last [OF small]
    show ?thesis
    proof (cases "ROUTER_PEER_EXPIRE_CNT = v \<and> router_reset st = 0")
    case True
    have "vld fds' (bnd reset (\<lambda>st'. bnd (write_expire_cnt junk (v + 1)) (\<lambda>_. ret st')))
      (\<lambda>r t. \<forall>st'. r = Ret st' \<longrightarrow> (\<forall>c. holds_cnt (v + 1) (file_after c t)) \<and> reboots t = 1 \<and>
        router_reset st' = 1)"
      unfolding reset_def by (rule vld_bnd_use [OF reset_ok [OF junk]]) (auto intro!: vld_mono [OF last])
    then have "vld fds' (bnd reset (\<lambda>st'. bnd (write_expire_cnt junk (v + 1)) (\<lambda>_. ret st'))) (alarm_done v st)"
      by (rule vld_mono) (use True lt in \<open>auto simp: alarm_done_def\<close>)
    then show ?thesis using True lt by (simp add: rest_def io_simps)
  next
    case False
    have "vld fds' (bnd (write_expire_cnt junk (v + 1)) (\<lambda>_. ret st)) (alarm_done v st)"
      by (rule vld_mono [OF last]) (use False lt in \<open>auto simp: alarm_done_def\<close>)
    then show ?thesis using False lt by (auto simp: rest_def io_simps)
    qed
  qed
  define say where "say = (\<lambda>x. ''expire_cnt = '' @ show_int x @ '', already_reset = '' @
      show_int (router_reset st) @ ''.'' @ [LF])"
  have "vld fds' (bnd (read_expire_cnt junk) (\<lambda>x. printf (say x) (rest x))) (alarm_ok v st c)" for fds'
  proof (rule vld_bnd_use [OF read_cnt_ok [OF v junk c]])
    fix x t
    assume t: "reboots t = 0 \<and> file_after c t = c \<and> (file_ok c t \<longrightarrow> (\<forall>z. Ret x = Stop z \<longrightarrow> z = Blocked) \<and>
        (\<forall>w. Ret x = Ret w \<longrightarrow> w = v))"
    show "vld (fds_run fds' t) (printf (say x) (rest x)) (\<lambda>r t'. alarm_ok v st c r (t @ t'))"
    proof (cases "x = v")
      case True
      show ?thesis unfolding vld_print True
        by (rule vld_mono [OF rest]) (use t in \<open>auto simp: alarm_ok_def alarm_done_def\<close>)
    next
      case False
      with t have "\<not> file_ok c t" by auto
      then show ?thesis by (auto intro: vldI simp: alarm_ok_def)
    qed
  qed simp
  then show ?thesis
    unfolding router_alarm_def reset_def [symmetric] rest_def say_def by (simp add: vld_sys)
qed

text \<open>Whatever the file holds, an alarm reboots the peer only when the flag is clear, and sets it then.\<close>

definition reboot_law :: "router \<Rightarrow> router result \<Rightarrow> event list \<Rightarrow> bool" where
  "reboot_law st r t \<longleftrightarrow> (\<forall>st'. r = Ret st' \<longrightarrow>
     reboots t = 0 \<and> router_reset st' = router_reset st \<or>
     reboots t = 1 \<and> router_reset st = 0 \<and> router_reset st' = 1)"

lemma count_no_reboot:
  "vld fds (write_expire_cnt junk v) (\<lambda>r t. reboots t = 0)"
  "vld fds (read_expire_cnt junk) (\<lambda>r t. reboots t = 0)"
  by (auto simp: write_expire_cnt_def read_expire_cnt_def io_simps)

lemma router_alarm_reboots: "vld fds (router_alarm junk st) (reboot_law st)"
proof -
  have w: "vld fds' (bnd (write_expire_cnt junk v) (\<lambda>_. ret st')) (\<lambda>r t. reboots t = 0 \<and> (\<forall>x. r = Ret x \<longrightarrow> x = st'))"
    for fds' v st'
    by (rule vld_bnd_use [OF count_no_reboot(1)]) (simp_all add: io_simps)
  have w2: "vld fds' (bnd (write_expire_cnt junk 0) (\<lambda>_. bnd (write_expire_cnt junk v) (\<lambda>_. ret st')))
      (\<lambda>r t. reboots t = 0 \<and> (\<forall>x. r = Ret x \<longrightarrow> x = st'))" for fds' v st'
    by (rule vld_bnd_use [OF count_no_reboot(1)]) (auto intro!: vld_mono [OF w])
  have f2: "vld fds' (bnd (write_expire_cnt junk 0) (\<lambda>_. fault Int_overflow :: router io)) (\<lambda>r t. \<forall>x. r \<noteq> Ret x)" for fds'
    by (rule vld_bnd_use [OF count_no_reboot(1)]) (simp_all add: io_simps)
  show ?thesis
    unfolding router_alarm_def vld_sys
    by (auto simp: io_simps bnd_assoc reboot_law_def intro!: vld_bnd_use [OF count_no_reboot(2)]
        vld_mono [OF w] vld_mono [OF w2] vld_mono [OF f2])
qed

subsection \<open>The parent process\<close>

definition parent_inv :: "int \<Rightarrow> sig list \<Rightarrow> router \<Rightarrow> event list \<Rightarrow> bool" where
  "parent_inv v ss st h \<longleftrightarrow> (SIGURG \<notin> set ss \<longrightarrow>
     router_reset st = int (reboots h) \<and> reboots h \<le> 1 \<and>
     (file_ok (show_int v @ [NUL]) h \<longrightarrow>
       (let n = v + int (count_list ss SIGALRM)
        in in_int n \<and> holds_cnt n (file_after (show_int v @ [NUL]) h) \<and>
           reboots h = (if v \<le> 30 \<and> 30 < n then 1 else 0))))"

lemma parent_signal:
  assumes junk: "length junk = 25" and inv: "parent_inv v ss st h"
  shows "vld fds (router_sig_handler junk c signo st)
    (\<lambda>r t. \<forall>st'. r = Ret st' \<longrightarrow> parent_inv v (ss @ [signo]) st' (h @ t))"
proof (cases "signo = SIGALRM")
  case False
  show ?thesis
  proof (cases "signo = SIGURG")
    case True
    then show ?thesis by (auto intro!: vldI simp: parent_inv_def)
  next
    case no_urg: False
    with False inv show ?thesis by (auto simp: router_sig_handler_def io_simps parent_inv_def Let_def)
  qed
next
  case True
  let ?c0 = "show_int v @ [NUL]"
  define n where "n = v + int (count_list ss SIGALRM)"
  have new: "vld fds (router_alarm junk st) (\<lambda>r t. reboot_law st r t \<and> (SIGURG \<notin> set ss \<and> file_ok ?c0 h \<longrightarrow>
      alarm_ok n st (file_after ?c0 h) r t))"
  proof (cases "SIGURG \<notin> set ss \<and> file_ok ?c0 h")
    case True
    then have "in_int n" "holds_cnt n (file_after ?c0 h)" using inv by (auto simp: parent_inv_def n_def Let_def)
    from vld_conj [OF router_alarm_reboots router_alarm_ok [OF junk this]] show ?thesis
      by (rule vld_mono) simp
  qed (use router_alarm_reboots in \<open>auto elim: vld_mono\<close>)
  have "vld fds (router_alarm junk st) (\<lambda>r t. \<forall>st'. r = Ret st' \<longrightarrow> parent_inv v (ss @ [SIGALRM]) st' (h @ t))"
  proof (rule vld_mono [OF new], intro allI impI)
    fix r t st'
    assume law: "reboot_law st r t \<and> (SIGURG \<notin> set ss \<and> file_ok ?c0 h \<longrightarrow> alarm_ok n st (file_after ?c0 h) r t)"
      and r: "r = Ret st'"
    show "parent_inv v (ss @ [SIGALRM]) st' (h @ t)"
      using inv law
      by (auto simp: r parent_inv_def reboot_law_def alarm_ok_def alarm_done_def n_def Let_def in_int_def
          ROUTER_PEER_EXPIRE_CNT_def add_ac split: if_splits)
  qed
  then show ?thesis using True by (simp add: router_sig_handler_def)
qed

lemma parent_turn:
  "parent_inv v ss st h \<Longrightarrow> vld fds (router_turn l st) (\<lambda>r t. \<forall>st'. r = Ret st' \<longrightarrow> parent_inv v ss st' (h @ t))"
  by (auto simp: router_turn_def servlet_def io_simps Let_def parent_inv_def)

lemma parent_machine: "length junk = 25 \<Longrightarrow> sig_machine (router_sig_handler junk) (router_step l) (parent_inv v)"
  by unfold_locales
    (auto simp: router_step_def io_simps intro!: parent_signal vld_bnd_use [OF parent_turn])

definition router_start :: router where
  "router_start = \<lparr>router_fd = 0, child_pid = 0, router_reset = 0\<rparr>"

subsection \<open>Properties\<close>

text \<open>
  C19: The count survives its file. Writing any \<open>int\<close> with \<open>write_expire_cnt\<close> and reading the file with
  \<open>read_expire_cnt\<close>, into a local array with anything in it, gives the number back, without overrunning
  the 25 bytes, if the file system keeps the file.
\<close>

theorem router_count_roundtrip:
  assumes "in_int v" and "length junk = 25" and "length junk' = 25"
    and "bnd (write_expire_cnt junk v) (\<lambda>_. read_expire_cnt junk') rs = (r, t, rs')"
    and "conforms fds t" and "file_ok c t"
  shows "r = Ret v \<or> r = Stop Blocked"
proof -
  have "vld fds (bnd (write_expire_cnt junk v) (\<lambda>_. read_expire_cnt junk'))
      (\<lambda>r t. file_ok c t \<longrightarrow> r = Ret v \<or> r = Stop Blocked)"
  proof (rule vld_bnd_use [OF write_cnt_ok [OF assms(1,2)]])
    fix x t
    assume "reboots t = 0 \<and> (\<forall>z. Ret x = Stop z \<longrightarrow> z = Blocked) \<and>
        (Ret x = Ret () \<longrightarrow> (\<forall>c. holds_cnt v (file_after c t)))"
    then have "holds_cnt v (file_after c t)" by simp
    from read_cnt_ok [OF assms(1,3) this]
    show "vld (fds_run fds t) (read_expire_cnt junk')
        (\<lambda>r' t'. file_ok c (t @ t') \<longrightarrow> r' = Ret v \<or> r' = Stop Blocked)"
      by (rule vld_mono) (metis file_ok_append result.exhaust)
  qed simp
  from vldD [OF this assms(4,5)] assms(6) show ?thesis by simp
qed

definition count_script :: "reply list" where
  "count_script = [ok 3, ok 3, ok 0, ok 3, got (''12'' @ [NUL]), ok 0]"

theorem router_count_roundtrip_witness:
  "case bnd (write_expire_cnt (zeros 25) 12) (\<lambda>_. read_expire_cnt (replicate 25 CHR ''9'')) count_script of
     (r, t, rs) \<Rightarrow> r = Ret 12 \<and> conforms {0, 1, 2} t \<and> file_ok '''' t"
proof -
  let ?p = "bnd (write_expire_cnt (zeros 25) 12) (\<lambda>_. read_expire_cnt (replicate 25 CHR ''9''))"
  obtain r t rs where run: "?p count_script = (r, t, rs)" by (cases "?p count_script") auto
  have "case ?p count_script of (r, t, rs) \<Rightarrow> r \<noteq> Stop Blocked \<and> conforms {0, 1, 2} t \<and> file_ok '''' t"
    by (simp add: run_simps write_expire_cnt_def read_expire_cnt_def count_script_def O_REWRITE_def
        O_RDONLY_def cong: lazy)
  with run router_count_roundtrip [of 12 "zeros 25" "replicate 25 CHR ''9''" count_script r t rs "{0, 1, 2}" "[]"]
  show ?thesis by (simp add: in_int_def INT_MAX_def INT_MIN_def)
qed

text \<open>
  C20: The router reboots a silent peer once and never again. In every run of the parent process, which has
  no handler for \<open>SIGURG\<close>, with alarms and connections in any order, the peer is rebooted at most once,
  whatever the file \<open>/tmp/heartbeat\<close> holds at the start and whatever the file system does: nothing in the
  parent clears \<open>already_reset\<close>, since the urgent byte is handled in the child. If the file holds the count
  \<open>v\<close> at the start and is kept, then after \<open>n\<close> alarms it holds \<open>v + n\<close>, the 0 written at the reboot being
  overwritten by 31 at the end of the same handler, and the peer has been rebooted exactly if the count
  went from 30 or less to more than 30.
\<close>

theorem router_reboots_once:
  assumes "sig_run (router_sig_handler junk) (router_step listen_fd) fds0 () router_start ss h fds p st"
    and "length junk = 25" and "SIGURG \<notin> set ss"
  shows "reboots h \<le> 1 \<and>
    (in_int v \<and> file_ok (show_int v @ [NUL]) h \<longrightarrow>
      file_after (show_int v @ [NUL]) h = show_int (v + int (count_list ss SIGALRM)) @ [NUL] \<and>
      reboots h = (if v \<le> 30 \<and> 30 < v + int (count_list ss SIGALRM) then 1 else 0))"
proof -
  have inv: "parent_inv v ss st h" if "in_int v" for v
    by (rule sig_machine.machine_inv [OF parent_machine [OF assms(2)] assms(1)])
      (simp add: parent_inv_def router_start_def Let_def holds_cnt_def that)
  have "in_int 0" by (simp add: in_int_def INT_MAX_def INT_MIN_def)
  from inv [OF this] inv [of v] assms(3) show ?thesis by (auto simp: parent_inv_def Let_def holds_cnt_def)
qed

text \<open>The file holds 30, and one alarm comes.\<close>

theorem router_reboots_once_witness:
  "\<exists>h fds st. sig_run (router_sig_handler (zeros 25)) (router_step 3) {0, 1, 2, 3} () router_start
     [SIGALRM] h fds () st \<and> file_after (show_int 30 @ [NUL]) h = ''31'' @ [NUL] \<and> reboots h = 1"
proof -
  let ?rs = "[ok 0, ok 4, got (''30'' @ [NUL]), ok 0, ok 0, ok 0, ok 4, ok 2, ok 0, ok 4, ok 3, ok 0]"
  let ?st = "router_start\<lparr>router_reset := 1\<rparr>"
  have thirty: "atoi ''30'' = 30"
    using atoi_show_int [of 30] by (simp add: run_simps in_int_def INT_MAX_def INT_MIN_def)
  have "\<exists>t. router_sig_handler (zeros 25) NUL SIGALRM router_start ?rs = (Ret ?st, t, []) \<and>
      conforms {0, 1, 2, 3} t \<and> file_ok (show_int 30 @ [NUL]) t"
    by (simp add: run_simps router_sig_handler_def router_alarm_def write_expire_cnt_def
        read_expire_cnt_def router_start_def O_REWRITE_def O_RDONLY_def ROUTER_PEER_EXPIRE_CNT_def
        INT_MAX_def thirty cong: lazy)
  then obtain t where t: "router_sig_handler (zeros 25) NUL SIGALRM router_start ?rs = (Ret ?st, t, [])"
    "conforms {0, 1, 2, 3} t" "file_ok (show_int 30 @ [NUL]) t" by (elim exE conjE) rule
  have run: "sig_run (router_sig_handler (zeros 25)) (router_step 3) {0, 1, 2, 3} () router_start
      ([] @ [SIGALRM]) ([] @ t) (fds_run {0, 1, 2, 3} t) () ?st"
    by (rule sig_run.signal) (rule sig_run.start, rule t, rule t)
  from router_reboots_once [OF run, of 30] t(3) run show ?thesis
    by (auto simp: in_int_def INT_MAX_def INT_MIN_def run_simps)
qed

end
