(* ===== verification/Addr_Walk.thy ===== *)
theory Addr_Walk
  imports Eval
begin

text \<open>
  The functions that look a host and a service up and try the addresses one after the other:
  \<open>tcp_listen\<close> (\<open>C/daytime_tcp_server.c\<close>, and with other messages \<open>C/daytime_tcp_server_daemon.c\<close>),
  \<open>tcp_connect\<close> (\<open>C/daytime_tcp_client.c\<close>), \<open>udp_server\<close> (\<open>C/daytime_udp_server.c\<close>) and \<open>udp_client\<close>
  (\<open>C/daytime_udp_client.c\<close>).

  The state of a walk is what is left of the list, beginning with \<open>res\<close>, and the last descriptor. The
  text of an error of \<open>getaddrinfo\<close> is the library's: the parameter \<open>gai\<close>.
\<close>

type_synonym walk = "addrinfo list \<times> int"

definition show_host :: "string option \<Rightarrow> string" where
  "show_host h = (case h of None \<Rightarrow> ''(null)'' | Some s \<Rightarrow> s)"

abbreviation "Socket_for r \<equiv> Socket (ai_family r) (ai_socktype r) (ai_protocol r)"

subsection \<open>\<open>tcp_listen\<close>\<close>

text \<open>\<open>complain\<close> is \<open>perror\<close>, in the daemon \<open>syslog\<close>. After a failed \<open>socket\<close> the loop goes on with the same entry.\<close>

definition listen_body ::
  "(string \<Rightarrow> (walk + walk) io \<Rightarrow> (walk + walk) io) \<Rightarrow> walk \<Rightarrow> (walk + walk) io" where
  "listen_body complain = (\<lambda>(res, listenfd).
     case res of
       [] \<Rightarrow> ret (Inr ([], listenfd))
     | r # next_res \<Rightarrow>
         sys (Socket_for r) (\<lambda>s.
           if rv s < 0 then ret (Inl (res, rv s))
           else sys (Setsockopt_reuse (rv s) 1) (\<lambda>opt.
             if rv opt < 0 then complain ''setsockopt'' (exit 1)
             else sys (Bind (rv s) (ai_addr r)) (\<lambda>b.
               if rv b = 0 then ret (Inr (res, rv s))
               else sys (Close (rv s)) (\<lambda>_. ret (Inl (next_res, rv s)))))))"

text \<open>
  The message for a failed lookup has four conversions and three arguments; \<open>*p_addrlen = res->ai_addrlen\<close>
  follows \<open>res\<close>.
\<close>

definition tcp_listen ::
  "(string \<Rightarrow> (walk + walk) io \<Rightarrow> (walk + walk) io) \<Rightarrow> (string \<Rightarrow> int io \<Rightarrow> int io) \<Rightarrow> int \<Rightarrow>
    string option \<Rightarrow> string \<Rightarrow> int io" where
  "tcp_listen complain complain' junk host serv =
     sys (Getaddrinfo host (Some serv) True AF_UNSPEC SOCK_STREAM) (\<lambda>g.
       if rv g \<noteq> 0 then fault Overread
       else bnd (loop (listen_body complain) (ais g, junk)) (\<lambda>(res, listenfd).
         sys (Listen listenfd 10) (\<lambda>l.
           if rv l < 0 then complain' ''listen'' (exit 1)
           else if res = [] then fault Null
           else sys Freeaddrinfo (\<lambda>_. ret listenfd))))"

subsection \<open>\<open>tcp_connect\<close>\<close>

definition connect_body :: "walk \<Rightarrow> (walk + walk) io" where
  "connect_body = (\<lambda>(res, sockfd).
     case res of
       [] \<Rightarrow> ret (Inr ([], sockfd))
     | r # next_res \<Rightarrow>
         sys (Socket_for r) (\<lambda>s.
           if rv s < 0 then ret (Inl (res, rv s))
           else sys (Connect (rv s) (ai_addr r)) (\<lambda>c.
             if rv c = 0 then ret (Inr (res, rv s))
             else sys (Close (rv s)) (\<lambda>_. ret (Inl (next_res, rv s))))))"

text \<open>
  \<open>if ((n == getaddrinfo(...)) != 0)\<close> compares the uninitialised \<open>n\<close> (here \<open>junk_n\<close>) with the result. When
  the lookup fails and they differ, \<open>res\<close> is used though nothing has set it.
\<close>

definition connect_error :: "string \<Rightarrow> string \<Rightarrow> string" where
  "connect_error host serv = ''tcp_connect error for '' @ host @ '', '' @ serv @ ''.'' @ [LF]"

definition tcp_connect :: "(int \<Rightarrow> string) \<Rightarrow> int \<Rightarrow> int \<Rightarrow> string \<Rightarrow> string \<Rightarrow> int io" where
  "tcp_connect gai junk_n junk host serv =
     sys (Getaddrinfo (Some host) (Some serv) False AF_UNSPEC SOCK_STREAM) (\<lambda>g.
       if junk_n = rv g then
         printf (''getaddrinfo error for '' @ host @ '', '' @ serv @ '': '' @ gai junk_n @ ''.'' @ [LF]) (exit 1)
       else if rv g \<noteq> 0 then fault Null
       else bnd (loop connect_body (ais g, junk)) (\<lambda>(res, sockfd).
         says (if res = [] then [connect_error host serv] else [])
         (sys Freeaddrinfo (\<lambda>_. ret sockfd))))"

subsection \<open>\<open>udp_server\<close> and \<open>udp_client\<close>\<close>

definition udp_bind_body :: "walk \<Rightarrow> (walk + walk) io" where
  "udp_bind_body = (\<lambda>(res, sockfd).
     case res of
       [] \<Rightarrow> ret (Inr ([], sockfd))
     | r # next_res \<Rightarrow>
         sys (Socket_for r) (\<lambda>s.
           if rv s < 0 then ret (Inl (res, rv s))
           else sys (Bind (rv s) (ai_addr r)) (\<lambda>b.
             if rv b = 0 then ret (Inr (res, rv s))
             else sys (Close (rv s)) (\<lambda>_. ret (Inl (next_res, rv s))))))"

definition udp_server :: "(int \<Rightarrow> string) \<Rightarrow> int \<Rightarrow> string option \<Rightarrow> string \<Rightarrow> int io" where
  "udp_server gai junk host serv =
     sys (Getaddrinfo host (Some serv) True AF_UNSPEC SOCK_DGRAM) (\<lambda>g.
       if rv g \<noteq> 0 then
         printf (''udp_server error for '' @ show_host host @ '', '' @ serv @ '' : '' @ gai (rv g) @ [LF]) (exit 1)
       else bnd (loop udp_bind_body (ais g, junk)) (\<lambda>(res, sockfd).
         if res = [] then printf (''udp_server error for '' @ show_host host @ '', '' @ serv @ [LF]) (exit 1)
         else sys Freeaddrinfo (\<lambda>_. ret sockfd)))"

text \<open>The walk of the client moves on after a failed \<open>socket\<close>.\<close>

fun udp_client_walk :: "addrinfo list \<Rightarrow> int \<Rightarrow> walk io" where
  "udp_client_walk [] sockfd = ret ([], sockfd)"
| "udp_client_walk (r # next_res) sockfd =
     sys (Socket_for r) (\<lambda>s.
       if rv s \<ge> 0 then ret (r # next_res, rv s) else udp_client_walk next_res (rv s))"

text \<open>
  \<open>ai_addrlen\<close> is the size of the structure. The address is copied into a new block for the caller; a null
  pointer from \<open>malloc\<close> is not tested.
\<close>

fun ai_addrlen :: "sockaddr \<Rightarrow> nat" where
  "ai_addrlen (Sin _ _) = 16"
| "ai_addrlen (Sin6 _ _) = 28"
| "ai_addrlen (Sun _) = 110"
| "ai_addrlen (Sa_other _) = 16"

definition udp_client :: "(int \<Rightarrow> string) \<Rightarrow> int \<Rightarrow> string \<Rightarrow> string \<Rightarrow> (int \<times> sockaddr) io" where
  "udp_client gai junk host serv =
     sys (Getaddrinfo (Some host) (Some serv) False AF_UNSPEC SOCK_DGRAM) (\<lambda>g.
       if rv g \<noteq> 0 then
         printf (''udp_client error for '' @ host @ '', '' @ serv @ '' : '' @ gai (rv g)) (exit 1)
       else bnd (udp_client_walk (ais g) junk) (\<lambda>(res, sockfd).
         case res of
           [] \<Rightarrow> printf (''udp_client error for '' @ host @ '', '' @ serv @ ''.'' @ [LF]) (exit 1)
         | r # _ \<Rightarrow> sys (Malloc (ai_addrlen (ai_addr r))) (\<lambda>p.
             if rv p = 0 then fault Null else sys Freeaddrinfo (\<lambda>_. ret (sockfd, ai_addr r)))))"

subsection \<open>The walks\<close>

text \<open>
  What a walk keeps: nothing is open beyond what was before, and the last descriptor is closed once
  an entry has been tried. It ends with the socket of an entry, open, or at the end of the list.
\<close>

definition walk_inv :: "int set \<Rightarrow> int set \<Rightarrow> walk \<Rightarrow> bool" where
  "walk_inv fds0 fds w \<longleftrightarrow> fds = fds0 \<and> (fst w = [] \<longrightarrow> snd w \<notin> fds0)"

definition walk_done :: "int set \<Rightarrow> int set \<Rightarrow> walk result \<Rightarrow> bool" where
  "walk_done fds0 fds r \<longleftrightarrow>
     (case r of
        Ret w \<Rightarrow> snd w \<notin> fds0 \<and> fds = (if fst w = [] then fds0 else insert (snd w) fds0)
      | Stop z \<Rightarrow> z = Blocked \<or> z = Exit 1 \<or> z = Diverge)"

locale addr_walk =
  fixes body :: "walk \<Rightarrow> (walk + walk) io"
  assumes body_ok: "walk_inv fds0 fds w \<Longrightarrow> vld fds (body w) (\<lambda>r t. case r of
      Ret (Inl w') \<Rightarrow> walk_inv fds0 (fds_run fds t) w'
    | Ret (Inr w') \<Rightarrow> walk_done fds0 (fds_run fds t) (Ret w')
    | Stop z \<Rightarrow> walk_done fds0 (fds_run fds t) (Stop z))"
    and stuck: "rv a < 0 \<Longrightarrow>
      body (r # res, fd) (a # rs) = (Ret (Inl (r # res, rv a)), [Call (Socket_for r) a], rs)"
    and asks: "body (r # res, fd) [] = (Stop Blocked, [], [])"
begin

lemma walk_loop:
  assumes "ws \<noteq> []"
  shows "vld fds (loop body (ws, fd)) (\<lambda>r t. walk_done fds (fds_run fds t) r)"
proof -
  have "loop_contract body (\<lambda>fds' w h. fds' = fds_run fds h \<and> walk_inv fds fds' w)
      (\<lambda>r h. walk_done fds (fds_run fds h) r)"
  proof
    fix fds' w h
    assume "fds' = fds_run fds h \<and> walk_inv fds fds' w"
    then have f: "fds' = fds_run fds h" and w: "walk_inv fds fds' w" by blast+
    show "vld fds' (body w) (\<lambda>r t. case r of
        Ret (Inl s') \<Rightarrow> fds_run fds' t = fds_run fds (h @ t) \<and> walk_inv fds (fds_run fds' t) s'
      | Ret (Inr x) \<Rightarrow> walk_done fds (fds_run fds (h @ t)) (Ret x)
      | Stop z \<Rightarrow> walk_done fds (fds_run fds (h @ t)) (Stop z))"
      by (rule vld_mono [OF body_ok [OF w]]) (auto simp: f split: result.splits sum.splits)
    show "walk_done fds (fds_run fds h) (Stop Diverge)" by (simp add: walk_done_def)
  qed
  then show ?thesis
    by (rule loop_contract.loop_post) (use assms in \<open>simp add: walk_inv_def\<close>)
qed

text \<open>An entry for which no socket can be made is never left.\<close>

lemma walk_stuck:
  "\<forall>a \<in> set rs. rv a < 0 \<Longrightarrow>
    loop body (r # res, fd) rs = (Stop Blocked, map (Call (Socket_for r)) rs, [])"
proof (induction rs arbitrary: fd)
  case Nil
  then show ?case by (subst loop.simps) (simp add: asks)
next
  case (Cons a rs)
  then show ?case by (subst loop.simps) (simp add: stuck)
qed

end

lemmas walk_simps = io_simps walk_inv_def walk_done_def sys_ok_def

interpretation listen_walk: addr_walk "listen_body perror"
  by unfold_locales
    (auto simp: listen_body_def walk_simps run_ops run_print split: list.split)

interpretation daemon_walk: addr_walk "listen_body syslog"
  by unfold_locales
    (auto simp: listen_body_def walk_simps run_ops run_print split: list.split)

interpretation connect_walk: addr_walk connect_body
  by unfold_locales (auto simp: connect_body_def walk_simps run_ops split: list.split)

interpretation udp_walk: addr_walk udp_bind_body
  by unfold_locales (auto simp: udp_bind_body_def walk_simps run_ops split: list.split)

subsection \<open>Properties\<close>

fun is_listen :: "int \<Rightarrow> event \<Rightarrow> bool" where
  "is_listen fd (Call (On fd' (LISTEN n)) l) = (fd' = fd \<and> 0 \<le> rv l)"
| "is_listen fd _ = False"

definition listens :: "int \<Rightarrow> event list \<Rightarrow> bool" where
  "listens fd t = list_ex (is_listen fd) t"

lemma listens_simps [simp]:
  "\<not> listens fd []" "listens fd (e # t) \<longleftrightarrow> is_listen fd e \<or> listens fd t"
  "listens fd (s @ t) \<longleftrightarrow> listens fd s \<or> listens fd t"
  by (auto simp: listens_def)

lemma tcp_listen_vld:
  assumes walk: "\<And>ws fd. ws \<noteq> [] \<Longrightarrow> vld fds (loop (listen_body c) (ws, fd)) (\<lambda>r t. walk_done fds (fds_run fds t) r)"
    and say: "\<And>s m Q fds. vld fds (c' s m) Q = vld fds m (\<lambda>r t. Q r (e s # t))"
    and e: "\<And>s c a. e s \<noteq> Call c a"
  shows "vld fds (tcp_listen c c' junk host serv) (\<lambda>r t. r \<noteq> Stop (Fault Null) \<and>
    (\<forall>fd. r = Ret fd \<longrightarrow> fd \<notin> fds \<and> fds_run fds t = insert fd fds \<and> listens fd t))"
proof -
  have rest: "vld fds (bnd (loop (listen_body c) (ws, junk)) (\<lambda>(res, listenfd).
         sys (Listen listenfd 10) (\<lambda>l.
           if rv l < 0 then c' ''listen'' (exit 1)
           else if res = [] then fault Null
           else sys Freeaddrinfo (\<lambda>_. ret listenfd))))
      (\<lambda>r t. r \<noteq> Stop (Fault Null) \<and>
        (\<forall>fd. r = Ret fd \<longrightarrow> fd \<notin> fds \<and> fds_run fds t = insert fd fds \<and> listens fd t))"
    if "ws \<noteq> []" for ws
    by (rule vld_bnd_use [OF walk [OF that]])
       (auto simp: io_simps say walk_done_def sys_ok_def split: if_splits)
  show ?thesis
    unfolding tcp_listen_def by (auto simp: vld_sys vld_if vld_stop sys_ok_def intro!: rest)
qed

text \<open>
  C21: \<open>tcp_listen\<close> returns only a socket that listens. In the server and in the daemon, whenever it
  returns, the descriptor is new, a \<open>listen\<close> on it has succeeded, and every other socket it made on
  the way is closed again; and it never follows the null pointer at the end of the list, because the
  \<open>listen\<close> on the last, closed, descriptor fails first.
\<close>

theorem tcp_listen_listens:
  assumes "tcp_listen perror perror junk host serv rs = (r, t, rs') \<or>
      tcp_listen syslog syslog junk host serv rs = (r, t, rs')"
    and "conforms fds t"
  shows "r \<noteq> Stop (Fault Null) \<and>
    (\<forall>fd. r = Ret fd \<longrightarrow> fd \<notin> fds \<and> fds_run fds t = insert fd fds \<and> listens fd t)"
proof -
  have "vld fds (tcp_listen perror perror junk host serv) (\<lambda>r t. r \<noteq> Stop (Fault Null) \<and>
      (\<forall>fd. r = Ret fd \<longrightarrow> fd \<notin> fds \<and> fds_run fds t = insert fd fds \<and> listens fd t))"
    by (rule tcp_listen_vld [OF listen_walk.walk_loop, where e = Perror]) (simp_all add: vld_print)
  moreover have "vld fds (tcp_listen syslog syslog junk host serv) (\<lambda>r t. r \<noteq> Stop (Fault Null) \<and>
      (\<forall>fd. r = Ret fd \<longrightarrow> fd \<notin> fds \<and> fds_run fds t = insert fd fds \<and> listens fd t))"
    by (rule tcp_listen_vld [OF daemon_walk.walk_loop, where e = Syslog]) (simp_all add: vld_print)
  ultimately show ?thesis using assms by (blast dest: vldD)
qed

definition two_addresses :: "addrinfo list" where
  "two_addresses =
     [\<lparr>ai_family = AF_INET6, ai_socktype = SOCK_STREAM, ai_protocol = 6, ai_addr = Sin6 [39, 17] []\<rparr>,
      \<lparr>ai_family = AF_INET, ai_socktype = SOCK_STREAM, ai_protocol = 6, ai_addr = Sin [39, 17] [0, 0, 0, 0]\<rparr>]"

text \<open>The first address is in use, the second is not.\<close>

definition listen_script :: "reply list" where
  "listen_script = [(ok 0)\<lparr>ais := two_addresses\<rparr>, ok 3, ok 0, fail EINVAL, ok 0, ok 4, ok 0, ok 0, ok 0, ok 0]"

theorem tcp_listen_listens_witness:
  "case tcp_listen perror perror 0 None ''10001'' listen_script of (r, t, rs) \<Rightarrow>
     r = Ret 4 \<and> conforms {0, 1, 2} t \<and> fds_run {0, 1, 2} t = {0, 1, 2, 4} \<and> listens 4 t"
proof -
  obtain r t rs where run: "tcp_listen perror perror 0 None ''10001'' listen_script = (r, t, rs)"
    by (cases "tcp_listen perror perror 0 None ''10001'' listen_script") auto
  have "case tcp_listen perror perror 0 None ''10001'' listen_script of (r, t, rs) \<Rightarrow>
      r = Ret 4 \<and> conforms {0, 1, 2} t"
    by (simp add: run_simps tcp_listen_def listen_body_def listen_script_def two_addresses_def cong: lazy)
  with run have 1: "r = Ret 4" "conforms {0, 1, 2} t" by simp_all
  from tcp_listen_listens [OF disjI1 [OF run] 1(2)] run 1 show ?thesis by auto
qed

text \<open>
  Three of the walks can stick for ever. When no socket can be made for the entry they are at,
  \<open>tcp_listen\<close>, \<open>tcp_connect\<close> and \<open>udp_server\<close> ask for the same socket again and again and never reach the
  next entry: for any number of failing replies, that is all they have asked for.
\<close>

theorem walks_stick:
  assumes "\<forall>a \<in> set rs. rv a < 0"
  shows "loop (listen_body perror) (r # res, fd) rs = (Stop Blocked, map (Call (Socket_for r)) rs, []) \<and>
    loop connect_body (r # res, fd) rs = (Stop Blocked, map (Call (Socket_for r)) rs, []) \<and>
    loop udp_bind_body (r # res, fd) rs = (Stop Blocked, map (Call (Socket_for r)) rs, [])"
  using assms listen_walk.walk_stuck connect_walk.walk_stuck udp_walk.walk_stuck by simp

theorem walks_stick_witness:
  "loop connect_body (two_addresses, 0) [fail EINVAL, fail EINVAL] =
     (Stop Blocked, map (Call (Socket AF_INET6 SOCK_STREAM 6)) [fail EINVAL, fail EINVAL], [])"
  using walks_stick [of "[fail EINVAL, fail EINVAL]" "hd two_addresses" "tl two_addresses" 0]
  by (simp add: two_addresses_def fail_def ok_def)

text \<open>
  \<open>tcp_connect\<close> may return a descriptor that is closed. When it returns, either the process has
  exactly the returned descriptor more than before, or the descriptor is closed: every address was
  refused, and the only sign of it is a message.
\<close>

theorem tcp_connect_returns:
  assumes "tcp_connect gai junk_n junk host serv rs = (Ret fd, t, rs')" and "conforms fds t"
  shows "fds_run fds t = insert fd fds \<or>
    (fd \<notin> fds_run fds t \<and> connect_error host serv \<in> set (printed t))"
proof -
  let ?Q = "\<lambda>r t. \<forall>fd. r = Ret fd \<longrightarrow> fds_run fds t = insert fd fds \<or>
    (fd \<notin> fds_run fds t \<and> connect_error host serv \<in> set (printed t))"
  have rest: "vld fds (bnd (loop connect_body (ws, junk)) (\<lambda>(res, sockfd).
         says (if res = [] then [connect_error host serv] else [])
         (sys Freeaddrinfo (\<lambda>_. ret sockfd))))
      ?Q"
    if "ws \<noteq> []" for ws
    by (rule vld_bnd_use [OF connect_walk.walk_loop [OF that]])
       (auto simp: io_simps walk_done_def split: if_splits)
  have "vld fds (tcp_connect gai junk_n junk host serv) ?Q"
    unfolding tcp_connect_def by (auto simp: vld_sys vld_if vld_stop vld_print sys_ok_def intro!: rest)
  from vldD [OF this assms] show ?thesis by simp
qed

definition refused_script :: "reply list" where
  "refused_script = [(ok 0)\<lparr>ais := two_addresses\<rparr>, ok 3, fail ETIMEDOUT, ok 0, ok 3, fail ETIMEDOUT, ok 0, ok 0]"

theorem tcp_connect_returns_witness:
  "case tcp_connect (\<lambda>_. '''') 1 0 ''h'' ''s'' refused_script of (r, t, rs) \<Rightarrow>
     r = Ret 3 \<and> conforms {0, 1, 2} t \<and> 3 \<notin> fds_run {0, 1, 2} t \<and>
     connect_error ''h'' ''s'' \<in> set (printed t)"
proof -
  let ?p = "tcp_connect (\<lambda>_. '''') 1 0 ''h'' ''s''"
  obtain r t rs where run: "?p refused_script = (r, t, rs)" by (cases "?p refused_script") auto
  have "case ?p refused_script of (r, t, rs) \<Rightarrow> r = Ret 3 \<and> conforms {0, 1, 2} t \<and> fds_run {0, 1, 2} t = {0, 1, 2}"
    by (simp add: run_simps tcp_connect_def connect_body_def refused_script_def two_addresses_def cong: lazy)
  with run have 1: "r = Ret 3" "conforms {0, 1, 2} t" "fds_run {0, 1, 2} t = {0, 1, 2}" by simp_all
  from run 1(1) have "?p refused_script = (Ret 3, t, rs)" by simp
  from tcp_connect_returns [OF this 1(2)] 1(3)
  have "{0, 1, 2} = insert 3 {0, 1, 2 :: int} \<or> connect_error ''h'' ''s'' \<in> set (printed t)" by auto
  moreover have "(3 :: int) \<notin> {0, 1, 2}" by simp
  ultimately have "connect_error ''h'' ''s'' \<in> set (printed t)" by blast
  then show ?thesis using run 1 by simp
qed

text \<open>
  \<open>tcp_connect\<close> tests the result of \<open>getaddrinfo\<close> with \<open>==\<close> in place of \<open>=\<close>. What it does depends on
  what \<open>n\<close> happened to hold: with 0 there, a lookup that succeeds ends the program as if it had failed;
  with anything else than the error code, a lookup that fails goes on to follow a pointer that was
  never set.
\<close>

theorem tcp_connect_tests_garbage:
  "(rv g = 0 \<and> junk_n = 0 \<longrightarrow> fst (tcp_connect gai junk_n junk host serv (g # rs)) = Stop (Exit 1)) \<and>
   (rv g \<noteq> 0 \<and> junk_n \<noteq> rv g \<longrightarrow> fst (tcp_connect gai junk_n junk host serv (g # rs)) = Stop (Fault Null))"
  by (simp add: tcp_connect_def run_ops run_print tell_def)

theorem tcp_connect_tests_garbage_witness:
  "fst (tcp_connect (\<lambda>_. '''') 0 0 ''h'' ''s'' [(ok 0)\<lparr>ais := two_addresses\<rparr>]) = Stop (Exit 1)"
  using tcp_connect_tests_garbage [of "(ok 0)\<lparr>ais := two_addresses\<rparr>" 0 "\<lambda>_. ''''" 0 "''h''" "''s''" "[]"]
  by (simp add: ok_def)

fun made :: "event list \<Rightarrow> call list" where
  "made [] = []"
| "made (Call c a # t) = c # made t"
| "made (_ # t) = made t"

text \<open>
  \<open>udp_client\<close> asks for a socket for the entries in order, for each at most once, and stops at the
  first it gets. When the walk returns it has asked for a first part of the list and goes on with the
  last entry of it, for which it has a socket, or it has asked for every entry in vain.
\<close>

theorem udp_client_walk_first:
  assumes "udp_client_walk ws fd rs = (Ret (res, s), t, rs')" and "ws \<noteq> []"
  shows "made t = map Socket_for (take (length t) ws) \<and> 0 < length t \<and> length t \<le> length ws \<and>
    (if 0 \<le> s then res = drop (length t - 1) ws else res = [] \<and> length t = length ws)"
  using assms
proof (induction ws arbitrary: fd rs t)
  case (Cons w ws)
  obtain a rs1 where rs: "rs = a # rs1" using Cons.prems(1) by (cases rs) (auto simp: run_ops)
  show ?case
  proof (cases "0 \<le> rv a")
    case True
    then show ?thesis using Cons.prems rs by (auto simp: run_ops)
  next
    case False
    then obtain t1 where t1: "udp_client_walk ws (rv a) rs1 = (Ret (res, s), t1, rs')"
      and t: "t = Call (Socket_for w) a # t1"
      using Cons.prems(1) rs by (auto simp: run_ops split: prod.splits)
    show ?thesis
    proof (cases "ws = []")
      case True
      then show ?thesis using t1 t False by (auto simp: ret_def)
    next
      case ne: False
      from Cons.IH [OF t1 ne] t show ?thesis by (auto simp: drop_Cons')
    qed
  qed
qed simp

theorem udp_client_walk_first_witness:
  "case udp_client_walk two_addresses 0 [fail EINVAL, ok 3] of (r, t, rs) \<Rightarrow>
     r = Ret (drop 1 two_addresses, 3) \<and> made t = map Socket_for two_addresses"
proof -
  obtain r t rs where run: "udp_client_walk two_addresses 0 [fail EINVAL, ok 3] = (r, t, rs)"
    by (cases "udp_client_walk two_addresses 0 [fail EINVAL, ok 3]") auto
  then have 1: "r = Ret (drop 1 two_addresses, 3)" and len: "length t = 2"
    by (auto simp: two_addresses_def run_ops fail_def ok_def)
  from udp_client_walk_first [of two_addresses 0 _ "drop 1 two_addresses" 3 t rs] run 1 len
  show ?thesis by (auto simp: two_addresses_def)
qed

end
