(* ===== verification/Epoll_Server.thy ===== *)
theory Epoll_Server
  imports Addr_Walk
begin

text \<open>
  \<open>C/epoll_server.c\<close>: a server that copies what its clients send to standard output. It waits with an
  edge-triggered \<open>epoll\<close>, so that it must take every pending connection and read every pending byte
  before it waits again.

  The program keeps nothing from one turn to the next: which descriptors are watched is the kernel's
  state, read off the trace here.
\<close>

definition MAXEVENTS :: nat where "MAXEVENTS = 64"
definition SOMAXCONN :: int where "SOMAXCONN = 4096"
definition EPOLLIN :: "32 word" where "EPOLLIN = 0x1"
definition EPOLLERR :: "32 word" where "EPOLLERR = 0x8"
definition EPOLLHUP :: "32 word" where "EPOLLHUP = 0x10"
definition EPOLLET :: "32 word" where "EPOLLET = 0x80000000"

subsection \<open>The program\<close>

definition make_socket_non_blocking :: "int \<Rightarrow> int io" where
  "make_socket_non_blocking sfd =
     sys (Getfl sfd) (\<lambda>f.
       if rv f = - 1 then perror ''fcntl'' (ret (- 1))
       else sys (Setfl sfd (or (word_of_int (rv f)) O_NONBLOCK)) (\<lambda>s.
         if rv s = - 1 then perror ''fcntl'' (ret (- 1)) else ret 0))"

text \<open>The walk over the addresses moves on after a failed \<open>socket\<close> and after a failed \<open>bind\<close>.\<close>

fun bind_walk :: "addrinfo list \<Rightarrow> int \<Rightarrow> walk io" where
  "bind_walk [] sfd = ret ([], sfd)"
| "bind_walk (rp # rest) sfd =
     sys (Socket_for rp) (\<lambda>s.
       if rv s = - 1 then bind_walk rest (rv s)
       else sys (Bind (rv s) (ai_addr rp)) (\<lambda>b.
         if rv b = 0 then ret (rp # rest, rv s)
         else sys (Close (rv s)) (\<lambda>_. bind_walk rest (rv s))))"

text \<open>\<open>gai\<close> is the text of an error of \<open>getaddrinfo\<close>, \<open>junk\<close> what \<open>sfd\<close> holds at the start.\<close>

definition create_and_bind :: "(int \<Rightarrow> string) \<Rightarrow> int \<Rightarrow> string \<Rightarrow> int io" where
  "create_and_bind gai junk port =
     sys (Getaddrinfo None (Some port) True AF_UNSPEC SOCK_STREAM) (\<lambda>g.
       if rv g \<noteq> 0 then eprintf (''getaddrinfo: '' @ gai (rv g) @ [LF]) (ret (- 1))
       else bnd (bind_walk (ais g) junk) (\<lambda>(rp, sfd).
         if rp = [] then eprintf (''Could not bind'' @ [LF]) (ret (- 1))
         else sys Freeaddrinfo (\<lambda>_. ret sfd)))"

text \<open>
  The loop that takes the connections, in which \<open>getnameinfo\<close> gives the numeric host (\<open>dat\<close>) and port
  (\<open>num\<close>).
\<close>

definition accept_body :: "int \<Rightarrow> int \<Rightarrow> unit \<Rightarrow> (unit + unit) io" where
  "accept_body sfd efd _ =
     sys (Accept sfd) (\<lambda>a.
       if rv a = - 1 then
         (if en a = EAGAIN \<or> en a = EWOULDBLOCK then ret (Inr ()) else perror ''accept'' (ret (Inr ())))
       else sys Getnameinfo (\<lambda>g.
         says (if rv g = 0 then [''Accepted connection on descriptor '' @ show_int (rv a) @
             '' (host='' @ dat g @ '', port='' @ show_int (num g) @ '')'' @ [LF]] else [])
         (bnd (make_socket_non_blocking (rv a)) (\<lambda>s.
            if s = - 1 then abort
            else sys (Epoll_add efd (rv a) (or EPOLLIN EPOLLET)) (\<lambda>c.
              if rv c = - 1 then perror ''epoll_ctl'' abort else ret (Inl ()))))))"

text \<open>The loop that reads a client; it returns \<open>done\<close>.\<close>

definition drain_body :: "int \<Rightarrow> unit \<Rightarrow> (unit + bool) io" where
  "drain_body fd _ =
     sys (Read fd 512) (\<lambda>a.
       if rv a = - 1 then (if en a \<noteq> EAGAIN then perror ''read'' (ret (Inr True)) else ret (Inr False))
       else if rv a = 0 then ret (Inr True)
       else sys (Write 1 (dat a)) (\<lambda>w.
         if rv w = - 1 then perror ''write'' abort else ret (Inl ())))"

definition bad_event :: "32 word \<Rightarrow> bool" where
  "bad_event ev \<longleftrightarrow> and ev EPOLLERR \<noteq> 0 \<or> and ev EPOLLHUP \<noteq> 0 \<or> and ev EPOLLIN = 0"

definition ep_event :: "int \<Rightarrow> int \<Rightarrow> 32 word \<Rightarrow> int \<Rightarrow> unit io" where
  "ep_event sfd efd ev fd =
     (if bad_event ev then eprintf (''epoll error'' @ [LF]) (sys (Close fd) (\<lambda>_. ret ()))
      else if sfd = fd then loop (accept_body sfd efd) ()
      else bnd (loop (drain_body fd) ()) (\<lambda>done.
        if done then printf (''Closed connection on descriptor '' @ show_int fd @ [LF])
          (sys (Close fd) (\<lambda>_. ret ()))
        else ret ()))"

fun ep_events :: "int \<Rightarrow> int \<Rightarrow> (32 word \<times> int) list \<Rightarrow> unit io" where
  "ep_events sfd efd [] = ret ()"
| "ep_events sfd efd ((ev, fd) # es) = bnd (ep_event sfd efd ev fd) (\<lambda>_. ep_events sfd efd es)"

definition epoll_body :: "int \<Rightarrow> int \<Rightarrow> unit \<Rightarrow> (unit + unit) io" where
  "epoll_body sfd efd _ =
     sys (Epoll_wait efd MAXEVENTS) (\<lambda>a.
     bnd (ep_events sfd efd (take (nat (rv a)) (evs a))) (\<lambda>_. ret (Inl ())))"

text \<open>\<open>struct epoll_event\<close> has 12 bytes. A null pointer from \<open>calloc\<close> is handed to \<open>epoll_wait\<close>, which refuses it.\<close>

definition SIZE_epoll_event :: nat where "SIZE_epoll_event = 12"

definition epoll_main :: "(int \<Rightarrow> string) \<Rightarrow> int \<Rightarrow> string list \<Rightarrow> unit io" where
  "epoll_main gai junk argv =
     (if length argv \<noteq> 2 then
        arr_get argv 0 (\<lambda>name. eprintf (''Usage: '' @ name @ '' [port]'' @ [LF]) (exit 1))
      else bnd (create_and_bind gai junk (argv ! 1)) (\<lambda>sfd.
        if sfd = - 1 then abort
        else bnd (make_socket_non_blocking sfd) (\<lambda>s.
          if s = - 1 then abort
          else sys (Listen sfd SOMAXCONN) (\<lambda>l.
            if rv l = - 1 then perror ''listen'' abort
            else sys Epoll_create (\<lambda>e.
              if rv e = - 1 then perror ''epoll_create'' abort
              else sys (Epoll_add (rv e) sfd (or EPOLLIN EPOLLET)) (\<lambda>c.
                if rv c = - 1 then perror ''epoll_ctl'' abort
                else sys (Calloc (MAXEVENTS * SIZE_epoll_event)) (\<lambda>_. loop (epoll_body sfd (rv e)) ())))))))"

subsection \<open>Output\<close>

text \<open>The bytes read, from any descriptor.\<close>

fun any_got :: "event \<Rightarrow> char list" where
  "any_got (Call (Transfer fd (READ n)) a) = dat a"
| "any_got _ = []"

definition all_got :: "event list \<Rightarrow> char list" where
  "all_got t = concat (map any_got t)"

lemma all_got_simps [simp]:
  "all_got [] = []" "all_got (e # t) = any_got e @ all_got t" "all_got (s @ t) = all_got s @ all_got t"
  by (simp_all add: all_got_def)

text \<open>
  What \<open>printf\<close> puts on standard output: a notice about a connection that came or went.
\<close>

definition is_notice :: "string \<Rightarrow> bool" where
  "is_notice s \<longleftrightarrow> prefix ''Accepted connection on descriptor '' s \<or> prefix ''Closed connection on descriptor '' s"

lemma is_notice_text:
  "is_notice (''Accepted connection on descriptor '' @ s)" "is_notice (''Closed connection on descriptor '' @ s)"
  unfolding is_notice_def by (rule disjI1, rule prefixI, rule refl) (rule disjI2, rule prefixI, rule refl)

lemmas is_notice_simps [simp] = is_notice_text [simplified]

definition copied :: "event list \<Rightarrow> bool" where
  "copied t \<longleftrightarrow> subseq (written 1 t) (all_got t) \<and> list_all is_notice (printed t) \<and>
     (full_writes t \<longrightarrow> written 1 t = all_got t)"

definition copying :: "event list \<Rightarrow> bool" where
  "copying t \<longleftrightarrow> subseq (written 1 t) (all_got t) \<and> list_all is_notice (printed t) \<and>
     (full_writes t \<longrightarrow> (\<exists>p. all_got t = written 1 t @ p \<and> length p \<le> 512))"

text \<open>
  A law of traces that a program keeps when each of its parts does: \<open>whole\<close> holds of what a part that
  returns has done, \<open>part\<close> of what one that stops has done.
\<close>

locale trace_law =
  fixes whole :: "event list \<Rightarrow> bool" and part :: "event list \<Rightarrow> bool"
  assumes whole_nil: "whole []"
    and whole_append: "whole s \<Longrightarrow> whole t \<Longrightarrow> whole (s @ t)"
    and part_append: "whole s \<Longrightarrow> part t \<Longrightarrow> part (s @ t)"
    and whole_part: "whole t \<Longrightarrow> part t"
begin

definition obeys :: "'a result \<Rightarrow> event list \<Rightarrow> bool" where
  "obeys r t \<longleftrightarrow> (case r of Ret x \<Rightarrow> whole t | Stop z \<Rightarrow> part t)"

lemma obeys_simps: "obeys (Ret x) t = whole t" "obeys (Stop z) t = part t"
  by (simp_all add: obeys_def)

lemma obeys_append: "whole s \<Longrightarrow> obeys r t \<Longrightarrow> obeys r (s @ t)"
  by (cases r) (auto simp: obeys_simps whole_append part_append)

lemma obeys_bnd:
  assumes "vld fds m obeys" and "\<And>fds x. vld fds (f x) obeys"
  shows "vld fds (bnd m f) obeys"
  by (rule vld_bnd_use [OF assms(1)])
    (auto simp: obeys_simps intro: vld_mono [OF assms(2)] obeys_append)

lemma obeys_loop:
  assumes "\<And>fds s. vld fds (body s) obeys"
  shows "vld fds (loop body s) obeys"
proof -
  have "loop_contract body (\<lambda>fds s h. whole h) obeys"
  proof
    fix fds s h
    assume h: "whole h"
    show "vld fds (body s) (\<lambda>r t. case r of Ret (Inl s') \<Rightarrow> whole (h @ t)
        | Ret (Inr x) \<Rightarrow> obeys (Ret x) (h @ t) | Stop z \<Rightarrow> obeys (Stop z) (h @ t))"
      by (rule vld_mono [OF assms])
         (auto simp: obeys_simps whole_append part_append h split: result.splits sum.splits)
    show "obeys (Stop Diverge) h" using h by (simp add: obeys_simps whole_part)
  qed
  then show ?thesis by (rule loop_contract.loop_post) (rule whole_nil)
qed

end

interpretation copy: trace_law copied copying
proof
  show "copied []" by (simp add: copied_def)
  show "copied (s @ t)" if "copied s" "copied t" for s t
    using that by (auto simp: copied_def intro: list_emb_append_mono)
  show "copying (s @ t)" if "copied s" "copying t" for s t
    using that by (auto simp: copied_def copying_def intro: list_emb_append_mono)
  show "copying t" if "copied t" for t using that by (auto simp: copied_def copying_def)
qed

text \<open>Calls other than transfers add nothing, and no output but notices.\<close>

fun no_transfer :: "event \<Rightarrow> bool" where
  "no_transfer (Call (Transfer _ _) _) = False"
| "no_transfer (Out s) = is_notice s"
| "no_transfer _ = True"

lemma no_transfer_simps:
  assumes "no_transfer e"
  shows "any_got e = []" "put_by fd e = []" "full_write e" "printed [e] = [] \<or> (\<exists>s. e = Out s \<and> is_notice s)"
proof -
  show "any_got e = []" using assms by (cases e rule: any_got.cases) simp_all
  show "put_by fd e = []" using assms by (cases "(fd, e)" rule: put_by.cases) simp_all
  show "full_write e" using assms by (cases e rule: full_write.cases) simp_all
  show "printed [e] = [] \<or> (\<exists>s. e = Out s \<and> is_notice s)" using assms by (cases e) simp_all
qed

lemma copy_simps [simp]:
  assumes "no_transfer e"
  shows "copied (e # t) = copied t" "copying (e # t) = copying t"
  using no_transfer_simps [OF assms] by (cases e; simp add: copied_def copying_def)+

lemma copied_nil [simp]: "copied []" "copying []"
  by (simp_all add: copied_def copying_def)

lemma copied_says [simp]:
  "list_all is_notice ms \<Longrightarrow> copied (map Out ms @ t) = copied t" "list_all is_notice ms \<Longrightarrow> copying (map Out ms @ t) = copying t"
  by (induction ms) simp_all

lemma obeys_skip [simp]: "no_transfer e \<Longrightarrow> copy.obeys r (e # t) = copy.obeys r t"
  by (cases r) (simp_all add: copy.obeys_simps)

lemma copied_read:
  "dat a = [] \<Longrightarrow> copied (Call (Read fd n) a # t) = copied t"
  "dat a = [] \<Longrightarrow> copying (Call (Read fd n) a # t) = copying t"
  by (simp_all add: copied_def copying_def)

lemma copied_write:
  assumes "length (dat a) \<le> 512"
  shows "copying [Call (Read fd n) a]"
    "copied [Call (Read fd n) a, Call (Write 1 (dat a)) w]"
    "copying [Call (Read fd n) a, Call (Write 1 (dat a)) w, Perror e]"
  using assms by (auto simp: copied_def copying_def)

lemmas ep_simps = io_simps copy.obeys_simps sys_ok_def copied_read

lemma drain_copies: "vld fds (drain_body fd s) copy.obeys"
  by (auto simp: drain_body_def ep_simps intro!: copied_write)

lemma accept_copies: "vld fds (accept_body sfd efd s) copy.obeys"
  by (auto simp: accept_body_def make_socket_non_blocking_def ep_simps)

lemma event_copies: "vld fds (ep_event sfd efd ev fd) copy.obeys"
proof -
  have "vld fds (loop (accept_body sfd efd) ()) copy.obeys" for fds
    by (rule copy.obeys_loop) (rule accept_copies)
  moreover have "vld fds (bnd (loop (drain_body fd) ()) (\<lambda>done. if done
      then printf (''Closed connection on descriptor '' @ show_int fd @ [LF]) (sys (Close fd) (\<lambda>_. ret ()))
      else ret ())) copy.obeys" for fds
    by (rule copy.obeys_bnd, rule copy.obeys_loop, rule drain_copies) (auto simp: ep_simps)
  ultimately show ?thesis by (auto simp: ep_event_def ep_simps)
qed

lemma events_copy: "vld fds (ep_events sfd efd es) copy.obeys"
proof (induction es arbitrary: fds)
  case (Cons e es)
  show ?case
    by (cases e) (simp add: copy.obeys_bnd [OF event_copies Cons.IH])
qed (simp add: ep_simps)

lemma body_copies: "vld fds (epoll_body sfd efd s) copy.obeys"
proof -
  have "vld fds (bnd (ep_events sfd efd es) (\<lambda>_. ret (Inl ()))) (copy.obeys :: (unit + unit) result \<Rightarrow> _)" for fds es
    by (rule copy.obeys_bnd [OF events_copy]) (simp add: ep_simps)
  then show ?thesis by (auto simp: epoll_body_def ep_simps)
qed

subsection \<open>Draining\<close>

text \<open>The reply of the last call \<open>c\<close>.\<close>

fun last_reply :: "call \<Rightarrow> event list \<Rightarrow> reply option" where
  "last_reply c [] = None"
| "last_reply c (Call c' a # t) =
     (case last_reply c t of Some b \<Rightarrow> Some b | None \<Rightarrow> if c' = c then Some a else None)"
| "last_reply c (_ # t) = last_reply c t"

lemma last_reply_append [simp]:
  "last_reply c (s @ t) = (case last_reply c t of Some b \<Rightarrow> Some b | None \<Rightarrow> last_reply c s)"
  by (induction c s rule: last_reply.induct) (auto split: option.splits)

lemma last_reply_Out [simp]: "last_reply c (map Out ms) = None"
  by (induction ms) auto

text \<open>
  Nothing is left that \<open>epoll\<close> would not report again: the last read of every descriptor found it empty,
  or it has been closed; the last \<open>accept\<close> found nothing to take.
\<close>

definition settled :: "int \<Rightarrow> event list \<Rightarrow> bool" where
  "settled sfd t \<longleftrightarrow>
     (\<forall>fd a. last_reply (Read fd 512) t = Some a \<longrightarrow> rv a = - 1 \<and> en a = EAGAIN \<or> 0 < calls (Close fd) t) \<and>
     (\<forall>a. last_reply (Accept sfd) t = Some a \<longrightarrow> rv a = - 1)"

lemma settled_append:
  assumes "settled sfd s" and "settled sfd t"
  shows "settled sfd (s @ t)"
  unfolding settled_def
proof (intro conjI allI impI)
  fix fd a assume "last_reply (Read fd 512) (s @ t) = Some a"
  then show "rv a = - 1 \<and> en a = EAGAIN \<or> 0 < calls (Close fd) (s @ t)"
    using assms by (cases "last_reply (Read fd 512) t") (fastforce simp: settled_def)+
next
  fix a assume "last_reply (Accept sfd) (s @ t) = Some a"
  then show "rv a = - 1"
    using assms by (cases "last_reply (Accept sfd) t") (fastforce simp: settled_def)+
qed

interpretation settle: trace_law "settled sfd" "\<lambda>_. True" for sfd
  by unfold_locales (auto simp: settled_append, simp add: settled_def)

definition handled :: "int \<Rightarrow> event list \<Rightarrow> 32 word \<times> int \<Rightarrow> bool" where
  "handled sfd t e \<longleftrightarrow>
     (if bad_event (fst e) then 0 < calls (Close (snd e)) t
      else if snd e = sfd then last_reply (Accept sfd) t \<noteq> None
      else last_reply (Read (snd e) 512) t \<noteq> None)"

lemma handled_append: "handled sfd s e \<or> handled sfd t e \<Longrightarrow> handled sfd (s @ t) e"
  by (auto simp: handled_def split: option.splits if_splits)

definition all_handled :: "int \<Rightarrow> (32 word \<times> int) list \<Rightarrow> 'a result \<Rightarrow> event list \<Rightarrow> bool" where
  "all_handled sfd es r t \<longleftrightarrow> (\<forall>x. r = Ret x \<longrightarrow> settled sfd t \<and> (\<forall>e \<in> set es. handled sfd t e))"

lemma all_handled_Stop [simp]: "all_handled sfd es (Stop z) t" by (simp add: all_handled_def)

definition only_reads :: "int \<Rightarrow> event list \<Rightarrow> bool" where
  "only_reads fd t \<longleftrightarrow>
     (\<forall>f n. f \<noteq> fd \<longrightarrow> last_reply (Read f n) t = None) \<and> (\<forall>f. last_reply (Accept f) t = None)"

lemma settled_only:
  assumes "only_reads fd t" and "last_reply (Read fd 512) t = Some a"
  shows "settled sfd t \<longleftrightarrow> rv a = - 1 \<and> en a = EAGAIN \<or> 0 < calls (Close fd) t"
proof -
  have "f = fd \<and> b = a" if "last_reply (Read f 512) t = Some b" for f b
    using assms that by (cases "f = fd") (auto simp: only_reads_def)
  moreover have "last_reply (Accept sfd) t = None" using assms by (simp add: only_reads_def)
  ultimately show ?thesis using assms(2) unfolding settled_def by (metis option.distinct(1))
qed

definition drained :: "int \<Rightarrow> bool result \<Rightarrow> event list \<Rightarrow> bool" where
  "drained fd r t \<longleftrightarrow> (\<forall>closes. r = Ret closes \<longrightarrow> only_reads fd t \<and>
     (\<exists>a. last_reply (Read fd 512) t = Some a \<and> (closes \<or> rv a = - 1 \<and> en a = EAGAIN)))"

interpretation drain: loop_contract "drain_body fd" "\<lambda>fds s. only_reads fd" "drained fd" for fd
  by unfold_locales (auto simp: drain_body_def io_simps only_reads_def drained_def)

definition taken_all :: "int \<Rightarrow> unit result \<Rightarrow> event list \<Rightarrow> bool" where
  "taken_all sfd r t \<longleftrightarrow> (\<forall>x. r = Ret x \<longrightarrow> (\<forall>f n. last_reply (Read f n) t = None) \<and>
     (\<exists>a. last_reply (Accept sfd) t = Some a \<and> rv a = - 1))"

interpretation take_conns: loop_contract "accept_body sfd efd"
    "\<lambda>fds s t. \<forall>f n. last_reply (Read f n) t = None" "taken_all sfd" for sfd efd
  by unfold_locales (auto simp: accept_body_def make_socket_non_blocking_def io_simps taken_all_def)

lemma settled_closed:
  assumes "only_reads fd t"
  shows "settled sfd (t @ [Out s, Call (Close fd) a])"
  using assms by (fastforce simp: settled_def only_reads_def split: if_splits)

lemma event_handled: "vld fds (ep_event sfd efd ev fd) (all_handled sfd [(ev, fd)])"
proof -
  have take: "vld fds (loop (accept_body sfd efd) ()) (all_handled sfd [(ev, sfd)])"
    if "\<not> bad_event ev"
    by (rule vld_mono [OF take_conns.loop_post])
       (use that in \<open>auto simp: taken_all_def all_handled_def settled_def handled_def\<close>)
  have "vld fds (bnd (loop (drain_body fd) ()) (\<lambda>done. if done
      then printf (''Closed connection on descriptor '' @ show_int fd @ [LF]) (sys (Close fd) (\<lambda>_. ret ()))
      else ret ())) (all_handled sfd [(ev, fd)])" if "\<not> bad_event ev" "sfd \<noteq> fd"
    by (rule vld_bnd_use [OF drain.loop_post])
       (use that in \<open>auto simp: drained_def io_simps all_handled_def handled_def settled_only
         settled_closed only_reads_def [of _ "[]"] split: if_splits\<close>)
  with take show ?thesis
    by (auto simp: ep_event_def io_simps all_handled_def settled_def handled_def)
qed

lemma events_handled: "vld fds (ep_events sfd efd es) (all_handled sfd es)"
proof (induction es arbitrary: fds)
  case (Cons e es)
  obtain ev fd where e: "e = (ev, fd)" by (cases e)
  have "vld fds (bnd (ep_event sfd efd ev fd) (\<lambda>_. ep_events sfd efd es)) (all_handled sfd (e # es))"
  proof (rule vld_bnd_use [OF event_handled])
    fix x t
    assume 1: "all_handled sfd [(ev, fd)] (Ret x) t"
    show "vld (fds_run fds t) (ep_events sfd efd es) (\<lambda>r t'. all_handled sfd (e # es) r (t @ t'))"
      by (rule vld_mono [OF Cons.IH])
         (use 1 in \<open>auto simp: all_handled_def e intro: settle.whole_append handled_append\<close>)
  qed simp
  then show ?case by (simp add: e)
qed (simp add: io_simps all_handled_def settled_def)

subsection \<open>The watched descriptors\<close>

text \<open>
  What \<open>epoll\<close> watches after a trace (closing a descriptor takes it out), and its promise to report only
  what it watches.
\<close>

fun watched :: "int set \<Rightarrow> event list \<Rightarrow> int set" where
  "watched W [] = W"
| "watched W (Call (Await (EPOLL_ADD efd fd w)) a # t) = watched (if rv a = - 1 then W else insert fd W) t"
| "watched W (Call (On fd CLOSE) a # t) = watched (W - {fd}) t"
| "watched W (_ # t) = watched W t"

fun reports :: "int set \<Rightarrow> event list \<Rightarrow> bool" where
  "reports W [] = True"
| "reports W (Call (Await (EPOLL_ADD efd fd w)) a # t) = reports (if rv a = - 1 then W else insert fd W) t"
| "reports W (Call (On fd CLOSE) a # t) = reports (W - {fd}) t"
| "reports W (Call (Await (EPOLL_WAIT efd n)) a # t) =
     (snd ` set (take (nat (rv a)) (evs a)) \<subseteq> W \<and> reports W t)"
| "reports W (_ # t) = reports W t"

lemma watched_append [simp]: "watched W (s @ t) = watched (watched W s) t"
  by (induction W s rule: watched.induct) auto

lemma reports_append [simp]: "reports W (s @ t) \<longleftrightarrow> reports W s \<and> reports (watched W s) t"
  by (induction W s rule: reports.induct) auto

lemma watched_Out [simp]: "watched W (map Out ms) = W"
  by (induction ms) auto

text \<open>The open descriptors are those of \<open>K\<close> and the watched ones.\<close>

definition balanced :: "int set \<Rightarrow> int set \<Rightarrow> int set \<Rightarrow> bool" where
  "balanced K fds W \<longleftrightarrow> fds = K \<union> W \<and> K \<inter> W = {}"

lemma balanced_simps:
  "balanced K fds W \<Longrightarrow> fd \<notin> K \<Longrightarrow> balanced K (fds - {fd}) (W - {fd})"
  "balanced K fds W \<Longrightarrow> fd \<notin> fds \<Longrightarrow> balanced K (insert fd fds) (insert fd W)"
  by (auto simp: balanced_def)

definition balances :: "int set \<Rightarrow> int set \<Rightarrow> int set \<Rightarrow> 'a result \<Rightarrow> event list \<Rightarrow> bool" where
  "balances K fds W r t \<longleftrightarrow> (\<forall>x. r = Ret x \<longrightarrow> balanced K (fds_run fds t) (watched W t))"

lemma balances_simps [simp]:
  "balances K fds W (Ret x) t = balanced K (fds_run fds t) (watched W t)"
  "balances K fds W (Stop z) t"
  by (simp_all add: balances_def)

lemma balances_wait [simp]: "balances K fds W r (Call (Epoll_wait efd n) a # t) = balances K fds W r t"
  by (simp add: balances_def)

interpretation take_balance: loop_contract "accept_body sfd efd"
    "\<lambda>fds s h. fds = fds_run fds0 h \<and> balanced K fds (watched W h)" "balances K fds0 W" for sfd efd fds0 K W
  by unfold_locales
    (auto simp: accept_body_def make_socket_non_blocking_def io_simps sys_ok_def intro!: balanced_simps)

interpretation drain_balance: loop_contract "drain_body fd"
    "\<lambda>fds s h. fds = fds_run fds0 h \<and> balanced K fds (watched W h)" "balances K fds0 W" for fd fds0 K W
  by unfold_locales (auto simp: drain_body_def io_simps sys_ok_def)

lemma event_balances:
  assumes "balanced K fds W" and "fd \<notin> K"
  shows "vld fds (ep_event sfd efd ev fd) (balances K fds W)"
proof -
  have "vld fds (bnd (loop (drain_body fd) ()) (\<lambda>done. if done
      then printf (''Closed connection on descriptor '' @ show_int fd @ [LF]) (sys (Close fd) (\<lambda>_. ret ()))
      else ret ())) (balances K fds W)"
    by (rule vld_bnd_use [OF drain_balance.loop_post [where K = K and W = W]])
       (use assms in \<open>auto simp: io_simps intro: balanced_simps\<close>)
  moreover have "vld fds (loop (accept_body fd efd) ()) (balances K fds W)"
    by (rule take_balance.loop_post) (use assms in simp)
  ultimately show ?thesis
    using assms by (auto simp: ep_event_def io_simps intro: balanced_simps)
qed

lemma events_balance:
  "balanced K fds W \<Longrightarrow> snd ` set es \<inter> K = {} \<Longrightarrow> vld fds (ep_events sfd efd es) (balances K fds W)"
proof (induction es arbitrary: fds W)
  case (Cons e es)
  obtain ev fd where e: "e = (ev, fd)" by (cases e)
  with Cons.prems have fd: "fd \<notin> K" and es: "snd ` set es \<inter> K = {}" by auto
  have "vld fds (bnd (ep_event sfd efd ev fd) (\<lambda>_. ep_events sfd efd es)) (balances K fds W)"
  proof (rule vld_bnd_use [OF event_balances [OF Cons.prems(1) fd]])
    fix x t
    assume "balances K fds W (Ret x) t"
    then have "vld (fds_run fds t) (ep_events sfd efd es) (balances K (fds_run fds t) (watched W t))"
      by (intro Cons.IH) (simp_all add: es)
    then show "vld (fds_run fds t) (ep_events sfd efd es) (\<lambda>r t'. balances K fds W r (t @ t'))"
      by (rule vld_mono) (simp add: balances_def)
  qed simp
  then show ?case by (simp add: e)
qed (simp add: io_simps)

lemma body_balances:
  assumes "balanced K fds W"
  shows "vld fds (epoll_body sfd efd s) (\<lambda>r t. reports W t \<longrightarrow> balances K fds W r t)"
proof -
  have "vld fds (bnd (ep_events sfd efd (take (nat (rv a)) (evs a))) (\<lambda>_. ret (Inl () :: unit + unit)))
      (\<lambda>r t. reports W (Call (Epoll_wait efd MAXEVENTS) a # t) \<longrightarrow> balances K fds W r t)"
    (is "vld fds ?m ?Q") for a
  proof (cases "snd ` set (take (nat (rv a)) (evs a)) \<subseteq> W")
    case True
    with assms have "snd ` set (take (nat (rv a)) (evs a)) \<inter> K = {}" by (auto simp: balanced_def)
    then have "vld fds ?m (balances K fds W)"
      by (intro vld_bnd_use [OF events_balance [OF assms]]) (auto simp: io_simps)
    then show ?thesis by (rule vld_mono) simp
  next
    case False
    then show ?thesis by (auto intro: vldI)
  qed
  then show ?thesis by (simp add: epoll_body_def io_simps)
qed

subsection \<open>The whole program\<close>

lemma bind_walk_copies: "vld fds (bind_walk ws fd) copy.obeys"
  by (induction ws arbitrary: fds fd) (auto simp: ep_simps)

lemma create_copies: "vld fds (create_and_bind gai junk port) copy.obeys"
proof -
  have "vld fds (bnd (bind_walk ws junk) (\<lambda>(rp, sfd).
         if rp = [] then eprintf (''Could not bind'' @ [LF]) (ret (- 1))
         else sys Freeaddrinfo (\<lambda>_. ret sfd))) copy.obeys" for fds ws
    by (rule copy.obeys_bnd [OF bind_walk_copies]) (auto simp: ep_simps split: prod.split)
  then show ?thesis by (auto simp: create_and_bind_def ep_simps)
qed

lemma main_copies: "vld fds (epoll_main gai junk argv) copy.obeys"
proof -
  have rest: "vld fds (bnd (make_socket_non_blocking sfd) (\<lambda>s.
          if s = - 1 then abort
          else sys (Listen sfd SOMAXCONN) (\<lambda>l.
            if rv l = - 1 then perror ''listen'' abort
            else sys Epoll_create (\<lambda>e.
              if rv e = - 1 then perror ''epoll_create'' abort
              else sys (Epoll_add (rv e) sfd (or EPOLLIN EPOLLET)) (\<lambda>c.
                if rv c = - 1 then perror ''epoll_ctl'' abort
                else sys (Calloc (MAXEVENTS * SIZE_epoll_event)) (\<lambda>_. loop (epoll_body sfd (rv e)) ())))))) copy.obeys" for fds sfd
  proof -
    have "vld fds (loop (epoll_body sfd e) ()) copy.obeys" for fds e
      by (rule copy.obeys_loop [OF body_copies])
    then show ?thesis by (simp add: make_socket_non_blocking_def ep_simps)
  qed
  have "vld fds (bnd (create_and_bind gai junk port) (\<lambda>sfd. if sfd = - 1 then abort
        else bnd (make_socket_non_blocking sfd) (\<lambda>s.
          if s = - 1 then abort
          else sys (Listen sfd SOMAXCONN) (\<lambda>l.
            if rv l = - 1 then perror ''listen'' abort
            else sys Epoll_create (\<lambda>e.
              if rv e = - 1 then perror ''epoll_create'' abort
              else sys (Epoll_add (rv e) sfd (or EPOLLIN EPOLLET)) (\<lambda>c.
                if rv c = - 1 then perror ''epoll_ctl'' abort
                else sys (Calloc (MAXEVENTS * SIZE_epoll_event)) (\<lambda>_. loop (epoll_body sfd (rv e)) ()))))))) copy.obeys" for fds port
    by (rule copy.obeys_bnd [OF create_copies]) (simp add: rest vld_if vld_stop copy.obeys_simps)
  then show ?thesis by (simp add: epoll_main_def ep_simps)
qed

text \<open>A socket that was bound.\<close>

fun is_bind :: "int \<Rightarrow> event \<Rightarrow> bool" where
  "is_bind fd (Call (On fd' (BIND sa)) b) = (fd' = fd \<and> rv b = 0)"
| "is_bind fd _ = False"

lemma bind_walk_binds:
  assumes "ws \<noteq> []"
  shows "vld fds (bind_walk ws fd) (\<lambda>r t. \<forall>rp sfd. r = Ret (rp, sfd) \<longrightarrow>
      (if rp = [] then fds_run fds t = fds
       else sfd \<notin> fds \<and> 0 \<le> sfd \<and> fds_run fds t = insert sfd fds \<and> list_ex (is_bind sfd) t))"
    (is "vld fds _ (?Q fds)")
  using assms
proof (induction ws arbitrary: fds fd)
  case (Cons w ws)
  have IH: "vld fds (bind_walk ws fd) (?Q fds)" for fds fd
    using Cons.IH by (cases "ws = []") (auto simp: io_simps)
  have "fds - {x} = fds" if "x \<notin> fds" for x :: int using that by simp
  then show ?case by (auto simp: io_simps sys_ok_def intro!: vld_mono [OF IH])
qed simp

subsection \<open>Properties\<close>

text \<open>
  C10: What the server writes to standard output with \<open>write\<close> is what it read from its clients, in the order
  in which it read it. In every run it writes nothing else there and reorders nothing; and as long as every
  write takes all its bytes, nothing is lost either: all but the one buffer of at most 512 bytes that is
  being written has come out. The only other output are the notices of \<open>printf\<close> about connections that were
  accepted and closed.
\<close>

theorem epoll_output:
  assumes "epoll_main gai junk argv rs = (r, t, rs')" and "conforms fds t"
  shows "subseq (written 1 t) (all_got t) \<and>
    (full_writes t \<longrightarrow> (\<exists>p. all_got t = written 1 t @ p \<and> length p \<le> 512)) \<and>
    (\<forall>s \<in> set (printed t). prefix ''Accepted connection on descriptor '' s \<or> prefix ''Closed connection on descriptor '' s)"
proof -
  have "copy.obeys r t" by (rule vldD [OF main_copies assms])
  then have "copying t" by (cases r) (auto simp: copy.obeys_simps copy.whole_part)
  then show ?thesis by (simp add: copying_def list_all_iff is_notice_def)
qed

definition inet_address :: addrinfo where
  "inet_address = \<lparr>ai_family = AF_INET, ai_socktype = SOCK_STREAM, ai_protocol = 6, ai_addr = Sin [39, 17] [0, 0, 0, 0]\<rparr>"

definition reported :: "(32 word \<times> int) list \<Rightarrow> reply" where
  "reported es = (ok (int (length es)))\<lparr>evs := es\<rparr>"

text \<open>One client connects and sends two bytes.\<close>

definition epoll_start :: "reply list" where
  "epoll_start = [(ok 0)\<lparr>ais := [inet_address]\<rparr>, ok 3, ok 0, ok 0, ok 2, ok 0, ok 0, ok 4, ok 0, ok 1]"

definition epoll_turns :: "reply list list" where
  "epoll_turns =
     [[reported [(EPOLLIN, 3)], ok 5, (ok 0)\<lparr>dat := ''::1'', num := 40000\<rparr>, ok 2, ok 0, ok 0, fail EAGAIN],
      [reported [(EPOLLIN, 5)], got ''hi'', ok 2, got ''!'', ok 1, fail EAGAIN]]"

lemmas epoll_run_simps = run_simps create_and_bind_def make_socket_non_blocking_def accept_body_def
  drain_body_def ep_event_def epoll_body_def epoll_turns_def reported_def bad_event_def inet_address_def
  EPOLLIN_def EPOLLERR_def EPOLLHUP_def MAXEVENTS_def SIZE_epoll_event_def says_def

theorem epoll_output_witness:
  "case epoll_main (\<lambda>_. '''') 0 [''epoll'', ''80''] (epoll_start @ concat epoll_turns) of (r, t, rs) \<Rightarrow>
     conforms {0, 1, 2} t \<and> written 1 t = ''hi!'' \<and> (\<exists>p. all_got t = ''hi!'' @ p)"
proof -
  let ?m = "epoll_main (\<lambda>_. '''') 0 [''epoll'', ''80'']"
  let ?rs = "epoll_start @ concat epoll_turns"
  obtain r t rs where run: "?m ?rs = (r, t, rs)" by (cases "?m ?rs") auto
  have "case ?m ?rs of (r, t, rs) \<Rightarrow> conforms {0, 1, 2} t \<and> full_writes t \<and> written 1 t = ''hi!''"
    by (simp add: epoll_run_simps epoll_main_def epoll_start_def cong: lazy)
  with run have 1: "conforms {0, 1, 2} t" "full_writes t" "written 1 t = ''hi!''" by simp_all
  from epoll_output [OF run 1(1)] 1 run show ?thesis by auto
qed

text \<open>
  C5: Every event is dealt with to the end. When a turn of the event loop ends, for every event that \<open>epoll\<close>
  reported: a descriptor with an error has been closed; on the listening socket the last \<open>accept\<close> failed,
  for whatever reason; any other descriptor was read until a read found nothing left, or has been
  closed. So the server never waits for a second notice of bytes it was told of.
\<close>

theorem epoll_drains:
  assumes "epoll_body sfd efd () rs = (Ret (Inl ()), t, rs')" and "conforms fds t"
    and "t = Call (Epoll_wait efd MAXEVENTS) a # t'" and "(ev, fd) \<in> set (take (nat (rv a)) (evs a))"
  shows "if bad_event ev then 0 < calls (Close fd) t
    else if fd = sfd then \<exists>b. last_reply (Accept sfd) t = Some b \<and> rv b = - 1
    else \<exists>b. last_reply (Read fd 512) t = Some b \<and> (rv b = - 1 \<and> en b = EAGAIN \<or> 0 < calls (Close fd) t)"
proof -
  let ?es = "take (nat (rv a)) (evs a)"
  have "vld fds (epoll_body sfd efd ()) (\<lambda>r t. \<forall>a t'. t = Call (Epoll_wait efd MAXEVENTS) a # t' \<longrightarrow>
      all_handled sfd (take (nat (rv a)) (evs a)) r t')"
    unfolding epoll_body_def
    by (auto simp: vld_sys intro!: vld_bnd_use [OF events_handled])
       (simp add: io_simps all_handled_def)
  from vldD [OF this assms(1,2)] assms(3) have "all_handled sfd ?es (Ret (Inl () :: unit + unit)) t'" by simp
  then have "settled sfd t'" and h: "handled sfd t' (ev, fd)" using assms(4) by (auto simp: all_handled_def)
  then show ?thesis using assms(3) by (auto simp: handled_def settled_def)
qed

theorem epoll_drains_witness:
  "case epoll_body 3 4 () (epoll_turns ! 1) of (r, t, rs) \<Rightarrow>
     r = Ret (Inl ()) \<and> (\<exists>b. last_reply (Read 5 512) t = Some b \<and> (rv b = - 1 \<and> en b = EAGAIN \<or> 0 < calls (Close 5) t))"
proof -
  obtain r t rs where run: "epoll_body 3 4 () (epoll_turns ! 1) = (r, t, rs)"
    by (cases "epoll_body 3 4 () (epoll_turns ! 1)") auto
  have "case epoll_body 3 4 () (epoll_turns ! 1) of (r, t, rs) \<Rightarrow>
      r = Ret (Inl ()) \<and> conforms {0, 1, 2, 3, 4, 5} t \<and>
      t = Call (Epoll_wait 4 MAXEVENTS) (reported [(EPOLLIN, 5)]) # tl t"
    by (simp add: epoll_run_simps cong: lazy)
  with run have 1: "r = Ret (Inl ())" "conforms {0, 1, 2, 3, 4, 5} t"
    "t = Call (Epoll_wait 4 MAXEVENTS) (reported [(EPOLLIN, 5)]) # tl t" by auto
  from run 1(1) have "epoll_body 3 4 () (epoll_turns ! 1) = (Ret (Inl ()), t, rs)" by simp
  from epoll_drains [OF this 1(2,3), of EPOLLIN 5] run 1(1) show ?thesis
    by (simp add: reported_def ok_def bad_event_def EPOLLIN_def EPOLLERR_def EPOLLHUP_def)
qed

text \<open>
  C11: No connection is forgotten. If \<open>epoll\<close> reports only descriptors it was given, then at the head of
  the event loop the open descriptors are those the loop started with and the ones \<open>epoll\<close> watches: a
  connection that is not watched any more is closed, and the other way round.
\<close>

theorem epoll_watches_open:
  assumes "reach (epoll_body sfd efd) fds0 () fds s h" and "sfd \<in> fds0" and "reports {sfd} h"
  shows "fds = (fds0 - {sfd}) \<union> watched {sfd} h \<and> (fds0 - {sfd}) \<inter> watched {sfd} h = {}"
proof -
  let ?K = "fds0 - {sfd}"
  have "loop_contract (epoll_body sfd efd) (\<lambda>fds s h. reports {sfd} h \<longrightarrow> balanced ?K fds (watched {sfd} h))
      (\<lambda>r h. True)"
  proof
    fix fds and s :: unit and h
    assume inv: "reports {sfd} h \<longrightarrow> balanced ?K fds (watched {sfd} h)"
    show "vld fds (epoll_body sfd efd s) (\<lambda>r t. case r of
        Ret (Inl s') \<Rightarrow> reports {sfd} (h @ t) \<longrightarrow> balanced ?K (fds_run fds t) (watched {sfd} (h @ t))
      | Ret (Inr x) \<Rightarrow> True | Stop z \<Rightarrow> True)"
    proof (cases "reports {sfd} h")
      case True
      with inv have "balanced ?K fds (watched {sfd} h)" by simp
      from body_balances [OF this] show ?thesis
        by (rule vld_mono) (auto split: result.splits sum.splits)
    next
      case False
      then show ?thesis by (auto intro!: vldI split: result.splits sum.splits)
    qed
  qed simp
  from loop_contract.reach_inv [OF this assms(1)] assms(2,3) show ?thesis
    by (auto simp: balanced_def)
qed

theorem epoll_watches_open_witness:
  "\<exists>h. turns (epoll_body 3 4) () epoll_turns = Some ((), h) \<and>
     fds_run {0, 1, 2, 3, 4} h = ({0, 1, 2, 3, 4} - {3}) \<union> watched {3} h \<and> 5 \<in> watched {3} h"
proof -
  have "\<exists>h. turns (epoll_body 3 4) () epoll_turns = Some ((), h) \<and> conforms {0, 1, 2, 3, 4} h \<and>
      reports {3} h \<and> watched {3} h = {3, 5}"
    by (auto simp: epoll_run_simps cong: lazy)
  then obtain h where h: "turns (epoll_body 3 4) () epoll_turns = Some ((), h)" "conforms {0, 1, 2, 3, 4} h"
    "reports {3} h" "watched {3} h = {3, 5}" by blast
  from epoll_watches_open [OF turns_reach [OF h(1,2)] _ h(3)] h show ?thesis by auto
qed

text \<open>
  \<open>create_and_bind\<close> gives a socket that is bound, and only that. When it returns, either it returns -1
  and has closed everything it opened, or it returns a new descriptor, the only one it leaves open, on
  which a \<open>bind\<close> has succeeded.
\<close>

theorem create_and_bind_binds:
  assumes "create_and_bind gai junk port rs = (Ret sfd, t, rs')" and "conforms fds t"
  shows "sfd = - 1 \<and> fds_run fds t = fds \<or>
    sfd \<notin> fds \<and> 0 \<le> sfd \<and> fds_run fds t = insert sfd fds \<and> list_ex (is_bind sfd) t"
proof -
  let ?Q = "\<lambda>r t. \<forall>sfd. r = Ret sfd \<longrightarrow> sfd = - 1 \<and> fds_run fds t = fds \<or>
    sfd \<notin> fds \<and> 0 \<le> sfd \<and> fds_run fds t = insert sfd fds \<and> list_ex (is_bind sfd) t"
  have rest: "vld fds (bnd (bind_walk ws junk) (\<lambda>(rp, sfd).
         if rp = [] then eprintf (''Could not bind'' @ [LF]) (ret (- 1))
         else sys Freeaddrinfo (\<lambda>_. ret sfd))) ?Q" if "ws \<noteq> []" for ws
    by (rule vld_bnd_use [OF bind_walk_binds [OF that]]) (auto simp: io_simps)
  have "vld fds (create_and_bind gai junk port) ?Q"
    unfolding create_and_bind_def
    by (auto simp: vld_sys vld_if vld_print vld_ret sys_ok_def intro!: rest)
  from vldD [OF this assms] show ?thesis by simp
qed

theorem create_and_bind_binds_witness:
  "case create_and_bind (\<lambda>_. '''') 0 ''80'' [(ok 0)\<lparr>ais := two_addresses\<rparr>, ok 3, fail EINVAL, ok 0, ok 3, ok 0, ok 0] of
     (r, t, rs) \<Rightarrow> r = Ret 3 \<and> conforms {0, 1, 2} t \<and> fds_run {0, 1, 2} t = {0, 1, 2, 3} \<and> list_ex (is_bind 3) t"
proof -
  let ?rs = "[(ok 0)\<lparr>ais := two_addresses\<rparr>, ok 3, fail EINVAL, ok 0, ok 3, ok 0, ok 0]"
  let ?m = "create_and_bind (\<lambda>_. '''') 0 ''80''"
  obtain r t rs where run: "?m ?rs = (r, t, rs)" by (cases "?m ?rs") auto
  have "case ?m ?rs of (r, t, rs) \<Rightarrow> r = Ret 3 \<and> conforms {0, 1, 2} t"
    by (simp add: epoll_run_simps two_addresses_def cong: lazy)
  with run have 1: "r = Ret 3" "conforms {0, 1, 2} t" by simp_all
  from run 1(1) have "?m ?rs = (Ret 3, t, rs)" by simp
  from create_and_bind_binds [OF this 1(2)] run 1 show ?thesis by auto
qed

end
