(* ===== verification/Daytime.thy ===== *)
theory Daytime
  imports Addr_Walk
begin

text \<open>
  The daytime programs over TCP and UDP: the loops and \<open>main\<close> functions of \<open>C/daytime_tcp_server.c\<close>,
  \<open>C/daytime_tcp_client.c\<close>, \<open>C/daytime_udp_server.c\<close> and \<open>C/daytime_udp_client.c\<close>. The functions that look up
  and open the sockets are in \<open>Addr_Walk\<close>; the daemon, in a theory of its own, has the same server loop
  with other messages.
\<close>

definition DAYTIME_BUF_SIZE :: nat where "DAYTIME_BUF_SIZE = 256"

text \<open>What \<open>printf\<close> makes of the result of \<open>inet_ntop\<close>: the text, or a null pointer when it failed (\<open>rv = 0\<close>).\<close>

definition ntop_text :: "reply \<Rightarrow> string" where
  "ntop_text p = (if rv p = 0 then ''(null)'' else dat p)"

text \<open>The texts \<open>%.24s\\r\\n\<close> and \<open>%.24s\\n\<close> of what \<open>ctime\<close> returned.\<close>

definition tcp_line :: "string \<Rightarrow> string" where "tcp_line s = take 24 s @ crlf"
definition udp_line :: "string \<Rightarrow> string" where "udp_line s = take 24 s @ [LF]"

subsection \<open>The TCP server\<close>

text \<open>The state of the loop is \<open>time_buf\<close>. After a failed \<open>write\<close> that was interrupted, and for a peer of
  another family, the loop goes on without closing the connection.\<close>

definition tcp_answer :: "int \<Rightarrow> buf \<Rightarrow> (buf + unit) io" where
  "tcp_answer connfd time_buf =
     sys Time (\<lambda>_. sys Ctime (\<lambda>c.
     let time_buf' = snput (tcp_line (dat c)) time_buf
     in sys (Write connfd (cstr time_buf')) (\<lambda>n.
       if rv n < 0 then
         (if en n = EINTR then ret (Inl time_buf') else perror ''write'' (exit 1))
       else sys (Close connfd) (\<lambda>_. ret (Inl time_buf')))))"

definition tcpd_body :: "int \<Rightarrow> buf \<Rightarrow> (buf + unit) io" where
  "tcpd_body listenfd time_buf =
     sys (Accept listenfd) (\<lambda>a.
       if rv a < 0 then
         (if en a = EINTR then ret (Inl time_buf) else perror ''accept'' (exit 1))
       else if sa_family (peer a) = AF_INET then
         sys (Inet_ntop AF_INET DAYTIME_BUF_SIZE) (\<lambda>p.
         printf (''connection from '' @ ntop_text p @ [LF]) (tcp_answer (rv a) time_buf))
       else if sa_family (peer a) = AF_INET6 then
         sys (Inet_ntop AF_INET6 DAYTIME_BUF_SIZE) (\<lambda>p.
         printf (''connection from '' @ ntop_text p @ [LF]) (tcp_answer (rv a) time_buf))
       else printf (''unknown type.'' @ [LF]) (ret (Inl time_buf)))"

definition daytime_tcp_server :: "int \<Rightarrow> string list \<Rightarrow> unit io" where
  "daytime_tcp_server junk argv =
     (let serve = (\<lambda>host serv. bnd (tcp_listen perror perror junk host serv) (\<lambda>listenfd.
          loop (tcpd_body listenfd) (zeros DAYTIME_BUF_SIZE)))
      in if length argv = 2 then serve None (argv ! 1)
         else if length argv = 3 then serve (Some (argv ! 1)) (argv ! 2)
         else arr_get argv 0 (\<lambda>name. printf (''USAGE: '' @ name @ '' [host] <service/port>'' @ [LF]) (exit 1)))"

subsection \<open>The TCP client\<close>

text \<open>\<open>while ((n = read(sockfd, recv_line, BUF_SIZE)) > 0)\<close>: with \<open>n = BUF_SIZE\<close> the NUL goes past the array.\<close>

definition tcp_client_body :: "int \<Rightarrow> buf \<Rightarrow> (buf + unit) io" where
  "tcp_client_body sockfd recv_line =
     sys (Read sockfd DAYTIME_BUF_SIZE) (\<lambda>n.
       if rv n > 0 then
         fits (store 0 (dat n) recv_line) (\<lambda>b.
         arr_set b (rv n) NUL (\<lambda>b'.
         with_cstr b' (\<lambda>s. printf s (ret (Inl b')))))
       else ret (Inr ()))"

definition daytime_tcp_client :: "(int \<Rightarrow> string) \<Rightarrow> int \<Rightarrow> int \<Rightarrow> string list \<Rightarrow> unit io" where
  "daytime_tcp_client gai junk_n junk argv =
     (if length argv \<noteq> 3 then
        arr_get argv 0 (\<lambda>name. printf (''USAGE: '' @ name @ '' <hostname/IPaddress> <service/port>.'' @ [LF]) (exit 0))
      else bnd (tcp_connect gai junk_n junk (argv ! 1) (argv ! 2)) (\<lambda>sockfd.
        sys (Getpeername sockfd) (\<lambda>g.
          if rv g < 0 then perror ''getpeername'' (exit 1)
          else
            let known = (\<lambda>fam text. printf (text @ [LF]) (sys (Inet_ntop fam DAYTIME_BUF_SIZE) (\<lambda>p.
                  if rv p = 0 then perror ''inet_ntop'' (exit 1)
                  else printf (''connect to '' @ dat p @ [LF])
                    (bnd (loop (tcp_client_body sockfd) (zeros DAYTIME_BUF_SIZE)) (\<lambda>_. exit 0)))))
            in if sa_family (peer g) = AF_INET then known AF_INET ''AF_INET.''
               else if sa_family (peer g) = AF_INET6 then known AF_INET6 ''AF_INET6.''
               else printf (''unknown type.'' @ [LF]) (exit 1))))"

subsection \<open>The UDP server\<close>

text \<open>\<open>buf[n]\<close> is assigned whatever \<open>recvfrom\<close> returned, -1 and 256 included.\<close>

definition udpd_body :: "int \<Rightarrow> buf \<Rightarrow> (buf + unit) io" where
  "udpd_body sockfd buf =
     sys (Recvfrom sockfd DAYTIME_BUF_SIZE) (\<lambda>n.
     fits (store 0 (dat n) buf) (\<lambda>b1.
     arr_set b1 (rv n) NUL (\<lambda>b2.
     let reply = sys Time (\<lambda>_. sys Ctime (\<lambda>c.
           let b3 = snput (udp_line (dat c)) b2
           in sys (Sendto sockfd (cstr b3) (peer n)) (\<lambda>_. ret (Inl b3))))
     in if sa_family (peer n) = AF_INET then
          sys (Inet_ntop AF_INET DAYTIME_BUF_SIZE) (\<lambda>p.
          printf (''[IPv4] datagram from '' @ ntop_text p @ [LF]) reply)
        else if sa_family (peer n) = AF_INET6 then
          sys (Inet_ntop AF_INET6 DAYTIME_BUF_SIZE) (\<lambda>p.
          printf (''[IPv6] datagram from '' @ ntop_text p @ [LF]) reply)
        else printf (''unknown type.'' @ [LF]) reply)))"

text \<open>\<open>junk_buf\<close> is what \<open>buf\<close> holds at the start.\<close>

definition daytime_udp_server :: "(int \<Rightarrow> string) \<Rightarrow> int \<Rightarrow> buf \<Rightarrow> string list \<Rightarrow> unit io" where
  "daytime_udp_server gai junk junk_buf argv =
     (let serve = (\<lambda>host serv. bnd (udp_server gai junk host serv) (\<lambda>sockfd. loop (udpd_body sockfd) junk_buf))
      in if length argv = 2 then serve None (argv ! 1)
         else if length argv = 3 then serve (Some (argv ! 1)) (argv ! 2)
         else arr_get argv 0 (\<lambda>name. printf (''USAGE: '' @ name @ '' [host/IP] <service/port>'' @ [LF]) (exit 1)))"

subsection \<open>The UDP client\<close>

definition udp_exchange :: "int \<Rightarrow> sockaddr \<Rightarrow> buf \<Rightarrow> unit io" where
  "udp_exchange sockfd sa recv_line =
     sys (Sendto sockfd (''hello'' @ [NUL]) sa) (\<lambda>_.
     sys (Recvfrom sockfd DAYTIME_BUF_SIZE) (\<lambda>n.
     fits (store 0 (dat n) recv_line) (\<lambda>b.
     arr_set b (rv n) NUL (\<lambda>b'.
     with_cstr b' (\<lambda>s. printf s (exit 0))))))"

definition daytime_udp_client :: "(int \<Rightarrow> string) \<Rightarrow> int \<Rightarrow> buf \<Rightarrow> string list \<Rightarrow> unit io" where
  "daytime_udp_client gai junk junk_line argv =
     (if length argv \<noteq> 3 then
        arr_get argv 0 (\<lambda>name. printf (''USAGE: '' @ name @ '' <hostname/IP> <service/port>'' @ [LF]) (exit 1))
      else bnd (udp_client gai junk (argv ! 1) (argv ! 2)) (\<lambda>(sockfd, sa).
        if sa_family sa = AF_INET then
          sys (Inet_ntop AF_INET DAYTIME_BUF_SIZE) (\<lambda>p.
          printf (''[IPv4]sending to '' @ ntop_text p @ [LF]) (udp_exchange sockfd sa junk_line))
        else if sa_family sa = AF_INET6 then
          sys (Inet_ntop AF_INET6 DAYTIME_BUF_SIZE) (\<lambda>p.
          printf (''[IPv6]sending to '' @ ntop_text p @ [LF]) (udp_exchange sockfd sa junk_line))
        else printf (''unknown type.'' @ [LF]) (udp_exchange sockfd sa junk_line)))"

subsection \<open>What a server answers\<close>

fun ctimes :: "event list \<Rightarrow> string list" where
  "ctimes [] = []"
| "ctimes (Call (File CTIME) a # t) = dat a # ctimes t"
| "ctimes (_ # t) = ctimes t"

lemma ctimes_append [simp]: "ctimes (s @ t) = ctimes s @ ctimes t"
  by (induction s rule: ctimes.induct) auto

fun write_failed :: "event \<Rightarrow> bool" where
  "write_failed (Call (Transfer fd (WRITE bs)) a) = (rv a < 0)"
| "write_failed _ = False"

text \<open>
  One turn, whose \<open>accept\<close> had the reply \<open>a\<close>: no connection; one of a known family, which is offered the
  line of the time and closed unless the write failed; or one of another family, left open.
\<close>

definition turn_answers :: "int set \<Rightarrow> reply \<Rightarrow> event list \<Rightarrow> bool" where
  "turn_answers fds a t \<longleftrightarrow>
     (if rv a < 0 then offered t = [] \<and> fds_run fds t = fds
      else if sa_family (peer a) = AF_INET \<or> sa_family (peer a) = AF_INET6 then
        (\<exists>s. ctimes t = [s] \<and> offered t = [(rv a, tcp_line s)]) \<and>
        fds_run fds t = (if list_ex write_failed t then insert (rv a) fds else fds)
      else offered t = [] \<and> fds_run fds t = insert (rv a) fds)"

definition answers :: "int \<Rightarrow> int set \<Rightarrow> (buf + unit) result \<Rightarrow> event list \<Rightarrow> bool" where
  "answers listenfd fds r t \<longleftrightarrow> (\<forall>x. r = Ret x \<longrightarrow>
     (\<exists>time_buf a t'. x = Inl time_buf \<and> length time_buf = DAYTIME_BUF_SIZE \<and>
        t = Call (Accept listenfd) a # t' \<and> turn_answers fds a t))"

lemma answers_simps [simp]:
  "answers listenfd fds (Stop z) t"
  "answers listenfd fds (Ret (Inl b)) (Call (Accept listenfd) a # t) \<longleftrightarrow>
     length b = DAYTIME_BUF_SIZE \<and> turn_answers fds a (Call (Accept listenfd) a # t)"
  by (auto simp: answers_def)

lemma tcp_line_cstr:
  assumes "length s = 25" and "NUL \<notin> set s" and "length b = DAYTIME_BUF_SIZE"
  shows "cstr (snput (tcp_line s) b) = tcp_line s" "cstr (snput (udp_line s) b) = udp_line s"
proof -
  have "NUL \<notin> set (take 24 s)" using assms(2) by (meson in_set_takeD)
  moreover have "length (take 24 s) = 24" using assms(1) by simp
  ultimately show "cstr (snput (tcp_line s) b) = tcp_line s" "cstr (snput (udp_line s) b) = udp_line s"
    using assms(3) by (auto simp: tcp_line_def udp_line_def crlf_def DAYTIME_BUF_SIZE_def intro!: snput_cstr)
qed

text \<open>The contract of the two servers, the one with a terminal and the daemon.\<close>

locale daytime_server =
  fixes body :: "int \<Rightarrow> buf \<Rightarrow> (buf + unit) io"
  assumes turn: "length b = DAYTIME_BUF_SIZE \<Longrightarrow> listenfd \<in> fds \<Longrightarrow> vld fds (body listenfd b) (answers listenfd fds)"
begin

text \<open>Only connections that were accepted stay open.\<close>

lemma grows:
  assumes "reach (body listenfd) fds0 b0 fds b h" and "length b0 = DAYTIME_BUF_SIZE" and "listenfd \<in> fds0"
  shows "length b = DAYTIME_BUF_SIZE \<and> fds0 \<subseteq> fds"
  using assms
proof (induction rule: reach.induct)
  case (turn fds b h rs b' t rs')
  then have IH: "length b = DAYTIME_BUF_SIZE" "fds0 \<subseteq> fds" "listenfd \<in> fds" by auto
  from vldD [OF daytime_server.turn [OF daytime_server_axioms, OF IH(1,3)] turn(2,3)] IH(2)
  show ?case by (auto simp: answers_def turn_answers_def split: if_splits)
qed simp

lemma turn_at_head:
  assumes "reach (body listenfd) fds0 b0 fds b h" and "length b0 = DAYTIME_BUF_SIZE" and "listenfd \<in> fds0"
    and "body listenfd b rs = (Ret x, t, rs')" and "conforms fds t"
  shows "\<exists>a t'. t = Call (Accept listenfd) a # t' \<and> turn_answers fds a t"
proof -
  from grows [OF assms(1-3)] assms(3) have "length b = DAYTIME_BUF_SIZE" "listenfd \<in> fds" by auto
  from vldD [OF turn [OF this] assms(4,5)] show ?thesis by (auto simp: answers_def)
qed

end

lemma tcp_answer_ok:
  assumes "length b = DAYTIME_BUF_SIZE" and "0 \<le> rv a" and "rv a \<notin> fds"
    and "sa_family (peer a) = AF_INET \<or> sa_family (peer a) = AF_INET6"
  shows "vld (insert (rv a) fds) (tcp_answer (rv a) b)
    (\<lambda>r t. answers listenfd fds r (Call (Accept listenfd) a # Call (Inet_ntop f k) q # Out m # t))"
  using assms
  by (auto simp: tcp_answer_def io_simps sys_ok_def Let_def tcp_line_cstr turn_answers_def)

interpretation tcpd: daytime_server tcpd_body
  by unfold_locales
    (auto simp: tcpd_body_def io_simps sys_ok_def turn_answers_def intro!: tcp_answer_ok)

subsection \<open>The clients and the UDP server\<close>

text \<open>A read or a datagram that filled the array, or failed where the result was not tested.\<close>

fun fills :: "event \<Rightarrow> bool" where
  "fills (Call (Transfer fd (READ n)) a) = (rv a = int n)"
| "fills (Call (Transfer fd (RECVFROM n)) a) = (rv a = int n \<or> rv a = - 1)"
| "fills _ = False"

definition filled :: "event list \<Rightarrow> bool" where
  "filled t = list_ex fills t"

lemma filled_simps [simp]:
  "\<not> filled []" "filled (e # t) \<longleftrightarrow> fills e \<or> filled t" "filled (s @ t) \<longleftrightarrow> filled s \<or> filled t"
  by (auto simp: filled_def)

definition echoes :: "int \<Rightarrow> event list \<Rightarrow> bool" where
  "echoes sockfd t \<longleftrightarrow> \<not> filled t \<and> (NUL \<notin> set (received sockfd t) \<longrightarrow> concat (printed t) = received sockfd t)"

lemma echoes_end:
  "rv n \<le> 0 \<Longrightarrow> length (dat n) = nat (rv n) \<Longrightarrow>
    echoes sockfd (h @ [Call (Read fd DAYTIME_BUF_SIZE) n]) = echoes sockfd h"
  by (auto simp: echoes_def DAYTIME_BUF_SIZE_def)

definition echo_post :: "int \<Rightarrow> 'a result \<Rightarrow> event list \<Rightarrow> bool" where
  "echo_post sockfd r t \<longleftrightarrow>
     (case r of Ret x \<Rightarrow> echoes sockfd t
      | Stop z \<Rightarrow> if z = Fault Overflow then filled t else (z = Blocked \<or> z = Diverge) \<and> echoes sockfd t)"

lemma echo_post_simps [simp]:
  "echo_post sockfd (Ret x) t = echoes sockfd t"
  "echo_post sockfd (Stop Blocked) t = echoes sockfd t"
  "echo_post sockfd (Stop Diverge) t = echoes sockfd t"
  "echo_post sockfd (Stop (Fault Overflow)) t = filled t"
  by (simp_all add: echo_post_def)

text \<open>The bytes put at the start of an array, with a NUL behind them.\<close>

lemma store_end:
  assumes "length bs < length b"
  shows "store 0 bs b = Some (bs @ drop (length bs) b)"
    "(bs @ drop (length bs) b)[length bs := NUL] = bs @ NUL # drop (Suc (length bs)) b"
proof -
  show "store 0 bs b = Some (bs @ drop (length bs) b)" using assms by (simp add: store_def)
  have "drop (length bs) b = b ! length bs # drop (Suc (length bs)) b"
    using assms by (simp add: Cons_nth_drop_Suc)
  then show "(bs @ drop (length bs) b)[length bs := NUL] = bs @ NUL # drop (Suc (length bs)) b"
    by simp
qed

lemma store_full: "length bs = length b \<Longrightarrow> store 0 bs b = Some bs"
  by (simp add: store_def)

interpretation tcpc: loop_contract "tcp_client_body sockfd"
    "\<lambda>fds b h. length b = DAYTIME_BUF_SIZE \<and> echoes sockfd h" "echo_post sockfd" for sockfd
proof
  fix fds and b :: buf and h
  assume inv: "length b = DAYTIME_BUF_SIZE \<and> echoes sockfd h"
  have 1: "vld fds (fits (store 0 (dat n) b) (\<lambda>b. arr_set b (rv n) NUL (\<lambda>b'.
         with_cstr b' (\<lambda>s. printf s (ret (Inl b' :: buf + unit))))))
      (\<lambda>r t. case r of
        Ret (Inl s') \<Rightarrow> length s' = DAYTIME_BUF_SIZE \<and> echoes sockfd (h @ Call (Read sockfd DAYTIME_BUF_SIZE) n # t)
      | Ret (Inr x) \<Rightarrow> echo_post sockfd (Ret x) (h @ Call (Read sockfd DAYTIME_BUF_SIZE) n # t)
      | Stop z \<Rightarrow> echo_post sockfd (Stop z) (h @ Call (Read sockfd DAYTIME_BUF_SIZE) n # t))"
    if n: "length (dat n) = nat (rv n)" "0 < rv n" "rv n \<le> int DAYTIME_BUF_SIZE" for n fds
  proof (cases "rv n = int DAYTIME_BUF_SIZE")
    case True
    then show ?thesis using inv n by (simp add: store_full io_simps)
  next
    case False
    with inv n have lt: "length (dat n) < length b" by simp
    have "rv n = int (length (dat n))" using n(1,2) by simp
    with inv n(2) False lt show ?thesis
      by (auto simp: store_end [OF lt] io_simps echoes_def)
  qed
  show "vld fds (tcp_client_body sockfd b) (\<lambda>r t. case r of
        Ret (Inl s') \<Rightarrow> length s' = DAYTIME_BUF_SIZE \<and> echoes sockfd (h @ t)
      | Ret (Inr x) \<Rightarrow> echo_post sockfd (Ret x) (h @ t)
      | Stop z \<Rightarrow> echo_post sockfd (Stop z) (h @ t))"
    using inv
    by (auto simp: tcp_client_body_def vld_sys vld_if vld_ret sys_ok_def echoes_end intro!: 1)
  show "echo_post sockfd (Stop Diverge) h" using inv by simp
qed

definition udp_answered :: "event list \<Rightarrow> bool" where
  "udp_answered t \<longleftrightarrow> \<not> filled t \<and> length (ctimes t) = length (senders t) \<and>
     sent_to t = zip (map udp_line (ctimes t)) (senders t)"

definition udp_answering :: "event list \<Rightarrow> bool" where
  "udp_answering t \<longleftrightarrow> \<not> filled t \<and> prefix (sent_to t) (zip (map udp_line (ctimes t)) (senders t))"

definition udp_post :: "'a result \<Rightarrow> event list \<Rightarrow> bool" where
  "udp_post r t \<longleftrightarrow>
     (case r of Ret x \<Rightarrow> False
      | Stop z \<Rightarrow> if z = Fault Overflow then filled t else (z = Blocked \<or> z = Diverge) \<and> udp_answering t)"

lemma udp_post_simps [simp]:
  "\<not> udp_post (Ret x) t"
  "udp_post (Stop Blocked) t = udp_answering t"
  "udp_post (Stop Diverge) t = udp_answering t"
  "udp_post (Stop (Fault Overflow)) t = filled t"
  by (simp_all add: udp_post_def)

lemma answered_answering: "udp_answered t \<Longrightarrow> udp_answering t"
  by (simp add: udp_answered_def udp_answering_def)

text \<open>What a turn adds to the trace, up to each of its calls.\<close>

lemma udp_turn_traces:
  assumes h: "udp_answered h" and n: "0 \<le> rv n" "rv n < int DAYTIME_BUF_SIZE"
    and m: "ctimes m = []" "senders m = []" "sent_to m = []" "\<not> filled m"
  shows "udp_answering (h @ Call (Recvfrom fd DAYTIME_BUF_SIZE) n # m)"
    "udp_answering (h @ Call (Recvfrom fd DAYTIME_BUF_SIZE) n # m @ [Call Time x])"
    "udp_answering (h @ Call (Recvfrom fd DAYTIME_BUF_SIZE) n # m @ [Call Time x, Call Ctime c])"
    "udp_answered (h @ Call (Recvfrom fd DAYTIME_BUF_SIZE) n # m @
       [Call Time x, Call Ctime c, Call (Sendto fd (udp_line (dat c)) (peer n)) w])"
  using assms by (auto simp: udp_answered_def udp_answering_def zip_append2)

lemma udp_turn_traces' :
  assumes "udp_answered h" and "0 \<le> rv n" "rv n < int DAYTIME_BUF_SIZE"
  shows "udp_answering (h @ [Call (Recvfrom fd DAYTIME_BUF_SIZE) n])"
    "udp_answering (h @ [Call (Recvfrom fd DAYTIME_BUF_SIZE) n, Call (Inet_ntop f k) p, Out s])"
    "udp_answering (h @ [Call (Recvfrom fd DAYTIME_BUF_SIZE) n, Out s])"
    "udp_answering (h @ [Call (Recvfrom fd DAYTIME_BUF_SIZE) n, Call (Inet_ntop f k) p, Out s, Call Time x])"
    "udp_answering (h @ [Call (Recvfrom fd DAYTIME_BUF_SIZE) n, Out s, Call Time x])"
    "udp_answering (h @ [Call (Recvfrom fd DAYTIME_BUF_SIZE) n, Call (Inet_ntop f k) p, Out s, Call Time x, Call Ctime c])"
    "udp_answering (h @ [Call (Recvfrom fd DAYTIME_BUF_SIZE) n, Out s, Call Time x, Call Ctime c])"
    "udp_answered (h @ [Call (Recvfrom fd DAYTIME_BUF_SIZE) n, Call (Inet_ntop f k) p, Out s, Call Time x, Call Ctime c,
       Call (Sendto fd (udp_line (dat c)) (peer n)) w])"
    "udp_answered (h @ [Call (Recvfrom fd DAYTIME_BUF_SIZE) n, Out s, Call Time x, Call Ctime c,
       Call (Sendto fd (udp_line (dat c)) (peer n)) w])"
  using udp_turn_traces [OF assms, of "[]"] udp_turn_traces [OF assms, of "[Call (Inet_ntop f k) p, Out s]"]
    udp_turn_traces [OF assms, of "[Out s]"] by simp_all

lemma store_None: "store 0 bs b = None \<longleftrightarrow> length b < length bs"
  by (simp add: store_def)

lemma udp_filled:
  "rv n = - 1 \<or> rv n = int DAYTIME_BUF_SIZE \<Longrightarrow> filled (h @ [Call (Recvfrom fd DAYTIME_BUF_SIZE) n])"
  by auto

interpretation udpd: loop_contract "udpd_body sockfd"
    "\<lambda>fds b h. length b = DAYTIME_BUF_SIZE \<and> udp_answered h" udp_post for sockfd
  by unfold_locales
    (auto simp: udpd_body_def io_simps sys_ok_def Let_def store_None answered_answering tcp_line_cstr
      udp_turn_traces' udp_filled intro!: udp_turn_traces' dest!: store_length)

lemma tcp_client_steady [steady_intros]: "steady (tcp_client_body sockfd b)"
  unfolding tcp_client_body_def by (intro steady_intros)

interpretation tcpc_busy: busy_loop "tcp_client_body sockfd" for sockfd
  by unfold_locales (simp only: tcp_client_body_def, intro busy_sys steady_intros)

interpretation udpd_busy: busy_loop "udpd_body sockfd" for sockfd
  by unfold_locales (simp only: udpd_body_def Let_def, intro busy_sys steady_intros)

subsection \<open>Properties\<close>

text \<open>
  The TCP client prints what the server sends, as long as no read fills its buffer. Its loop
  writes past the array exactly when a read brings all 256 bytes; in every other run it returns or
  waits for more, and, when the server sent no NUL, the text printed is the text received.
\<close>

theorem daytime_client_prints:
  assumes "loop (tcp_client_body sockfd) (zeros DAYTIME_BUF_SIZE) rs = (r, t, rs')" and "conforms fds t"
  shows "(r = Stop (Fault Overflow) \<longleftrightarrow> filled t) \<and>
    (r \<noteq> Stop (Fault Overflow) \<longrightarrow> (r = Ret () \<or> r = Stop Blocked) \<and>
      (NUL \<notin> set (received sockfd t) \<longrightarrow> concat (printed t) = received sockfd t))"
proof -
  have "echo_post sockfd r t"
    by (rule vldD [OF tcpc.loop_post assms]) (simp add: echoes_def)
  moreover have "r \<noteq> Stop Diverge"
    using steady_fst [OF tcpc_busy.loop_steady, of sockfd "zeros DAYTIME_BUF_SIZE" rs] assms(1) by simp
  ultimately show ?thesis
    by (auto simp: echo_post_def echoes_def split: result.splits if_splits)
qed

lemma zeros_update: "(zeros n)[i := NUL] = zeros n"
  by (cases "i < n") (simp_all add: zeros_def list_update_same_conv list_update_beyond)

theorem daytime_client_prints_witness:
  "case loop (tcp_client_body 3) (zeros DAYTIME_BUF_SIZE) [got ''12:'', got ''54'', ok 0] of (r, t, rs) \<Rightarrow>
     conforms {0, 1, 2, 3} t \<and> r = Ret () \<and> concat (printed t) = ''12:54''"
proof -
  let ?m = "loop (tcp_client_body 3) (zeros DAYTIME_BUF_SIZE)"
  obtain r t rs where run: "?m [got ''12:'', got ''54'', ok 0] = (r, t, rs)"
    by (cases "?m [got ''12:'', got ''54'', ok 0]") auto
  have "case ?m [got ''12:'', got ''54'', ok 0] of (r, t, rs) \<Rightarrow>
      conforms {0, 1, 2, 3} t \<and> r = Ret () \<and> received 3 t = ''12:54''"
    by (simp add: run_simps tcp_client_body_def DAYTIME_BUF_SIZE_def zeros_update cong: lazy)
  with run have 1: "conforms {0, 1, 2, 3} t" "r = Ret ()" "received 3 t = ''12:54''" by simp_all
  from daytime_client_prints [OF run 1(1)] 1 run show ?thesis by auto
qed

text \<open>
  The UDP server answers every datagram with the time, to its sender and in order; but one datagram
  of 256 bytes or more, or one failed \<open>recvfrom\<close>, makes it write outside its array. In a run without
  these it only ever waits, and what it has sent are the lines of the times it asked for, each to the
  sender of the datagram of the same number.
\<close>

theorem daytime_udp_answers:
  assumes "loop (udpd_body sockfd) junk_buf rs = (r, t, rs')" and "conforms fds t"
    and "length junk_buf = DAYTIME_BUF_SIZE"
  shows "(r = Stop (Fault Overflow) \<longleftrightarrow> filled t) \<and>
    (r \<noteq> Stop (Fault Overflow) \<longrightarrow> r = Stop Blocked \<and>
      prefix (sent_to t) (zip (map udp_line (ctimes t)) (senders t)))"
proof -
  have "udp_post r t"
    by (rule vldD [OF udpd.loop_post assms(1,2)]) (simp add: udp_answered_def assms(3))
  moreover have "r \<noteq> Stop Diverge"
    using steady_fst [OF udpd_busy.loop_steady, of sockfd junk_buf rs] assms(1) by simp
  ultimately show ?thesis
    by (auto simp: udp_post_def udp_answering_def split: result.splits if_splits)
qed

definition datagram :: "string \<Rightarrow> reply" where
  "datagram s = (got s)\<lparr>peer := Sin [156, 64] [127, 0, 0, 1]\<rparr>"

definition udp_script :: "reply list" where
  "udp_script = [datagram ''hello'', (ok 1)\<lparr>dat := ''127.0.0.1''\<rparr>, ok 0, ctime_reply, ok 25]"

theorem daytime_udp_answers_witness:
  "case loop (udpd_body 3) (zeros DAYTIME_BUF_SIZE) udp_script of (r, t, rs) \<Rightarrow>
     conforms {0, 1, 2, 3} t \<and> r = Stop Blocked \<and> length (sent_to t) = 1 \<and>
     prefix (sent_to t) (zip (map udp_line (ctimes t)) (senders t))"
proof -
  let ?m = "loop (udpd_body 3) (zeros DAYTIME_BUF_SIZE)"
  obtain r t rs where run: "?m udp_script = (r, t, rs)" by (cases "?m udp_script") auto
  have "case ?m udp_script of (r, t, rs) \<Rightarrow>
      conforms {0, 1, 2, 3} t \<and> r = Stop Blocked \<and> length (sent_to t) = 1"
    by (simp add: run_simps udpd_body_def udp_script_def datagram_def DAYTIME_BUF_SIZE_def
        udp_line_def reply_simps ntop_text_def zeros_update cong: lazy)
  with run have 1: "conforms {0, 1, 2, 3} t" "r = Stop Blocked" "length (sent_to t) = 1" by simp_all
  from daytime_udp_answers [OF run 1(1)] 1 run show ?thesis by simp
qed

end
