(* ===== verification/Daemon.thy ===== *)
theory Daemon
  imports Daytime Same_Calls
begin

text \<open>
  \<open>C/daytime_tcp_server_daemon.c\<close>: the daytime server as a daemon. \<open>daemon_init\<close> forks twice, closes the
  first 64 descriptors and opens the null device three times; the server then writes its messages to
  the system's log.
\<close>

definition MAX_FD :: int where "MAX_FD = 64"

fun close_all :: "int list \<Rightarrow> 'a io \<Rightarrow> 'a io" where
  "close_all [] m = m"
| "close_all (i # is) m = sys (Close i) (\<lambda>_. close_all is m)"

definition daemon_init :: "string \<Rightarrow> int \<Rightarrow> int io" where
  "daemon_init ident facility =
     sys Fork (\<lambda>pid.
       if rv pid < 0 then syslog ''daemon_init first fork'' (ret (- 1))
       else if rv pid > 0 then exit 0
       else sys Setsid (\<lambda>s.
         if rv s < 0 then syslog ''daemon_init setsid'' (ret (- 1))
         else sys (Signal SIGHUP SIG_IGN) (\<lambda>_.
           sys Fork (\<lambda>pid2.
             if rv pid2 < 0 then syslog ''daemon_init second fork'' (ret (- 1))
             else if rv pid2 > 0 then exit 0
             else sys (Chdir ''/'') (\<lambda>_.
               close_all [0..MAX_FD - 1]
               (sys (Open ''/dev/null'' O_RDONLY) (\<lambda>_.
                sys (Open ''/dev/null'' O_RDWR) (\<lambda>_.
                sys (Open ''/dev/null'' O_RDWR) (\<lambda>_.
                sys (Openlog ident facility) (\<lambda>_. ret 0))))))))))"

definition log_answer :: "int \<Rightarrow> buf \<Rightarrow> (buf + unit) io" where
  "log_answer connfd time_buf =
     sys Time (\<lambda>_. sys Ctime (\<lambda>c.
     let time_buf' = snput (tcp_line (dat c)) time_buf
     in syslog (''time is '' @ cstr time_buf' @ [LF])
        (sys (Write connfd (cstr time_buf')) (\<lambda>n.
          if rv n < 0 then
            (if en n = EINTR then ret (Inl time_buf') else syslog ''write'' (exit 1))
          else sys (Close connfd) (\<lambda>_. ret (Inl time_buf'))))))"

definition daemon_body :: "int \<Rightarrow> buf \<Rightarrow> (buf + unit) io" where
  "daemon_body listenfd time_buf =
     sys (Accept listenfd) (\<lambda>a.
       if rv a < 0 then
         (if en a = EINTR then ret (Inl time_buf) else syslog ''accept'' (exit 1))
       else if sa_family (peer a) = AF_INET then
         sys (Inet_ntop AF_INET DAYTIME_BUF_SIZE) (\<lambda>p.
         syslog (''connection from '' @ ntop_text p @ [LF]) (log_answer (rv a) time_buf))
       else if sa_family (peer a) = AF_INET6 then
         sys (Inet_ntop AF_INET6 DAYTIME_BUF_SIZE) (\<lambda>p.
         syslog (''connection from '' @ ntop_text p @ [LF]) (log_answer (rv a) time_buf))
       else syslog (''unknown type.'' @ [LF]) (ret (Inl time_buf)))"

text \<open>The daemon has a \<open>tcp_listen\<close> of its own, which complains to the log.\<close>

definition daemon_tcp_listen :: "int \<Rightarrow> string option \<Rightarrow> string \<Rightarrow> int io" where
  "daemon_tcp_listen = tcp_listen syslog syslog"

definition daemon_serve :: "int \<Rightarrow> string list \<Rightarrow> unit io" where
  "daemon_serve junk argv =
     bnd (if length argv = 2 then daemon_tcp_listen junk None (argv ! 1)
          else daemon_tcp_listen junk (Some (argv ! 1)) (argv ! 2))
       (\<lambda>listenfd. loop (daemon_body listenfd) (zeros DAYTIME_BUF_SIZE))"

text \<open>\<open>main\<close> does not look at what \<open>daemon_init\<close> returns.\<close>

definition daemon_main :: "int \<Rightarrow> string list \<Rightarrow> unit io" where
  "daemon_main junk argv =
     (if length argv < 2 \<or> length argv > 3 then
        arr_get argv 0 (\<lambda>name. printf (''USAGE: '' @ name @ '' [host] <service/port>'' @ [LF]) (exit 1))
      else bnd (daemon_init (argv ! 0) 0) (\<lambda>_. daemon_serve junk argv))"

subsection \<open>Closing and opening\<close>

text \<open>The calls that close the descriptors of a list, in order.\<close>

fun closes :: "int list \<Rightarrow> event list \<Rightarrow> bool" where
  "closes [] t = (t = [])"
| "closes (i # is) (Call c a # t) = (c = Close i \<and> closes is t)"
| "closes (i # is) _ = False"

text \<open>
  \<open>open\<close> takes the lowest free descriptor; it succeeded each time it was called.
\<close>

definition below :: "int \<Rightarrow> int set \<Rightarrow> bool" where
  "below n fds \<longleftrightarrow> {0..<n} \<subseteq> fds"

fun lowest :: "int set \<Rightarrow> event list \<Rightarrow> bool" where
  "lowest fds [] = True"
| "lowest fds (Call (File (OPEN p w)) a # t) =
     ((0 \<le> rv a \<longrightarrow> below (rv a) fds) \<and> lowest (fds_after fds (Open p w) a) t)"
| "lowest fds (Call c a # t) = lowest (fds_after fds c a) t"
| "lowest fds (_ # t) = lowest fds t"

fun opened :: "event \<Rightarrow> bool" where
  "opened (Call (File (OPEN p w)) a) = (0 \<le> rv a)"
| "opened _ = True"

text \<open>The files that were opened, with the flags and the descriptor of each.\<close>

fun opens :: "event list \<Rightarrow> (string \<times> 32 word \<times> int) list" where
  "opens [] = []"
| "opens (Call (File (OPEN p w)) a # t) = (p, w, rv a) # opens t"
| "opens (_ # t) = opens t"

lemma closes_simps:
  "closes is t \<Longrightarrow> lowest fds (t @ t') \<longleftrightarrow> lowest (fds - set is) t'"
  "closes is t \<Longrightarrow> fds_run fds (t @ t') = fds_run (fds - set is) t'"
  "closes is t \<Longrightarrow> list_all opened (t @ t') \<longleftrightarrow> list_all opened t'"
  "closes is t \<Longrightarrow> opens (t @ t') = opens t'"
proof -
  have *: "fds - {i} - A = fds - insert i A" for i :: int and fds A by auto
  show "closes is t \<Longrightarrow> lowest fds (t @ t') \<longleftrightarrow> lowest (fds - set is) t'"
    "closes is t \<Longrightarrow> fds_run fds (t @ t') = fds_run (fds - set is) t'"
    "closes is t \<Longrightarrow> list_all opened (t @ t') \<longleftrightarrow> list_all opened t'"
    "closes is t \<Longrightarrow> opens (t @ t') = opens t'"
    by (induction "is" t arbitrary: fds rule: closes.induct) (auto simp: *)
qed

lemma vld_close_all:
  assumes "\<And>t. Q (Stop Blocked) t"
    and "\<And>t. closes is t \<Longrightarrow> vld (fds - set is) m (\<lambda>r t'. Q r (t @ t'))"
  shows "vld fds (close_all is m) Q"
  using assms
proof (induction "is" arbitrary: fds Q)
  case Nil
  from Nil.prems(2) [of "[]"] show ?case by simp
next
  case (Cons i "is")
  have "vld (fds - {i}) (close_all is m) (\<lambda>r t. Q r (Call (Close i) a # t))" for a
  proof (rule Cons.IH)
    fix t assume "closes is t"
    with Cons.prems(2) [of "Call (Close i) a # t"]
    show "vld (fds - {i} - set is) m (\<lambda>r t'. Q r (Call (Close i) a # t @ t'))"
      by (simp add: Diff_insert2 [symmetric] Diff_insert [symmetric])
  qed (rule Cons.prems(1))
  with Cons.prems(1) show ?case by (simp add: vld_sys)
qed

lemma first_free:
  assumes "0 \<le> x" and "x \<notin> F" and "below x F" and "n \<notin> F" and "0 \<le> n" and "below n F"
  shows "x = n"
  using assms unfolding below_def by (meson atLeastLessThan_iff linorder_neqE_linordered_idom subsetD)

lemma null_descriptors:
  assumes "F = fds - {0..<MAX_FD}"
  shows "0 \<le> x \<Longrightarrow> x \<notin> F \<Longrightarrow> below x F \<Longrightarrow> x = 0"
    "0 \<le> x \<Longrightarrow> x \<notin> insert 0 F \<Longrightarrow> below x (insert 0 F) \<Longrightarrow> x = 1"
    "0 \<le> x \<Longrightarrow> x \<notin> insert 1 (insert 0 F) \<Longrightarrow> below x (insert 1 (insert 0 F)) \<Longrightarrow> x = 2"
proof -
  have "0 \<notin> F" "1 \<notin> insert 0 F" "2 \<notin> insert 1 (insert 0 F)"
    using assms by (simp_all add: MAX_FD_def)
  moreover have "below 0 F" "below 1 (insert 0 F)" "below 2 (insert 1 (insert 0 F))"
    by (auto simp: below_def)
  ultimately show "0 \<le> x \<Longrightarrow> x \<notin> F \<Longrightarrow> below x F \<Longrightarrow> x = 0"
    "0 \<le> x \<Longrightarrow> x \<notin> insert 0 F \<Longrightarrow> below x (insert 0 F) \<Longrightarrow> x = 1"
    "0 \<le> x \<Longrightarrow> x \<notin> insert 1 (insert 0 F) \<Longrightarrow> below x (insert 1 (insert 0 F)) \<Longrightarrow> x = 2"
    using first_free by (metis zero_le_numeral zero_le_one order_refl)+
qed

text \<open>The three calls of \<open>open\<close>, from any set of open descriptors.\<close>

definition opens_to :: "int set \<Rightarrow> int set \<Rightarrow> (string \<times> 32 word \<times> int) list \<Rightarrow> int result \<Rightarrow> event list \<Rightarrow> bool" where
  "opens_to F G os r t \<longleftrightarrow>
     (r = Ret 0 \<longrightarrow> lowest F t \<longrightarrow> list_all opened t \<longrightarrow> fds_run F t = G \<and> opens t = os)"

lemma opens_to_simps [simp]:
  "opens_to F G os (Stop z) t"
  "0 \<le> rv a \<Longrightarrow> below (rv a) F \<Longrightarrow>
    opens_to F G ((p, w, rv a) # os) r (Call (Open p w) a # t) = opens_to (insert (rv a) F) G os r t"
  "\<not> (0 \<le> rv a \<and> below (rv a) F) \<Longrightarrow> opens_to F G os r (Call (Open p w) a # t)"
  by (auto simp: opens_to_def)

lemma opens_to_closes:
  "closes is t \<Longrightarrow> opens_to fds G os r (t @ t') = opens_to (fds - set is) G os r t'"
  by (simp only: opens_to_def closes_simps)

definition null_files :: "(string \<times> 32 word \<times> int) list" where
  "null_files = [(''/dev/null'', O_RDONLY, 0), (''/dev/null'', O_RDWR, 1), (''/dev/null'', O_RDWR, 2)]"

lemma opens_next:
  assumes "\<And>x. 0 \<le> x \<Longrightarrow> x \<notin> F \<Longrightarrow> below x F \<Longrightarrow> x = n"
    and "vld (insert n F) m (opens_to (insert n F) G os)"
  shows "vld F (sys (Open p w) (\<lambda>_. m)) (opens_to F G ((p, w, n) # os))"
  unfolding vld_sys
proof (intro conjI allI impI)
  fix a assume a: "sys_ok F (Open p w) a"
  show "vld (fds_after F (Open p w) a) m (\<lambda>r t. opens_to F G ((p, w, n) # os) r (Call (Open p w) a # t))"
  proof (cases "0 \<le> rv a \<and> below (rv a) F")
    case True
    with a assms(1) have "rv a = n" by (auto simp: sys_ok_def)
    with True assms(2) show ?thesis by auto
  next
    case False
    then show ?thesis by (auto intro: vldI)
  qed
qed simp

lemma opens_null:
  assumes "F = fds - {0..<MAX_FD}"
  shows "vld F
     (sys (Open ''/dev/null'' O_RDONLY) (\<lambda>_. sys (Open ''/dev/null'' O_RDWR) (\<lambda>_.
      sys (Open ''/dev/null'' O_RDWR) (\<lambda>_. sys (Openlog ident facility) (\<lambda>_. ret 0)))))
     (opens_to F (insert 2 (insert 1 (insert 0 F))) null_files)"
  unfolding null_files_def
  by (intro opens_next [where n = 0] opens_next [where n = 1] opens_next [where n = 2]
      null_descriptors [OF assms]) (auto simp: io_simps opens_to_def)

lemma init_opens:
  "vld fds (daemon_init ident facility)
     (opens_to fds ((fds - {0..<MAX_FD}) \<union> {0, 1, 2}) null_files)"
proof -
  define F where "F = fds - {0..<MAX_FD}"
  have F: "fds - set [0..MAX_FD - 1] = F" by (auto simp: F_def)
  have G: "insert 2 (insert 1 (insert 0 F)) = F \<union> {0, 1, 2}" by auto
  have "vld fds (close_all [0..MAX_FD - 1]
       (sys (Open ''/dev/null'' O_RDONLY) (\<lambda>_. sys (Open ''/dev/null'' O_RDWR) (\<lambda>_.
        sys (Open ''/dev/null'' O_RDWR) (\<lambda>_. sys (Openlog ident facility) (\<lambda>_. ret 0))))))
     (opens_to fds (F \<union> {0, 1, 2}) null_files)"
  proof (rule vld_close_all)
    fix t assume t: "closes [0..MAX_FD - 1] t"
    show "vld (fds - set [0..MAX_FD - 1])
       (sys (Open ''/dev/null'' O_RDONLY) (\<lambda>_. sys (Open ''/dev/null'' O_RDWR) (\<lambda>_.
        sys (Open ''/dev/null'' O_RDWR) (\<lambda>_. sys (Openlog ident facility) (\<lambda>_. ret 0)))))
       (\<lambda>r t'. opens_to fds (F \<union> {0, 1, 2}) null_files r (t @ t'))"
      unfolding F opens_to_closes [OF t] G [symmetric] by (rule opens_null [OF F_def])
  qed simp
  then show ?thesis
    unfolding F_def [symmetric] daemon_init_def
    by (auto simp: io_simps opens_to_def elim!: vld_mono)
qed

subsection \<open>The server loop\<close>

lemma log_answer_ok:
  assumes "length b = DAYTIME_BUF_SIZE" and "0 \<le> rv a" and "rv a \<notin> fds"
    and "sa_family (peer a) = AF_INET \<or> sa_family (peer a) = AF_INET6"
  shows "vld (insert (rv a) fds) (log_answer (rv a) b)
    (\<lambda>r t. answers listenfd fds r (Call (Accept listenfd) a # Call (Inet_ntop f k) q # Syslog m # t))"
  using assms
  by (auto simp: log_answer_def io_simps sys_ok_def Let_def tcp_line_cstr turn_answers_def)

interpretation daemond: daytime_server daemon_body
  by unfold_locales
    (auto simp: daemon_body_def io_simps sys_ok_def turn_answers_def intro!: log_answer_ok)

lemma answer_same: "same_calls (tcp_answer connfd b) (log_answer connfd b)"
  unfolding tcp_answer_def log_answer_def Let_def by (intro same_intros)

lemma body_same: "same_calls (tcpd_body listenfd b) (daemon_body listenfd b)"
  unfolding tcpd_body_def daemon_body_def by (intro same_intros answer_same)

lemma listen_body_same: "same_calls (listen_body perror w) (listen_body syslog w)"
proof (cases w)
  case (Pair res fd)
  then show ?thesis
    by (cases res) (simp_all add: listen_body_def, (intro same_intros)+)
qed

lemma listen_same: "same_calls (tcp_listen perror perror junk host serv) (daemon_tcp_listen junk host serv)"
  unfolding daemon_tcp_listen_def tcp_listen_def
  by (intro same_intros listen_body_same) (auto intro!: same_intros split: prod.split)

lemma serve_same:
  "length argv = 2 \<or> length argv = 3 \<Longrightarrow> same_calls (daytime_tcp_server junk argv) (daemon_serve junk argv)"
  by (auto simp: daytime_tcp_server_def daemon_serve_def Let_def intro!: same_intros body_same listen_same)

subsection \<open>Properties\<close>

text \<open>
  C22: The daytime servers answer every connection with the time. In the foreground server and in the
  daemon, at every turn of the loop: when \<open>accept\<close> failed, nothing is sent and nothing opened; a
  connection of a known family is offered exactly the first 24 characters of what \<open>ctime\<close> gave, CR and
  LF, and is closed unless the write failed; a connection of another family is sent nothing and stays open.
\<close>

theorem daytime_servers_answer:
  assumes "reach (tcpd_body listenfd) fds0 (zeros DAYTIME_BUF_SIZE) fds b h \<and> tcpd_body listenfd b rs = (Ret x, t, rs') \<or>
      reach (daemon_body listenfd) fds0 (zeros DAYTIME_BUF_SIZE) fds b h \<and> daemon_body listenfd b rs = (Ret x, t, rs')"
    and "listenfd \<in> fds0" and "conforms fds t"
  shows "\<exists>a t'. t = Call (Accept listenfd) a # t' \<and>
    (if rv a < 0 then offered t = [] \<and> fds_run fds t = fds
     else if sa_family (peer a) = AF_INET \<or> sa_family (peer a) = AF_INET6 then
       (\<exists>s. ctimes t = [s] \<and> offered t = [(rv a, take 24 s @ crlf)]) \<and>
       fds_run fds t = (if list_ex write_failed t then insert (rv a) fds else fds)
     else offered t = [] \<and> fds_run fds t = insert (rv a) fds)"
proof -
  have z: "length (zeros DAYTIME_BUF_SIZE) = DAYTIME_BUF_SIZE" by simp
  from assms(1) have "\<exists>a t'. t = Call (Accept listenfd) a # t' \<and> turn_answers fds a t"
    using tcpd.turn_at_head [OF _ z assms(2) _ assms(3)] daemond.turn_at_head [OF _ z assms(2) _ assms(3)]
    by blast
  then obtain a t' where "t = Call (Accept listenfd) a # t'" and ans: "turn_answers fds a t" by blast
  then show ?thesis
    by (intro exI [of _ a] exI [of _ t'] conjI) (use ans in \<open>simp_all only: turn_answers_def tcp_line_def\<close>)
qed

definition answer_script :: "reply list" where
  "answer_script = [(ok 5)\<lparr>peer := Sin [156, 64] [127, 0, 0, 1]\<rparr>, (ok 1)\<lparr>dat := ''127.0.0.1''\<rparr>, ok 0, ctime_reply, ok 26, ok 0]"

theorem daytime_servers_answer_witness:
  "case daemon_body 3 (zeros DAYTIME_BUF_SIZE) answer_script of (r, t, rs) \<Rightarrow>
     conforms {0, 1, 2, 3} t \<and> offered t = [(5, ''Thu Jan  1 12:54:05 1970'' @ crlf)] \<and>
     (\<exists>a t'. t = Call (Accept 3) a # t' \<and> fds_run {0, 1, 2, 3} t = {0, 1, 2, 3} \<and>
        (\<exists>s. offered t = [(rv a, take 24 s @ crlf)]))"
proof -
  let ?m = "daemon_body 3 (zeros DAYTIME_BUF_SIZE)"
  obtain r t rs where run: "?m answer_script = (r, t, rs)" by (cases "?m answer_script") auto
  have "case ?m answer_script of (r, t, rs) \<Rightarrow> (\<exists>x. r = Ret x) \<and> conforms {0, 1, 2, 3} t \<and>
      offered t = [(5, ''Thu Jan  1 12:54:05 1970'' @ crlf)] \<and>
      t = Call (Accept 3) (hd answer_script) # tl t \<and> \<not> list_ex write_failed t"
    by (simp add: run_simps daemon_body_def log_answer_def answer_script_def DAYTIME_BUF_SIZE_def
        tcp_line_def crlf_def reply_simps ntop_text_def cong: lazy)
  with run obtain x where 1: "r = Ret x" "conforms {0, 1, 2, 3} t"
    "offered t = [(5, ''Thu Jan  1 12:54:05 1970'' @ crlf)]" "t = Call (Accept 3) (hd answer_script) # tl t"
    "\<not> list_ex write_failed t" by auto
  have "reach (daemon_body 3) {0, 1, 2, 3} (zeros DAYTIME_BUF_SIZE) {0, 1, 2, 3} (zeros DAYTIME_BUF_SIZE) []"
    by (rule reach.start)
  with run 1(1) have "reach (daemon_body 3) {0, 1, 2, 3} (zeros DAYTIME_BUF_SIZE) {0, 1, 2, 3} (zeros DAYTIME_BUF_SIZE) [] \<and>
      daemon_body 3 (zeros DAYTIME_BUF_SIZE) answer_script = (Ret x, t, rs)" by simp
  from daytime_servers_answer [OF disjI2 [OF this] _ 1(2)] obtain a t' where a: "t = Call (Accept 3) a # t'"
    and ans: "if rv a < 0 then offered t = [] \<and> fds_run {0, 1, 2, 3} t = {0, 1, 2, 3}
     else if sa_family (peer a) = AF_INET \<or> sa_family (peer a) = AF_INET6 then
       (\<exists>s. ctimes t = [s] \<and> offered t = [(rv a, take 24 s @ crlf)]) \<and>
       fds_run {0, 1, 2, 3} t = (if list_ex write_failed t then insert (rv a) {0, 1, 2, 3} else {0, 1, 2, 3})
     else offered t = [] \<and> fds_run {0, 1, 2, 3} t = insert (rv a) {0, 1, 2, 3}" by auto
  from a 1(4) have "a = hd answer_script" by (metis event.inject(1) list.inject)
  then have "rv a = 5" "sa_family (peer a) = AF_INET" by (simp_all add: answer_script_def ok_def)
  with ans 1(5) have "fds_run {0, 1, 2, 3} t = {0, 1, 2, 3}" "\<exists>s. offered t = [(rv a, take 24 s @ crlf)]"
    by auto
  with run 1(2,3) a show ?thesis by fastforce
qed

text \<open>
  C33: \<open>daemon_init\<close> leaves the null device on the descriptors 0, 1 and 2 and closes the other 61 below
  64. \<open>open\<close> takes the lowest free descriptor; so, whatever was open before, when it returns 0 and each
  \<open>open\<close> succeeded, the files it has opened are the null device to read as 0 and the null device to read
  and write as 1 and 2, and of the descriptors from 0 to 63 these three are open.
\<close>

theorem daemon_descriptors:
  assumes "daemon_init ident facility rs = (Ret 0, t, rs')" and "conforms fds t"
    and "lowest fds t" and "list_all opened t"
  shows "opens t = [(''/dev/null'', O_RDONLY, 0), (''/dev/null'', O_RDWR, 1), (''/dev/null'', O_RDWR, 2)] \<and>
    fds_run fds t = (fds - {0..<MAX_FD}) \<union> {0, 1, 2}"
  using vldD [OF init_opens assms(1,2)] assms(3,4) by (simp add: opens_to_def null_files_def)

text \<open>A process with its standard descriptors becomes a daemon.\<close>

definition daemon_script :: "reply list" where
  "daemon_script = [ok 0, ok 1, ok 0, ok 0, ok 0] @
     map (\<lambda>i. if i < 3 then ok 0 else fail EBADF) [0..63] @ [ok 0, ok 1, ok 2, ok 0]"

lemma below_run: "below 0 F" "below 1 {0}" "below 2 {1, 0}"
  by (auto simp: below_def)

theorem daemon_descriptors_witness:
  "case daemon_init ''d'' 0 daemon_script of (r, t, rs) \<Rightarrow>
     r = Ret 0 \<and> conforms {0, 1, 2} t \<and> fds_run {0, 1, 2} t = {0, 1, 2} \<and> map fst (opens t) = replicate 3 ''/dev/null''"
proof -
  obtain r t rs where run: "daemon_init ''d'' 0 daemon_script = (r, t, rs)"
    by (cases "daemon_init ''d'' 0 daemon_script") auto
  have "case daemon_init ''d'' 0 daemon_script of (r, t, rs) \<Rightarrow>
      r = Ret 0 \<and> conforms {0, 1, 2} t \<and> lowest {0, 1, 2} t \<and> list_all opened t"
    by (simp add: run_simps daemon_init_def daemon_script_def MAX_FD_def upto.simps below_run cong: lazy)
  with run have 1: "r = Ret 0" "conforms {0, 1, 2} t" "lowest {0, 1, 2} t" "list_all opened t" by simp_all
  from run 1(1) have "daemon_init ''d'' 0 daemon_script = (Ret 0, t, rs)" by simp
  from daemon_descriptors [OF this 1(2-4)] run 1 show ?thesis by (auto simp: MAX_FD_def numeral_eq_Suc)
qed

text \<open>
  C12: The daemon makes the system calls of the foreground server. Once started, with the same
  arguments and the same replies, the two make the same calls in the same order, with the same
  replies, and end in the same way: they differ only in where the messages go.
\<close>

theorem daemon_serves_the_same:
  assumes "length argv = 2 \<or> length argv = 3"
    and "daytime_tcp_server junk argv rs = (r, t, rs')" and "daemon_serve junk argv rs = (r', t', rs'')"
  shows "r = r' \<and> sys_calls t = sys_calls t' \<and> rs' = rs''"
proof -
  have "shared (daytime_tcp_server junk argv rs) = shared (daemon_serve junk argv rs)"
    using serve_same [OF assms(1)] by (simp add: same_calls_def)
  then show ?thesis using assms(2,3) by (simp add: shared_def)
qed

theorem daemon_serves_the_same_witness:
  "case daytime_tcp_server 0 [''d'', ''13''] (listen_script @ answer_script) of (r, t, rs') \<Rightarrow>
     case daemon_serve 0 [''d'', ''13''] (listen_script @ answer_script) of (r', t', rs'') \<Rightarrow>
       r = r' \<and> sys_calls t = sys_calls t'"
proof -
  let ?rs = "listen_script @ answer_script"
  obtain r t rs' where 1: "daytime_tcp_server 0 [''d'', ''13''] ?rs = (r, t, rs')"
    by (cases "daytime_tcp_server 0 [''d'', ''13''] ?rs") auto
  obtain r' t' rs'' where 2: "daemon_serve 0 [''d'', ''13''] ?rs = (r', t', rs'')"
    by (cases "daemon_serve 0 [''d'', ''13''] ?rs") auto
  from daemon_serves_the_same [OF _ 1 2] 1 2 show ?thesis by simp
qed

text \<open>
  \<open>main\<close> ignores a failure of \<open>daemon_init\<close>. When the first \<open>fork\<close> fails, the program logs it and goes
  on to serve as an ordinary process, with all its descriptors and its terminal.
\<close>

theorem daemon_ignores_failure:
  assumes "rv a < 0" and "length argv = 2 \<or> length argv = 3"
  shows "daemon_main junk argv (a # rs) = (case daemon_serve junk argv rs of (r, t, rs') \<Rightarrow>
    (r, Call Fork a # Syslog ''daemon_init first fork'' # t, rs'))"
  using assms by (auto simp: daemon_main_def daemon_init_def io_simps run_ops run_print tell_def split: prod.split)

theorem daemon_ignores_failure_witness:
  "daemon_main 0 [''d'', ''13''] [fail EAGAIN] =
     (Stop Blocked, [Call Fork (fail EAGAIN), Syslog ''daemon_init first fork''], [])"
  using daemon_ignores_failure [of "fail EAGAIN" "[''d'', ''13'']" 0 "[]"]
  by (simp add: fail_def ok_def daemon_serve_def daemon_tcp_listen_def io_simps tcp_listen_def run_ops)

end
