(* ===== verification/Daytime_Small.thy ===== *)
theory Daytime_Small
  imports Daytime
begin

text \<open>
  The daytime programs that do without the address walks: \<open>C/daytime_server.c\<close>, \<open>C/daytime_client.c\<close>
  and \<open>C/daytime_inetd.c\<close>, the server that \<open>inetd\<close> starts with the connection on descriptor 0. Standard
  output is taken to accept what \<open>fputs\<close> gives it.
\<close>

definition MAX_LINE :: nat where "MAX_LINE = 256"
definition MAXLINE :: nat where "MAXLINE = 256"
definition DAYTIME_PORT :: "16 word" where "DAYTIME_PORT = 13"

subsection \<open>The server\<close>

definition ds_sig_int :: "int \<Rightarrow> unit io" where
  "ds_sig_int listenfd = sys (Close listenfd) (\<lambda>_. exit 0)"

text \<open>One turn of the loop, with \<open>buff\<close> as its state. A failed \<open>accept\<close> ends the program with success.\<close>

definition ds_body :: "int \<Rightarrow> buf \<Rightarrow> (buf + unit) io" where
  "ds_body listenfd buff =
     sys (Accept listenfd) (\<lambda>a.
       if rv a < 0 then perror ''accept'' (exit 0)
       else sys Time (\<lambda>_. sys Ctime (\<lambda>c.
         let buff' = snput (tcp_line (dat c)) buff
         in sys (Write (rv a) (cstr buff')) (\<lambda>_. sys (Close (rv a)) (\<lambda>_. ret (Inl buff'))))))"

definition ds_main :: "buf \<Rightarrow> unit io" where
  "ds_main junk_buff =
     sys (Signal SIGINT (Handler ''sig_int'')) (\<lambda>_.
     sys (Socket AF_INET SOCK_STREAM 0) (\<lambda>s.
       if rv s < 0 then perror ''socket'' (exit 1)
       else sys (Setsockopt_reuse (rv s) 1) (\<lambda>x.
         if rv x < 0 then perror ''setsockopt'' (exit 1)
         else sys (Bind (rv s) (Sin (htons DAYTIME_PORT) (htonl INADDR_ANY))) (\<lambda>b.
           if rv b \<noteq> 0 then perror ''bind'' (exit 1)
           else sys (Listen (rv s) 0) (\<lambda>_. loop (ds_body (rv s)) junk_buff)))))"

subsection \<open>The client\<close>

text \<open>The array has one byte more than \<open>read\<close> is asked for. The loop gives the result of the last \<open>read\<close>.\<close>

definition dc_body :: "int \<Rightarrow> buf \<Rightarrow> (buf + int) io" where
  "dc_body socketfd recvline =
     sys (Read socketfd MAXLINE) (\<lambda>n.
       if rv n > 0 then
         fits (store 0 (dat n) recvline) (\<lambda>b.
         arr_set b (rv n) NUL (\<lambda>b'.
         with_cstr b' (\<lambda>s. printf s (ret (Inl b')))))
       else ret (Inr (rv n)))"

definition dc_main :: "buf \<Rightarrow> string list \<Rightarrow> unit io" where
  "dc_main junk_line argv =
     (if length argv \<noteq> 2 then
        arr_get argv 0 (\<lambda>name. printf (''USAGE : '' @ name @ '' <ip address>'' @ [LF]) (exit 1))
      else sys (Socket AF_INET SOCK_STREAM 0) (\<lambda>s.
        if rv s < 0 then perror ''socket'' (exit 1)
        else sys (Inet_pton (argv ! 1)) (\<lambda>p.
          if rv p \<le> 0 then perror ''inet_pton'' (exit 1)
          else sys (Connect (rv s) (Sin (htons DAYTIME_PORT) (ip p))) (\<lambda>c.
            if rv c < 0 then perror ''connect'' (exit 1)
            else bnd (loop (dc_body (rv s)) junk_line) (\<lambda>n.
              if n < 0 then perror ''read'' (exit 1) else exit 0)))))"

subsection \<open>The server of \<open>inetd\<close>\<close>

text \<open>\<open>strerror\<close> is a parameter. The text is \<open>str\<close>, which \<open>inet_ntop\<close> filled.\<close>

definition print_connection_info :: "(errno \<Rightarrow> string) \<Rightarrow> sockaddr \<Rightarrow> unit io" where
  "print_connection_info strerror ss =
     (let known = (\<lambda>fam name. syslog (name @ [LF]) (sys (Inet_ntop fam DAYTIME_BUF_SIZE) (\<lambda>p.
            if rv p = 0 then syslog (''inet_ntop : '' @ strerror (en p) @ [LF]) (exit 1)
            else syslog (''connect to '' @ dat p @ [LF]) (ret ()))))
      in if sa_family ss = AF_INET then known AF_INET ''AF_INET.''
         else if sa_family ss = AF_INET6 then known AF_INET6 ''AF_INET6.''
         else syslog (''unknown type.'' @ [LF]) (exit 1))"

definition inetd_serve :: "(errno \<Rightarrow> string) \<Rightarrow> unit io" where
  "inetd_serve strerror =
     sys (Getpeername 0) (\<lambda>g.
       if rv g \<noteq> 0 then syslog (''getpeername : '' @ strerror (en g) @ [LF]) (exit 1)
       else bnd (print_connection_info strerror (peer g)) (\<lambda>_.
         sys Time (\<lambda>_. sys Ctime (\<lambda>c.
         let time_buf = snput (tcp_line (dat c)) (zeros DAYTIME_BUF_SIZE)
         in syslog (''time is '' @ cstr time_buf @ [LF])
            (sys (Write 0 (cstr time_buf)) (\<lambda>n.
              if rv n < 0 \<and> en n = EINTR then syslog ''write'' (exit 1)
              else sys (Close 0) (\<lambda>_. exit 0)))))))"

text \<open>With arguments the program says how it should be called, and goes on.\<close>

definition inetd_main :: "(errno \<Rightarrow> string) \<Rightarrow> string list \<Rightarrow> unit io" where
  "inetd_main strerror argv =
     arr_get argv 0 (\<lambda>name.
       let start = sys (Openlog name 0) (\<lambda>_. inetd_serve strerror)
       in if length argv \<noteq> 1 then syslog (''USAGE : '' @ name @ [LF]) start else start)"

subsection \<open>What they do\<close>

fun accepted :: "event list \<Rightarrow> int list" where
  "accepted [] = []"
| "accepted (Call (On fd ACCEPT) a # t) = (if 0 \<le> rv a then rv a # accepted t else accepted t)"
| "accepted (_ # t) = accepted t"

lemma accepted_append [simp]: "accepted (s @ t) = accepted s @ accepted t"
  by (induction s rule: accepted.induct) auto

definition ds_turn :: "int set \<Rightarrow> (buf + unit) result \<Rightarrow> event list \<Rightarrow> bool" where
  "ds_turn fds r t \<longleftrightarrow> (\<forall>x. r = Ret x \<longrightarrow> (\<exists>b fd s. x = Inl b \<and> length b = MAX_LINE \<and> fds_run fds t = fds \<and>
     accepted t = [fd] \<and> ctimes t = [s] \<and> offered t = [(fd, tcp_line s)]))"

lemma ds_turn_simps [simp]:
  "ds_turn fds (Stop z) t"
  "ds_turn fds (Ret (Inl b)) t \<longleftrightarrow> length b = MAX_LINE \<and> fds_run fds t = fds \<and>
     (\<exists>fd s. accepted t = [fd] \<and> ctimes t = [s] \<and> offered t = [(fd, tcp_line s)])"
  by (auto simp: ds_turn_def)

lemma line_size: "MAX_LINE = DAYTIME_BUF_SIZE" by (simp add: MAX_LINE_def DAYTIME_BUF_SIZE_def)

lemma ds_turn_ok:
  "length b = MAX_LINE \<Longrightarrow> listenfd \<in> fds \<Longrightarrow> vld fds (ds_body listenfd b) (ds_turn fds)"
  unfolding line_size
  by (auto simp: ds_body_def io_simps sys_ok_def Let_def tcp_line_cstr line_size)

definition ds_answers :: "event list \<Rightarrow> bool" where
  "ds_answers h \<longleftrightarrow> length (accepted h) = length (ctimes h) \<and> offered h = zip (accepted h) (map tcp_line (ctimes h))"

lemma ds_answers_snoc:
  "ds_answers h \<Longrightarrow> accepted t = [fd] \<Longrightarrow> ctimes t = [s] \<Longrightarrow> offered t = [(fd, tcp_line s)] \<Longrightarrow> ds_answers (h @ t)"
  by (simp add: ds_answers_def)

interpretation ds: loop_contract "ds_body listenfd"
    "\<lambda>fds b h. listenfd \<in> fds0 \<longrightarrow> fds = fds0 \<and> length b = MAX_LINE \<and> ds_answers h" "\<lambda>r h. True" for listenfd fds0
proof
  fix fds and b :: buf and h
  assume inv: "listenfd \<in> fds0 \<longrightarrow> fds = fds0 \<and> length b = MAX_LINE \<and> ds_answers h"
  show "vld fds (ds_body listenfd b) (\<lambda>r t. case r of
        Ret (Inl b') \<Rightarrow> listenfd \<in> fds0 \<longrightarrow> fds_run fds t = fds0 \<and> length b' = MAX_LINE \<and> ds_answers (h @ t)
      | Ret (Inr x) \<Rightarrow> True
      | Stop z \<Rightarrow> True)"
  proof (cases "listenfd \<in> fds0")
    case True
    with inv have st: "fds = fds0" "length b = MAX_LINE" "ds_answers h" by auto
    show ?thesis
      by (rule vld_mono [OF ds_turn_ok]) (use True st in \<open>auto simp: ds_turn_def split: result.split sum.split
        intro: ds_answers_snoc\<close>)
  qed (rule vldI, simp split: result.split sum.split)
qed simp

definition dc_end :: "int \<Rightarrow> int result \<Rightarrow> event list \<Rightarrow> bool" where
  "dc_end fd r h \<longleftrightarrow> (NUL \<notin> set (received fd h) \<longrightarrow> concat (printed h) = received fd h) \<and>
     (\<forall>z. r = Stop z \<longrightarrow> z = Blocked \<or> z = Diverge)"

lemma dc_end_simps [simp]:
  "dc_end fd (Ret n) h \<longleftrightarrow> (NUL \<notin> set (received fd h) \<longrightarrow> concat (printed h) = received fd h)"
  "dc_end fd (Stop Blocked) h \<longleftrightarrow> dc_end fd (Ret 0) h" "dc_end fd (Stop Diverge) h \<longleftrightarrow> dc_end fd (Ret 0) h"
  "\<not> dc_end fd (Stop (Fault f)) h"
  by (auto simp: dc_end_def)

interpretation dc: loop_contract "dc_body fd"
    "\<lambda>fds b h. length b = MAXLINE + 1 \<and> dc_end fd (Ret 0) h" "dc_end fd" for fd
proof
  fix fds and b :: buf and h
  assume inv: "length b = MAXLINE + 1 \<and> dc_end fd (Ret 0) h"
  have lt: "length (dat n) < length b" if "length (dat n) = nat (rv n)" "rv n \<le> int MAXLINE" for n :: reply
    using inv that by simp
  have upd: "(dat n @ drop (nat (rv n)) b)[nat (rv n) := NUL] = dat n @ NUL # drop (Suc (nat (rv n))) b"
    if "length (dat n) = nat (rv n)" "rv n \<le> int MAXLINE" for n :: reply
    using store_end(2) [OF lt [OF that]] that by simp
  show "vld fds (dc_body fd b) (\<lambda>r t. case r of
        Ret (Inl b') \<Rightarrow> length b' = MAXLINE + 1 \<and> dc_end fd (Ret 0) (h @ t)
      | Ret (Inr x) \<Rightarrow> dc_end fd (Ret x) (h @ t)
      | Stop z \<Rightarrow> dc_end fd (Stop z) (h @ t))"
    using inv unfolding dc_body_def
    by (auto simp: io_simps sys_ok_def store_end [OF lt] upd)
qed simp

interpretation dc_busy: busy_loop "dc_body fd" for fd
  by unfold_locales (simp only: dc_body_def, intro busy_sys steady_intros)

lemma inetd_ok:
  "vld fds (inetd_main strerror argv) (\<lambda>r t. argv \<noteq> [] \<and> 0 \<in> fds \<longrightarrow>
     (offered t = [] \<or> (\<exists>s. ctimes t = [s] \<and> offered t = [(0, tcp_line s)])) \<and>
     (r = Stop (Exit 0) \<longrightarrow> offered t \<noteq> [] \<and> fds_run fds t = fds - {0}) \<and>
     (r = Stop Blocked \<or> r = Stop (Exit 0) \<or> r = Stop (Exit 1)))"
  by (simp add: inetd_main_def inetd_serve_def print_connection_info_def Let_def io_simps sys_ok_def tcp_line_cstr)

subsection \<open>Properties\<close>

text \<open>
  The simple daytime server answers every connection and keeps none. At the head of its loop the
  process has open what it had at the start, and what it has written is, for each connection in order of
  arrival, the line of one time: the first 24 characters of what \<open>ctime\<close> gave, CR and LF.
\<close>

theorem simple_daytime_answers:
  assumes "reach (ds_body listenfd) fds0 b0 fds b h" and "listenfd \<in> fds0" and "length b0 = MAX_LINE"
  shows "fds = fds0 \<and> length (accepted h) = length (ctimes h) \<and>
    offered h = zip (accepted h) (map (\<lambda>s. take 24 s @ [CR, LF]) (ctimes h))"
proof -
  have "fds = fds0 \<and> length b = MAX_LINE \<and> ds_answers h"
    using ds.reach_inv [of listenfd fds0 b0 fds b h fds0] assms by (simp add: ds_answers_def)
  moreover have "tcp_line = (\<lambda>s. take 24 s @ [CR, LF])" by (auto simp: tcp_line_def crlf_def)
  ultimately show ?thesis by (simp add: ds_answers_def)
qed

definition ds_script :: "reply list list" where
  "ds_script = [[ok 5, ok 0, ctime_reply, ok 26, ok 0], [ok 5, ok 0, ctime_reply, fail EPIPE, ok 0]]"

theorem simple_daytime_answers_witness:
  "case turns (ds_body 3) (zeros MAX_LINE) ds_script of Some (b, h) \<Rightarrow>
     conforms {0, 1, 2, 3} h \<and> fds_run {0, 1, 2, 3} h = {0, 1, 2, 3} \<and>
     offered h = [(5, ''Thu Jan  1 12:54:05 1970'' @ [CR, LF]), (5, ''Thu Jan  1 12:54:05 1970'' @ [CR, LF])]
   | None \<Rightarrow> False"
proof -
  obtain b h where t: "turns (ds_body 3) (zeros MAX_LINE) ds_script = Some (b, h)" and c: "conforms {0, 1, 2, 3} h"
    and a: "accepted h = [5, 5]" "ctimes h = [dat ctime_reply, dat ctime_reply]"
    by (simp add: ds_script_def run_simps ds_body_def reply_simps tcp_line_def crlf_def MAX_LINE_def cong: lazy)
  from simple_daytime_answers [OF turns_reach [OF t c]] t c a show ?thesis
    by (simp add: reply_simps)
qed

text \<open>
  The simple daytime client never writes or reads outside its array, since it asks for one byte less
  than there is room: its loop ends at the end of the input or at an error, or waits, and what it printed
  is what it received, as long as no NUL came.
\<close>

theorem simple_daytime_client_prints:
  assumes "loop (dc_body socketfd) junk_line rs = (r, t, rs')" and "conforms fds t"
    and "length junk_line = MAXLINE + 1"
  shows "((\<exists>n. r = Ret n) \<or> r = Stop Blocked) \<and>
    (NUL \<notin> set (received socketfd t) \<longrightarrow> concat (printed t) = received socketfd t)"
proof -
  have "dc_end socketfd r t" by (rule vldD [OF dc.loop_post assms(1,2)]) (simp add: assms(3))
  moreover have "r \<noteq> Stop Diverge"
    using steady_fst [OF dc_busy.loop_steady, of socketfd junk_line rs] assms(1) by simp
  ultimately show ?thesis by (cases r) (auto simp: dc_end_def)
qed

theorem simple_daytime_client_prints_witness:
  "case loop (dc_body 3) (zeros 257) [got (replicate 256 CHR ''x''), got ''yz'', ok 0] of (r, t, rs) \<Rightarrow>
     conforms {0, 1, 2, 3} t \<and> r = Ret 0 \<and> concat (printed t) = replicate 256 CHR ''x'' @ ''yz''"
proof -
  let ?m = "loop (dc_body 3) (zeros 257)"
  let ?rs = "[got (replicate 256 CHR ''x''), got ''yz'', ok 0]"
  have x: "NUL \<notin> set (replicate 256 CHR ''x'')" by simp
  have upd: "(replicate 256 CHR ''x'' @ zeros (Suc 0))[256 := NUL] = replicate 256 CHR ''x'' @ [NUL]"
    by (simp add: zeros_def list_update_append)
  have ended: "terminated ((replicate 254 CHR ''x'' @ [NUL])[0 := NUL])"
    by (simp add: list_update_append)
  obtain r t rs where run: "?m ?rs = (r, t, rs)" by (cases "?m ?rs") auto
  have "case ?m ?rs of (r, t, rs) \<Rightarrow> conforms {0, 1, 2, 3} t \<and> r = Ret 0 \<and>
      received 3 t = replicate 256 CHR ''x'' @ ''yz''"
    by (simp add: run_simps dc_body_def MAXLINE_def upd ended cong: lazy)
  with run have 1: "conforms {0, 1, 2, 3} t" "r = Ret 0" "received 3 t = replicate 256 CHR ''x'' @ ''yz''" by simp_all
  from simple_daytime_client_prints [OF run 1(1)] run 1 show ?thesis by (simp add: MAXLINE_def)
qed

text \<open>
  The server of \<open>inetd\<close> gives its one connection, descriptor 0, the same line as the servers that
  accept connections themselves, or nothing. It ends with success only when it has done so and has closed
  the descriptor.
\<close>

theorem inetd_answers:
  assumes "inetd_main strerror argv rs = (r, t, rs')" and "conforms fds t" and "argv \<noteq> []" and "0 \<in> fds"
  shows "(offered t = [] \<or> (\<exists>s. ctimes t = [s] \<and> offered t = [(0, take 24 s @ [CR, LF])])) \<and>
    (r = Stop (Exit 0) \<longrightarrow> offered t \<noteq> [] \<and> fds_run fds t = fds - {0}) \<and>
    (r = Stop Blocked \<or> r = Stop (Exit 0) \<or> r = Stop (Exit 1))"
  using vldD [OF inetd_ok assms(1,2)] assms(3,4) by (simp add: tcp_line_def crlf_def)

definition inetd_script :: "reply list" where
  "inetd_script = [ok 0, (ok 0)\<lparr>peer := Sin [1, 2] [127, 0, 0, 1]\<rparr>, (ok 1)\<lparr>dat := ''127.0.0.1''\<rparr>, ok 0, ctime_reply, ok 26, ok 0]"

theorem inetd_answers_witness:
  "case inetd_main (\<lambda>e. []) [''mydaytime''] inetd_script of (r, t, rs) \<Rightarrow>
     conforms {0, 1, 2} t \<and> r = Stop (Exit 0) \<and> offered t \<noteq> [] \<and> fds_run {0, 1, 2} t = {1, 2}"
proof -
  let ?m = "inetd_main (\<lambda>e. []) [''mydaytime'']"
  obtain r t rs where run: "?m inetd_script = (r, t, rs)" by (cases "?m inetd_script") auto
  have "case ?m inetd_script of (r, t, rs) \<Rightarrow> conforms {0, 1, 2} t \<and> r = Stop (Exit 0)"
    by (simp add: run_simps inetd_script_def inetd_main_def inetd_serve_def print_connection_info_def
        DAYTIME_BUF_SIZE_def tcp_line_def crlf_def reply_simps cong: lazy)
  with run have 1: "conforms {0, 1, 2} t" "r = Stop (Exit 0)" by simp_all
  from inetd_answers [OF run 1(1)] run 1 show ?thesis by auto
qed

end
