(* ===== verification/Fork_Server.thy ===== *)
theory Fork_Server
  imports Eval
begin

text \<open>
  What the servers that fork a process for each connection have in common, as an interface: one turn
  of the loop either waits, stops, or returns to the head of the loop in the parent with the same
  descriptors open as before. \<open>Echo_Stream\<close>, \<open>Unix_Stream\<close>, \<open>Multi_Conn\<close> and \<open>Tcp_Udp_Server\<close> provide it.
\<close>

fun is_child :: "event \<Rightarrow> bool" where
  "is_child (Call (Proc FORK) a) = (rv a = 0)"
| "is_child _ = False"

definition in_child :: "event list \<Rightarrow> bool" where
  "in_child t = list_ex is_child t"

lemma in_child_simps [simp]:
  "\<not> in_child []" "in_child (e # t) \<longleftrightarrow> is_child e \<or> in_child t"
  "in_child (s @ t) \<longleftrightarrow> in_child s \<or> in_child t"
  by (auto simp: in_child_def)

text \<open>
  A turn that comes back did so in the parent, it has closed what it accepted, and the listening
  socket \<open>srv\<close> is the one of before.
\<close>

definition fork_turn :: "('s \<Rightarrow> int) \<Rightarrow> 's \<Rightarrow> int set \<Rightarrow> ('s + 'a) result \<Rightarrow> event list \<Rightarrow> bool" where
  "fork_turn srv s fds r t \<longleftrightarrow> (\<forall>x. r = Ret x \<longrightarrow>
     fds_run fds t = fds \<and> \<not> in_child t \<and> (\<forall>s'. x = Inl s' \<longrightarrow> srv s' = srv s))"

lemma fork_turn_simps [simp]:
  "fork_turn srv s fds (Stop z) t"
  "fork_turn srv s fds (Ret (Inl s')) t \<longleftrightarrow> fds_run fds t = fds \<and> \<not> in_child t \<and> srv s' = srv s"
  by (simp_all add: fork_turn_def)

locale fork_server =
  fixes srv :: "'s \<Rightarrow> int" and body :: "'s \<Rightarrow> ('s + 'a) io"
  assumes turn: "srv s \<in> fds \<Longrightarrow> vld fds (body s) (fork_turn srv s fds)"
begin

lemma stays:
  "reach body fds0 s0 fds s h \<Longrightarrow> srv s0 \<in> fds0 \<Longrightarrow> fds = fds0 \<and> \<not> in_child h \<and> srv s = srv s0"
proof (induction rule: reach.induct)
  case (turn fds s h rs s' t rs')
  then have 1: "fds = fds0" "\<not> in_child h" "srv s = srv s0" by simp_all
  with turn.prems have "srv s \<in> fds" by simp
  from vldD [OF fork_server.turn [OF fork_server_axioms this] turn.hyps(2,3)] 1
  show ?case by simp
qed simp

end

text \<open>A child ends in \<open>exit\<close>: what comes before it does not return either way.\<close>

lemma vld_never_back:
  assumes "\<And>z t. Q (Stop z) t"
  shows "vld fds (bnd m (\<lambda>_. stop z)) Q"
  by (rule vldI) (auto simp: bnd_def stop_def assms split: prod.splits result.splits)

subsection \<open>Children that have ended\<close>

text \<open>
  The handlers of \<open>SIGCHLD\<close>: \<open>waitpid\<close> without waiting until nothing is left, with a message \<open>say\<close> for each
  process.
\<close>

definition reap_body :: "(int \<Rightarrow> string) \<Rightarrow> unit \<Rightarrow> (unit + unit) io" where
  "reap_body say _ =
     sys (Waitpid (- 1) True) (\<lambda>pid.
       if rv pid > 0 then printf (say (rv pid)) (ret (Inl ())) else ret (Inr ()))"

definition reap :: "(int \<Rightarrow> string) \<Rightarrow> unit io" where
  "reap say = loop (reap_body say) ()"

fun waited :: "event list \<Rightarrow> int list" where
  "waited [] = []"
| "waited (Call (Proc (WAITPID p nohang)) a # t) = rv a # waited t"
| "waited (_ # t) = waited t"

lemma waited_append [simp]: "waited (s @ t) = waited s @ waited t"
  by (induction s rule: waited.induct) auto

definition reaped :: "(int \<Rightarrow> string) \<Rightarrow> unit result \<Rightarrow> event list \<Rightarrow> bool" where
  "reaped say r t \<longleftrightarrow> printed t = map say (filter (\<lambda>p. 0 < p) (waited t)) \<and>
     (r = Ret () \<and> (\<exists>ps p. waited t = ps @ [p] \<and> p \<le> 0 \<and> (\<forall>q \<in> set ps. 0 < q)) \<or>
      (r = Stop Blocked \<or> r = Stop Diverge) \<and> (\<forall>q \<in> set (waited t). 0 < q))"

lemma reaped_simps:
  "reaped say (Ret u) t \<longleftrightarrow> printed t = map say (filter (\<lambda>p. 0 < p) (waited t)) \<and>
     (\<exists>ps p. waited t = ps @ [p] \<and> p \<le> 0 \<and> (\<forall>q \<in> set ps. 0 < q))"
  "reaped say (Stop Blocked) t \<longleftrightarrow> printed t = map say (filter (\<lambda>p. 0 < p) (waited t)) \<and> (\<forall>q \<in> set (waited t). 0 < q)"
  "reaped say (Stop Diverge) t \<longleftrightarrow> printed t = map say (filter (\<lambda>p. 0 < p) (waited t)) \<and> (\<forall>q \<in> set (waited t). 0 < q)"
  by (auto simp: reaped_def)

interpretation reap: loop_contract "reap_body say" "\<lambda>fds s t.
    printed t = map say (filter (\<lambda>p. 0 < p) (waited t)) \<and> (\<forall>q \<in> set (waited t). 0 < q)" "reaped say" for say
  by unfold_locales (auto simp: reap_body_def io_simps reaped_simps)

interpretation reap_busy: busy_loop "reap_body say" for say
  by unfold_locales (simp only: reap_body_def, intro busy_sys steady_intros)

lemma reap_law: "vld fds (reap say) (reaped say)"
  unfolding reap_def by (rule reap.loop_post) simp

lemma reap_returns: "reap say rs = (r, t, rs') \<Longrightarrow> r \<noteq> Stop Diverge"
  using steady_fst [OF reap_busy.loop_steady, of say "()" rs] by (simp add: reap_def)

end
