(* ===== verification/Echo_Stream.thy ===== *)
theory Echo_Stream
  imports Fork_Server
begin

text \<open>
  The echo service over TCP: \<open>C/basic_tcp_server.c\<close>, a process per connection that sends back what it
  reads, and its client \<open>C/basic_tcp_client.c\<close>, which sends the lines of standard input one by one and
  prints what comes back. The last section puts the two together.
\<close>

definition BUF_LEN :: nat where "BUF_LEN = 256"
definition ECHO_PORT :: "16 word" where "ECHO_PORT = 10001"

lemma BUF_LEN_pos [simp]: "0 < BUF_LEN" by (simp add: BUF_LEN_def)

subsection \<open>The server\<close>

text \<open>
  One turn of \<open>str_echo\<close>. After an error other than \<open>EINTR\<close> the code goes on to \<open>write\<close> with the length
  -1, which the kernel refuses, prints the buffer as it was and reads again. The buffer is cleared only once: what is printed is followed
  by the rest of a longer message before.
\<close>

definition tcp_echo_body :: "int \<Rightarrow> buf \<Rightarrow> (buf + unit) io" where
  "tcp_echo_body sockfd buf =
     sys (Read sockfd (BUF_LEN - 1)) (\<lambda>nread.
       if rv nread < 0 then
         (if en nread = EINTR then ret (Inl buf)
          else perror ''read'' (sys (Write_neg sockfd) (\<lambda>_.
            with_cstr buf (\<lambda>s.
            printf (''echo socket ('' @ show_int sockfd @ '') : <'' @ show_int (rv nread) @ ''> '' @ s @ ''.'' @ [LF])
            (ret (Inl buf))))))
       else if rv nread = 0 then sys (Close sockfd) (\<lambda>_. ret (Inr ()))
       else fits (store 0 (dat nread) buf) (\<lambda>b.
         sys (Write sockfd (take (nat (rv nread)) b)) (\<lambda>_.
         with_cstr b (\<lambda>s.
         printf (''echo socket ('' @ show_int sockfd @ '') : <'' @ show_int (rv nread) @ ''> '' @ s @ ''.'' @ [LF])
         (ret (Inl b))))))"

definition tcp_str_echo :: "int \<Rightarrow> unit io" where
  "tcp_str_echo sockfd = loop (tcp_echo_body sockfd) (zeros BUF_LEN)"

definition tcp_srv_body :: "int \<Rightarrow> unit \<Rightarrow> (unit + unit) io" where
  "tcp_srv_body listenfd _ =
     sys (Accept listenfd) (\<lambda>a.
       if rv a < 0 then
         (if en a = EINTR then ret (Inl ()) else perror ''accept'' (exit 1))
       else printf (''new connect from '' @ show_int (rv a) @ ''.'' @ [LF])
         (sys Fork (\<lambda>pid.
           if rv pid = 0 then
             sys (Close listenfd) (\<lambda>_. bnd (tcp_str_echo (rv a)) (\<lambda>_. exit 0))
           else sys (Close (rv a)) (\<lambda>_. ret (Inl ())))))"

text \<open>\<open>on\<close>, the value of the socket option, is not initialised; \<open>setsockopt\<close> and \<open>listen\<close> are not tested.\<close>

definition tcp_srv_main :: "int \<Rightarrow> unit io" where
  "tcp_srv_main on =
     sys (Socket AF_INET SOCK_STREAM 0) (\<lambda>s.
       if rv s < 0 then perror ''socket'' (exit 1)
       else sys (Setsockopt_reuse (rv s) on) (\<lambda>_.
         sys (Bind (rv s) (Sin (htons ECHO_PORT) (htonl INADDR_ANY))) (\<lambda>b.
           if rv b \<noteq> 0 then perror ''bind'' (exit 1)
           else sys (Listen (rv s) 5) (\<lambda>_. loop (tcp_srv_body (rv s)) ()))))"

subsection \<open>The client\<close>

text \<open>One turn of \<open>str_cli\<close>; the state is \<open>send_buf\<close>, which \<open>fgets\<close> fills with a line and a NUL.\<close>

definition tcp_cli_body :: "int \<Rightarrow> buf \<Rightarrow> (buf + unit) io" where
  "tcp_cli_body sockfd send_buf =
     sys (Fgets BUF_LEN) (\<lambda>g.
       if rv g = 0 then ret (Inr ())
       else fits (put_cstr 0 (dat g) send_buf) (\<lambda>sb.
         with_cstr sb (\<lambda>line.
         sys (Write sockfd line) (\<lambda>nwrite.
           if rv nwrite < 0 then perror ''write'' (exit 1)
           else sys (Read sockfd (BUF_LEN - 1)) (\<lambda>nread.
             if rv nread = 0 then
               printf (''server has closed.'' @ [LF]) (sys (Close sockfd) (\<lambda>_. exit 1))
             else if rv nread < 0 then perror ''read'' (exit 1)
             else fits (store 0 (dat nread) (zeros BUF_LEN)) (\<lambda>recv_buf.
               with_cstr recv_buf (\<lambda>s. printf s (ret (Inl sb)))))))))"

definition tcp_str_cli :: "buf \<Rightarrow> int \<Rightarrow> unit io" where
  "tcp_str_cli junk sockfd = loop (tcp_cli_body sockfd) junk"

definition tcp_cli_main :: "buf \<Rightarrow> string list \<Rightarrow> unit io" where
  "tcp_cli_main junk argv =
     (if length argv < 2 then
        arr_get argv 0 (\<lambda>name. printf (''Usage: '' @ name @ '' <HOSTNAME>.'' @ [LF]) (exit 1))
      else sys (Socket AF_INET SOCK_STREAM 0) (\<lambda>s.
        if rv s < 0 then perror ''socket'' (exit 1)
        else sys (Gethostbyname (argv ! 1)) (\<lambda>h.
          if rv h = 0 then perror ''gethostbyname'' (exit 1)
          else sys (Connect (rv s) (Sin (htons ECHO_PORT) (ip h))) (\<lambda>c.
            if rv c < 0 then perror ''connect'' (exit 1)
            else bnd (tcp_str_cli junk (rv s)) (\<lambda>_. exit 0)))))"

subsection \<open>What the service does\<close>

text \<open>The parent keeps nothing open; the child never comes back.\<close>

interpretation tcp_srv: fork_server "\<lambda>_. listenfd" "tcp_srv_body listenfd" for listenfd
  by unfold_locales
    (auto simp: tcp_srv_body_def io_simps sys_ok_def intro!: vld_never_back)

text \<open>
  What was sent back is what was read, with possible gaps where a write took only a part; without gaps
  when every write was complete.
\<close>

definition echoed :: "int \<Rightarrow> event list \<Rightarrow> bool" where
  "echoed sockfd t \<longleftrightarrow> subseq (written sockfd t) (received sockfd t) \<and>
     (full_writes t \<longrightarrow> prefix (written sockfd t) (received sockfd t))"

definition echoed_all :: "int \<Rightarrow> event list \<Rightarrow> bool" where
  "echoed_all sockfd t \<longleftrightarrow> subseq (written sockfd t) (received sockfd t) \<and>
     (full_writes t \<longrightarrow> written sockfd t = received sockfd t)"

lemma echoed_all_echoed: "echoed_all sockfd t \<Longrightarrow> echoed sockfd t"
  by (auto simp: echoed_all_def echoed_def)

lemma echoed_all_nil [simp]: "echoed_all sockfd []"
  by (simp add: echoed_all_def)

lemma echoed_steps:
  assumes "echoed_all sockfd h"
  shows "dat a = [] \<Longrightarrow> echoed_all sockfd (h @ [Call (Read sockfd n) a])"
    "echoed sockfd (h @ [Call (Read sockfd n) a])"
    "echoed_all sockfd (h @ [Call (Read sockfd n) a, Call (Write sockfd (dat a)) w])"
    "echoed_all sockfd (h @ [Call (Read sockfd n) a, Call (Write sockfd (dat a)) w, Out s])"
    "dat a = [] \<Longrightarrow> echoed_all sockfd (h @ [Call (Read sockfd n) a, Call (Close fd) c])"
    "dat a = [] \<Longrightarrow> echoed_all sockfd (h @ [Call (Read sockfd n) a, Perror s])"
    "dat a = [] \<Longrightarrow> echoed_all sockfd (h @ [Call (Read sockfd n) a, Perror s, Call (Write_neg sockfd) w, Out s'])"
    "dat a = [] \<Longrightarrow> echoed_all sockfd (h @ [Call (Read sockfd n) a, Perror s, Call (Write_neg sockfd) w])"
  using assms by (auto simp: echoed_all_def echoed_def intro: subseq_snoc)

definition echo_end :: "int \<Rightarrow> unit result \<Rightarrow> event list \<Rightarrow> bool" where
  "echo_end sockfd r t \<longleftrightarrow> echoed sockfd t \<and>
     (r = Ret () \<or> r = Stop Blocked \<or> r = Stop Diverge)"

lemma echo_end_simps [simp]:
  "echo_end sockfd (Ret u) t = echoed sockfd t"
  "echo_end sockfd (Stop Blocked) t = echoed sockfd t"
  "echo_end sockfd (Stop Diverge) t = echoed sockfd t"
  by (auto simp: echo_end_def)

text \<open>A buffer whose last byte stays NUL holds a string.\<close>

definition ends_NUL :: "buf \<Rightarrow> bool" where
  "ends_NUL b \<longleftrightarrow> length b = BUF_LEN \<and> b ! (BUF_LEN - 1) = NUL"

lemma stored:
  assumes "store 0 bs b = Some b'" and "ends_NUL b" and "length bs = k" and "k \<le> BUF_LEN - 1"
  shows "ends_NUL b' \<and> terminated b' \<and> take k b' = bs"
proof -
  from assms(1) have b': "b' = bs @ drop (length bs) b" by (auto simp: store_def split: if_splits)
  obtain c where c: "BUF_LEN = Suc c" by (simp add: BUF_LEN_def)
  have "b' ! c = b ! c" using assms by (simp add: b' nth_append ends_NUL_def c)
  moreover have "length b' = BUF_LEN" using assms(1,2) by (simp add: ends_NUL_def store_length)
  ultimately have "ends_NUL b'" "c < length b'" "b' ! c = NUL" using assms(2) by (simp_all add: ends_NUL_def c)
  then show ?thesis using assms(3) nth_mem [of c b'] by (simp add: terminated_def b')
qed

lemma ends_NUL_terminated: "ends_NUL b \<Longrightarrow> terminated b"
  by (metis ends_NUL_def terminated_def nth_mem BUF_LEN_pos diff_less zero_less_one)

lemma store_fits: "store 0 bs b = None \<Longrightarrow> ends_NUL b \<Longrightarrow> \<not> length bs \<le> BUF_LEN - 1"
  by (simp add: store_def ends_NUL_def BUF_LEN_def split: if_splits)

interpretation tcp_echo: loop_contract "tcp_echo_body sockfd"
    "\<lambda>fds b h. ends_NUL b \<and> echoed_all sockfd h" "echo_end sockfd" for sockfd
proof
  fix fds and b :: buf and h
  assume inv: "ends_NUL b \<and> echoed_all sockfd h"
  then have h: "echoed_all sockfd h" and b: "ends_NUL b" by blast+
  have len: "length (dat a) = nat (rv a) \<Longrightarrow> rv a \<le> int (BUF_LEN - 1) \<Longrightarrow> length (dat a) \<le> BUF_LEN - 1" for a :: reply
    by simp
  show "vld fds (tcp_echo_body sockfd b) (\<lambda>r t. case r of
        Ret (Inl s') \<Rightarrow> ends_NUL s' \<and> echoed_all sockfd (h @ t)
      | Ret (Inr x) \<Rightarrow> echo_end sockfd (Ret x) (h @ t)
      | Stop z \<Rightarrow> echo_end sockfd (Stop z) (h @ t))"
    unfolding tcp_echo_body_def
    using b h
    by (auto simp: io_simps sys_ok_def ends_NUL_terminated [OF b] dest!: stored [OF _ b] store_fits [OF _ b]
        intro: echoed_steps [OF h] echoed_all_echoed [OF h] echoed_steps(1,3,5-8) [OF h, THEN echoed_all_echoed])
  show "echo_end sockfd (Stop Diverge) h" using h by (simp add: echoed_all_echoed)
qed

subsection \<open>What the client does\<close>

fun typed_by :: "event \<Rightarrow> string" where
  "typed_by (Call (File (FGETS n)) a) = (if rv a = 0 then [] else cstr (dat a))"
| "typed_by _ = []"

definition typed :: "event list \<Rightarrow> string" where
  "typed t = concat (map typed_by t)"

lemma typed_simps [simp]:
  "typed [] = []" "typed (e # t) = typed_by e @ typed t" "typed (s @ t) = typed s @ typed t"
  by (simp_all add: typed_def)

lemma typed_no_NUL: "NUL \<notin> set (typed t)"
proof (induction t)
  case (Cons e t)
  have "NUL \<notin> set (typed_by e)" by (cases e rule: typed_by.cases) simp_all
  with Cons show ?case by simp
qed simp

text \<open>The lines went out, and the text printed is what came back.\<close>

definition sends :: "int \<Rightarrow> event list \<Rightarrow> bool" where
  "sends sockfd t \<longleftrightarrow> subseq (written sockfd t) (typed t) \<and>
     (full_writes t \<longrightarrow> prefix (written sockfd t) (typed t))"

definition shows_reply :: "int \<Rightarrow> event list \<Rightarrow> bool" where
  "shows_reply sockfd t \<longleftrightarrow>
     (\<not> eof_on sockfd t \<longrightarrow> NUL \<notin> set (received sockfd t) \<longrightarrow> concat (printed t) = received sockfd t)"

definition client_inv :: "int \<Rightarrow> event list \<Rightarrow> bool" where
  "client_inv sockfd t \<longleftrightarrow> sends sockfd t \<and> (full_writes t \<longrightarrow> written sockfd t = typed t) \<and> shows_reply sockfd t"

definition client_end :: "int \<Rightarrow> unit result \<Rightarrow> event list \<Rightarrow> bool" where
  "client_end sockfd r t \<longleftrightarrow> sends sockfd t \<and> shows_reply sockfd t \<and>
     (r = Stop (Exit 1) \<or> r = Ret () \<or> r = Stop Blocked \<or> r = Stop Diverge)"

lemma client_end_simps [simp]:
  "client_end sockfd (Ret u) t \<longleftrightarrow> sends sockfd t \<and> shows_reply sockfd t"
  "client_end sockfd (Stop Blocked) t \<longleftrightarrow> sends sockfd t \<and> shows_reply sockfd t"
  "client_end sockfd (Stop Diverge) t \<longleftrightarrow> sends sockfd t \<and> shows_reply sockfd t"
  "client_end sockfd (Stop (Exit 1)) t \<longleftrightarrow> sends sockfd t \<and> shows_reply sockfd t"
  by (auto simp: client_end_def)

lemma client_inv_ends: "client_inv sockfd h \<Longrightarrow> sends sockfd h" "client_inv sockfd h \<Longrightarrow> shows_reply sockfd h"
  by (simp_all add: client_inv_def)

lemma client_turn:
  assumes h: "client_inv sockfd h" and g: "rv g \<noteq> 0"
    and m: "typed m = []" "written sockfd m = []" "full_writes m"
    and p: "\<not> eof_on sockfd m \<Longrightarrow> NUL \<notin> set (received sockfd m) \<Longrightarrow> concat (printed m) = received sockfd m"
  shows "client_inv sockfd (h @ Call (Fgets n) g # Call (Write sockfd (cstr (dat g))) w # m)"
  using assms by (auto simp: client_inv_def sends_def shows_reply_def subseq_snoc)

lemma client_turns:
  assumes h: "client_inv sockfd h" and g: "rv g \<noteq> 0"
  shows
    "client_inv sockfd (h @ [Call (Fgets n) g, Call (Write sockfd (cstr (dat g))) w])"
    "client_inv sockfd (h @ [Call (Fgets n) g, Call (Write sockfd (cstr (dat g))) w, Perror s])"
    "dat a = [] \<Longrightarrow> client_inv sockfd (h @ [Call (Fgets n) g, Call (Write sockfd (cstr (dat g))) w, Call (Read sockfd k) a, Perror s])"
    "rv a = 0 \<Longrightarrow> client_inv sockfd (h @ [Call (Fgets n) g, Call (Write sockfd (cstr (dat g))) w, Call (Read sockfd k) a, Out s])"
    "rv a = 0 \<Longrightarrow> client_inv sockfd (h @ [Call (Fgets n) g, Call (Write sockfd (cstr (dat g))) w, Call (Read sockfd k) a, Out s,
       Call (Close sockfd) c])"
    "s = cstr (dat a) \<Longrightarrow> client_inv sockfd (h @ [Call (Fgets n) g, Call (Write sockfd (cstr (dat g))) w, Call (Read sockfd k) a, Out s])"
  using assms by (auto intro!: client_turn simp: cstr_id)

lemma client_begin:
  assumes "client_inv sockfd h"
  shows "sends sockfd (h @ [Call (Fgets n) g])" "shows_reply sockfd (h @ [Call (Fgets n) g])"
  using assms by (auto simp: client_inv_def sends_def shows_reply_def)

interpretation tcp_cli: loop_contract "tcp_cli_body sockfd"
    "\<lambda>fds sb h. length sb = BUF_LEN \<and> client_inv sockfd h" "client_end sockfd" for sockfd
proof
  fix fds and sb :: buf and h
  assume "length sb = BUF_LEN \<and> client_inv sockfd h"
  then have h: "client_inv sockfd h" and sb: "length sb = BUF_LEN" by blast+
  have len: "0 < int (BUF_LEN - Suc 0)" by (simp add: BUF_LEN_def)
  show "vld fds (tcp_cli_body sockfd sb) (\<lambda>r t. case r of
        Ret (Inl s') \<Rightarrow> length s' = BUF_LEN \<and> client_inv sockfd (h @ t)
      | Ret (Inr x) \<Rightarrow> client_end sockfd (Ret x) (h @ t)
      | Stop z \<Rightarrow> client_end sockfd (Stop z) (h @ t))"
    unfolding tcp_cli_body_def
    by (auto simp: io_simps sys_ok_def put_cstr_0 sb cstr_put store_zeros BUF_LEN_pos nat_less_iff h
        client_inv_ends client_begin [OF h]
        intro!: client_turns(6) [OF h _ refl] intro: client_turns(1-5) [OF h] client_turns [OF h, THEN client_inv_ends(1)] client_turns [OF h, THEN client_inv_ends(2)])
  show "client_end sockfd (Stop Diverge) h" using h by (simp add: client_inv_ends)
qed

subsection \<open>Client and server together\<close>

lemma subseq_no_NUL: "subseq xs ys \<Longrightarrow> NUL \<notin> set ys \<Longrightarrow> NUL \<notin> set xs"
  by (auto dest: list_emb_set)

lemma echo_law:
  assumes "tcp_str_echo sockfd rs = (r, t, rs')" and "conforms fds t"
  shows "echoed sockfd t"
proof -
  have "ends_NUL (zeros BUF_LEN)" by (simp add: ends_NUL_def zeros_def BUF_LEN_def)
  then have "echo_end sockfd r t"
    by (intro vldD [OF tcp_echo.loop_post assms(1) [unfolded tcp_str_echo_def] assms(2)]) simp
  then show ?thesis by (simp add: echo_end_def)
qed

lemma client_law:
  assumes "tcp_str_cli junk sockfd rs = (r, t, rs')" and "conforms fds t" and "length junk = BUF_LEN"
  shows "sends sockfd t \<and> shows_reply sockfd t"
proof -
  have "client_inv sockfd []" by (simp add: client_inv_def sends_def shows_reply_def)
  then have "client_end sockfd r t"
    by (intro vldD [OF tcp_cli.loop_post assms(1) [unfolded tcp_str_cli_def] assms(2)]) (simp add: assms(3))
  then show ?thesis by (simp add: client_end_def)
qed

text \<open>
  C2: The echo service gives a user back what the user typed. Take any run of the client and any run of
  the server's child that a reliable stream connects: what each has received is a first part of what
  the other has written. Until the client meets the end of the stream, the text it has printed consists
  of typed characters in their order; and when no write was cut short on either side, it is a first
  part of what was typed, with nothing lost, added or changed.
\<close>

theorem echo_end_to_end:
  assumes client: "tcp_str_cli junk c rs1 = (r1, tc, rs1')" "conforms fds1 tc" "length junk = BUF_LEN"
    and server: "tcp_str_echo s rs2 = (r2, ts, rs2')" "conforms fds2 ts"
    and stream: "prefix (received s ts) (written c tc)" "prefix (received c tc) (written s ts)"
    and going: "\<not> eof_on c tc"
  shows "subseq (concat (printed tc)) (typed tc) \<and>
    (full_writes tc \<and> full_writes ts \<longrightarrow> prefix (concat (printed tc)) (typed tc))"
proof -
  from client_law [OF client] have cl: "sends c tc" "shows_reply c tc" by simp_all
  note sv = echo_law [OF server]
  have sub: "subseq (received c tc) (typed tc)"
    using cl(1) sv stream unfolding sends_def echoed_def
    by (meson prefix_imp_subseq subseq_order.order_trans)
  with cl(2) going have eq: "concat (printed tc) = received c tc"
    by (simp add: shows_reply_def subseq_no_NUL [OF _ typed_no_NUL])
  have "prefix (received c tc) (typed tc)" if "full_writes tc" "full_writes ts"
    using cl(1) sv stream that unfolding sends_def echoed_def by (meson prefix_order.order_trans)
  with sub show ?thesis by (simp add: eq)
qed

definition line_reply :: "string \<Rightarrow> reply" where
  "line_reply s = (ok 1)\<lparr>dat := s\<rparr>"

theorem echo_end_to_end_witness:
  "case tcp_str_cli (zeros BUF_LEN) 3 [line_reply ''hi'', ok 2, got ''hi''] of (r1, tc, rs1) \<Rightarrow>
     case tcp_str_echo 4 [got ''hi'', ok 2] of (r2, ts, rs2) \<Rightarrow>
       concat (printed tc) = ''hi'' \<and> prefix (concat (printed tc)) (typed tc)"
proof -
  obtain r1 tc rs1 where c: "tcp_str_cli (zeros BUF_LEN) 3 [line_reply ''hi'', ok 2, got ''hi''] = (r1, tc, rs1)"
    by (cases "tcp_str_cli (zeros BUF_LEN) 3 [line_reply ''hi'', ok 2, got ''hi'']") auto
  obtain r2 ts rs2 where s: "tcp_str_echo 4 [got ''hi'', ok 2] = (r2, ts, rs2)"
    by (cases "tcp_str_echo 4 [got ''hi'', ok 2]") auto
  have "case tcp_str_cli (zeros BUF_LEN) 3 [line_reply ''hi'', ok 2, got ''hi''] of (r1, tc, rs1) \<Rightarrow>
      conforms {0, 1, 2, 3} tc \<and> \<not> eof_on 3 tc \<and> full_writes tc \<and> printed tc = [''hi''] \<and>
      received 3 tc = ''hi'' \<and> written 3 tc = ''hi''"
    by (simp add: run_simps tcp_str_cli_def tcp_cli_body_def line_reply_def BUF_LEN_def cong: lazy)
  with c have 1: "conforms {0, 1, 2, 3} tc" "\<not> eof_on 3 tc" "full_writes tc" "printed tc = [''hi'']"
    "received 3 tc = ''hi''" "written 3 tc = ''hi''" by simp_all
  have "case tcp_str_echo 4 [got ''hi'', ok 2] of (r2, ts, rs2) \<Rightarrow>
      conforms {0, 1, 2, 4} ts \<and> full_writes ts \<and> received 4 ts = ''hi'' \<and> written 4 ts = ''hi''"
    by (simp add: run_simps tcp_str_echo_def tcp_echo_body_def BUF_LEN_def cong: lazy)
  with s have 2: "conforms {0, 1, 2, 4} ts" "full_writes ts" "received 4 ts = ''hi''" "written 4 ts = ''hi''"
    by simp_all
  from echo_end_to_end [OF c 1(1) _ s 2(1)] 1 2 c s show ?thesis by simp
qed

end
