(* ===== verification/Unix_Stream.thy ===== *)
theory Unix_Stream
  imports Fork_Server
begin

text \<open>
  The echo service over stream sockets of the local domain: \<open>C/unix_stream_server.c\<close> and
  \<open>C/unix_stream_client.c\<close>.
\<close>

definition UNIX_BUF_SIZE :: nat where "UNIX_BUF_SIZE = 256"
definition UNIX_DOMAIN_PATH :: string where "UNIX_DOMAIN_PATH = ''/tmp/unix_domain_sockfd''"

subsection \<open>The server\<close>

definition sig_chld :: "unit io" where
  "sig_chld = reap (\<lambda>pid. ''child '' @ show_int pid @ '' terminate.'' @ [LF])"

definition response :: "string \<Rightarrow> string" where
  "response s = ''[response] '' @ s"

text \<open>
  One turn of \<open>str_echo\<close>, which clears both buffers first. The end of the stream (0 bytes) is answered
  like a message. A read that fills \<open>recvline\<close> may leave it without a NUL.
\<close>

definition unix_echo_body :: "int \<Rightarrow> unit \<Rightarrow> (unit + unit) io" where
  "unix_echo_body sockfd _ =
     sys (Read sockfd UNIX_BUF_SIZE) (\<lambda>n.
       if rv n < 0 then
         (if en n = EINTR then ret (Inl ()) else perror ''read'' (exit 1))
       else fits (store 0 (dat n) (zeros UNIX_BUF_SIZE)) (\<lambda>recvline.
         with_cstr recvline (\<lambda>s.
         fits (put_cstr 0 (response s) (zeros UNIX_BUF_SIZE)) (\<lambda>sendline.
         sys (Write sockfd (cstr sendline)) (\<lambda>w.
           if rv w < 0 then perror ''write'' (exit 1) else ret (Inl ()))))))"

definition unix_str_echo :: "int \<Rightarrow> unit io" where
  "unix_str_echo sockfd = loop (unix_echo_body sockfd) ()"

definition unix_srv_body :: "int \<Rightarrow> unit \<Rightarrow> (unit + unit) io" where
  "unix_srv_body listenfd _ =
     sys (Accept listenfd) (\<lambda>a.
       if rv a < 0 then
         (if en a = EINTR then ret (Inl ()) else perror ''accept'' (exit 1))
       else sys Fork (\<lambda>pid.
         if rv pid = 0 then sys (Close listenfd) (\<lambda>_. bnd (unix_str_echo (rv a)) (\<lambda>_. exit 0))
         else if rv pid > 0 then sys (Close (rv a)) (\<lambda>_. ret (Inl ()))
         else perror ''fork'' (exit 1)))"

definition unix_srv_main :: "unit io" where
  "unix_srv_main =
     sys (Socket AF_LOCAL SOCK_STREAM 0) (\<lambda>s.
       if rv s < 0 then perror ''socket'' (exit 1)
       else sys (Unlink UNIX_DOMAIN_PATH) (\<lambda>_.
         sys (Bind (rv s) (Sun UNIX_DOMAIN_PATH)) (\<lambda>b.
           if rv b < 0 then perror ''bind'' (exit 1)
           else sys (Listen (rv s) 5) (\<lambda>_.
             sys (Signal SIGCHLD (Handler ''sig_chld'')) (\<lambda>_.
             loop (unix_srv_body (rv s)) ())))))"

subsection \<open>The client\<close>

text \<open>
  One turn of \<open>str_cli\<close> with its two buffers. An interrupted \<open>write\<close> or \<open>read\<close> goes on with the next line.
\<close>

definition unix_cli_body :: "int \<Rightarrow> buf \<times> buf \<Rightarrow> (buf \<times> buf + unit) io" where
  "unix_cli_body sockfd = (\<lambda>(sendline, recvline).
     sys (Fgets UNIX_BUF_SIZE) (\<lambda>g.
       if rv g = 0 then ret (Inr ())
       else fits (put_cstr 0 (dat g) sendline) (\<lambda>sl.
         with_cstr sl (\<lambda>line.
         sys (Write sockfd line) (\<lambda>w.
           if rv w < 0 then
             (if en w = EINTR then ret (Inl (sl, recvline)) else perror ''write'' (exit 1))
           else sys (Read sockfd UNIX_BUF_SIZE) (\<lambda>n.
             if rv n < 0 then
               (if en n = EINTR then ret (Inl (sl, zeros UNIX_BUF_SIZE)) else perror ''read'' (exit 1))
             else fits (store 0 (dat n) (zeros UNIX_BUF_SIZE)) (\<lambda>rl.
               with_cstr rl (\<lambda>s. printf s (ret (Inl (sl, rl)))))))))))"

definition unix_str_cli :: "int \<Rightarrow> unit io" where
  "unix_str_cli sockfd = loop (unix_cli_body sockfd) (zeros UNIX_BUF_SIZE, zeros UNIX_BUF_SIZE)"

definition unix_cli_main :: "unit io" where
  "unix_cli_main =
     sys (Socket AF_LOCAL SOCK_STREAM 0) (\<lambda>s.
       if rv s < 0 then perror ''socket'' (exit 1)
       else sys (Connect (rv s) (Sun UNIX_DOMAIN_PATH)) (\<lambda>c.
         if rv c < 0 then perror ''connect'' (exit 1)
         else bnd (unix_str_cli (rv s)) (\<lambda>_. exit 0)))"

subsection \<open>What the server does\<close>

interpretation unix_srv: fork_server "\<lambda>_. listenfd" "unix_srv_body listenfd" for listenfd
  by unfold_locales
    (auto simp: unix_srv_body_def io_simps sys_ok_def intro!: vld_never_back)

text \<open>What the reads on a descriptor that did not fail brought.\<close>

fun messages :: "int \<Rightarrow> event list \<Rightarrow> string list" where
  "messages sockfd [] = []"
| "messages sockfd (Call (Transfer fd (READ n)) a # t) =
     (if fd = sockfd \<and> 0 \<le> rv a then dat a # messages sockfd t else messages sockfd t)"
| "messages sockfd (_ # t) = messages sockfd t"

lemma messages_append [simp]: "messages sockfd (s @ t) = messages sockfd s @ messages sockfd t"
  by (induction sockfd s rule: messages.induct) auto

text \<open>A message whose answer does not fit: \<open>[response] \<close> is 11 characters, and there is a NUL.\<close>

definition too_long :: "string \<Rightarrow> bool" where
  "too_long m \<longleftrightarrow> UNIX_BUF_SIZE \<le> 11 + length (cstr m)"

definition responses :: "int \<Rightarrow> string list \<Rightarrow> (int \<times> string) list" where
  "responses sockfd ms = map (\<lambda>m. (sockfd, response (cstr m))) ms"

text \<open>The last thing that was done: a call failed, and \<open>perror\<close> says so.\<close>

definition ends_failing :: "event list \<Rightarrow> bool" where
  "ends_failing t \<longleftrightarrow> (case rev t of Perror s # Call c a # t' \<Rightarrow> rv a < 0 | _ \<Rightarrow> False)"

text \<open>All messages have been answered, but the last one when it does not fit or when \<open>write\<close> waits.\<close>

definition responds :: "int \<Rightarrow> 'a result \<Rightarrow> event list \<Rightarrow> bool" where
  "responds sockfd r t \<longleftrightarrow>
     (let ms = messages sockfd t in
      case r of
        Ret x \<Rightarrow> False
      | Stop z \<Rightarrow>
          if list_ex too_long ms
          then (z = Fault Overflow \<or> z = Fault Overread) \<and> offered t = responses sockfd (butlast ms)
          else if z = Exit 1 then offered t = responses sockfd ms \<and> ends_failing t
          else (z = Blocked \<or> z = Diverge) \<and>
            (offered t = responses sockfd ms \<or> ms \<noteq> [] \<and> offered t = responses sockfd (butlast ms)))"

lemma ends_failingD: "ends_failing t \<Longrightarrow> \<exists>h c a s. t = h @ [Call c a, Perror s] \<and> rv a < 0"
proof -
  assume "ends_failing t"
  then obtain s c a t' where "rev t = Perror s # Call c a # t'" "rv a < 0"
    by (auto simp: ends_failing_def split: list.splits event.splits)
  then have "t = rev t' @ [Call c a, Perror s]" by (metis append.assoc append_Cons append_Nil rev.simps(2) rev_rev_ident)
  with \<open>rv a < 0\<close> show ?thesis by blast
qed

lemma response_cstr: "NUL \<notin> set s \<Longrightarrow> NUL \<notin> set (response s)"
  by (auto simp: response_def)

lemma responses_snoc [simp]:
  "responses sockfd (ms @ [m]) = responses sockfd ms @ [(sockfd, response (cstr m))]"
  by (simp add: responses_def)

lemma too_long_zeros [simp]: "too_long (m @ zeros k) = too_long m"
  by (simp add: too_long_def)

lemma short_terminated: "UNIX_BUF_SIZE \<le> length m \<Longrightarrow> \<not> too_long m \<Longrightarrow> terminated m"
  by (cases "NUL \<in> set m") (auto simp: too_long_def terminated_def cstr_id)

interpretation unix_echo: loop_contract "unix_echo_body sockfd"
    "\<lambda>fds s t. offered t = responses sockfd (messages sockfd t) \<and> \<not> list_ex too_long (messages sockfd t)"
    "responds sockfd" for sockfd
proof
  fix fds and s :: unit and h
  assume inv: "offered h = responses sockfd (messages sockfd h) \<and> \<not> list_ex too_long (messages sockfd h)"
  have put: "put_cstr 0 (response (cstr m)) (zeros UNIX_BUF_SIZE) = None \<longleftrightarrow> too_long m" for m
    by (auto simp: put_cstr_None too_long_def response_def)
  have cs: "cstr sl = response (cstr m)" if "put_cstr 0 (response (cstr m)) (zeros UNIX_BUF_SIZE) = Some sl" for m sl
    using that response_cstr [of "cstr m"] by (auto simp: put_cstr_0 split: if_splits)
  show "vld fds (unix_echo_body sockfd s) (\<lambda>r t. case r of
        Ret (Inl s') \<Rightarrow> offered (h @ t) = responses sockfd (messages sockfd (h @ t)) \<and> \<not> list_ex too_long (messages sockfd (h @ t))
      | Ret (Inr x) \<Rightarrow> responds sockfd (Ret x) (h @ t)
      | Stop z \<Rightarrow> responds sockfd (Stop z) (h @ t))"
    using inv unfolding unix_echo_body_def responds_def ends_failing_def Let_def
    by (auto simp: io_simps sys_ok_def store_zeros put cs intro!: short_terminated)
  show "responds sockfd (Stop Diverge) h" using inv by (simp add: responds_def Let_def)
qed

interpretation unix_echo_busy: busy_loop "unix_echo_body sockfd" for sockfd
  by unfold_locales (simp only: unix_echo_body_def, intro busy_sys steady_intros, simp_all)

subsection \<open>Properties\<close>

text \<open>
  C24: The echo server of the local domain answers every message with the message behind \<open>[response] \<close>, in
  order: when it reads the next one, all before it have been answered, and at any time at most the last is
  not. One message of 245 characters or more (without a NUL) makes it write or read past an array, and
  this is the only way in which it does. It never returns: the end of the stream counts as an empty
  message, so a client that has gone is answered again and again, until a call fails; only that makes the
  server exit.
\<close>

theorem unix_echo_responds:
  assumes "unix_str_echo sockfd rs = (r, t, rs')" and "conforms fds t"
  shows "let ms = messages sockfd t; answers = map (\<lambda>m. (sockfd, ''[response] '' @ cstr m)) in
     if list_ex (\<lambda>m. UNIX_BUF_SIZE \<le> 11 + length (cstr m)) ms
     then (r = Stop (Fault Overflow) \<or> r = Stop (Fault Overread)) \<and> offered t = answers (butlast ms)
     else r = Stop (Exit 1) \<and> offered t = answers ms \<and> (\<exists>h c a s. t = h @ [Call c a, Perror s] \<and> rv a < 0) \<or>
       r = Stop Blocked \<and> (offered t = answers ms \<or> ms \<noteq> [] \<and> offered t = answers (butlast ms))"
proof -
  have "responds sockfd r t"
    by (rule vldD [OF unix_echo.loop_post assms(1) [unfolded unix_str_echo_def] assms(2)])
       (simp add: responses_def)
  moreover have "r \<noteq> Stop Diverge"
    using steady_fst [OF unix_echo_busy.loop_steady, of sockfd "()" rs] assms(1) by (simp add: unix_str_echo_def)
  moreover have "list_ex too_long ms = list_ex (\<lambda>m. UNIX_BUF_SIZE \<le> 11 + length (cstr m)) ms" for ms
    by (induction ms) (simp_all add: too_long_def)
  moreover note ends_failingD [of t]
  ultimately show ?thesis
    by (auto simp: responds_def Let_def responses_def response_def split: result.splits if_splits)
qed

theorem unix_echo_responds_witness:
  "case unix_str_echo 4 [got ''hi'', ok 13, ok 0, ok 11, fail (EOTHER 104)] of (r, t, rs) \<Rightarrow>
     conforms {0, 1, 2, 4} t \<and> r = Stop (Exit 1) \<and> messages 4 t = [''hi'', []] \<and>
     offered t = map (\<lambda>m. (4, ''[response] '' @ cstr m)) [''hi'', []]"
proof -
  let ?rs = "[got ''hi'', ok 13, ok 0, ok 11, fail (EOTHER 104)]"
  obtain r t rs where run: "unix_str_echo 4 ?rs = (r, t, rs)" by (cases "unix_str_echo 4 ?rs") auto
  have "case unix_str_echo 4 ?rs of (r, t, rs) \<Rightarrow> conforms {0, 1, 2, 4} t \<and> r = Stop (Exit 1) \<and>
      messages 4 t = [''hi'', []]"
    by (simp add: run_simps unix_str_echo_def unix_echo_body_def UNIX_BUF_SIZE_def response_def cong: lazy)
  with run have 1: "conforms {0, 1, 2, 4} t" "r = Stop (Exit 1)" "messages 4 t = [''hi'', []]" by simp_all
  from unix_echo_responds [OF run 1(1)] run 1 show ?thesis by (simp add: UNIX_BUF_SIZE_def)
qed

text \<open>
  The handler of \<open>SIGCHLD\<close> leaves no child unreported. It returns only after a \<open>waitpid\<close> that found
  none, and has then printed one line, with the process, for each child that \<open>waitpid\<close> gave, in order.
\<close>

theorem sig_chld_reaps:
  assumes "sig_chld rs = (r, t, rs')" and "conforms fds t"
  shows "printed t = map (\<lambda>pid. ''child '' @ show_int pid @ '' terminate.'' @ [LF]) (filter (\<lambda>p. 0 < p) (waited t)) \<and>
    (r = Ret () \<and> (\<exists>ps p. waited t = ps @ [p] \<and> p \<le> 0 \<and> (\<forall>q \<in> set ps. 0 < q)) \<or>
     r = Stop Blocked \<and> (\<forall>q \<in> set (waited t). 0 < q))"
proof -
  have "reaped (\<lambda>pid. ''child '' @ show_int pid @ '' terminate.'' @ [LF]) r t"
    by (rule vldD [OF reap_law assms(1) [unfolded sig_chld_def] assms(2)])
  moreover have "r \<noteq> Stop Diverge"
    using assms(1) by (simp only: sig_chld_def reap_returns not_False_eq_True)
  ultimately show ?thesis by (auto simp: reaped_def)
qed

theorem sig_chld_reaps_witness:
  "case sig_chld [ok 12, ok 0] of (r, t, rs) \<Rightarrow>
     conforms {0, 1, 2} t \<and> r = Ret () \<and> waited t = [12, 0] \<and> printed t = [''child 12 terminate.'' @ [LF]]"
proof -
  obtain r t rs where run: "sig_chld [ok 12, ok 0] = (r, t, rs)" by (cases "sig_chld [ok 12, ok 0]") auto
  have "case sig_chld [ok 12, ok 0] of (r, t, rs) \<Rightarrow>
      conforms {0, 1, 2} t \<and> r = Ret () \<and> waited t = [12, 0]"
    by (simp add: run_simps sig_chld_def reap_def reap_body_def cong: lazy)
  with run have 1: "conforms {0, 1, 2} t" "r = Ret ()" "waited t = [12, 0]" by simp_all
  from sig_chld_reaps [OF run 1(1)] 1 run show ?thesis
    by (simp add: show_int_def dec.simps digit_run)
qed

end
