(* ===== verification/Multi_Conn.thy ===== *)
theory Multi_Conn
  imports Fork_Server Heartbeat
begin

text \<open>
  \<open>C/multi_conn_server.c\<close>: a server that forks a process for each connection, which reads one message and
  answers it with a fixed text. The signal handlers are programs of their own; the globals they use
  are the record \<open>mc_socks\<close>.
\<close>

definition MC_PORT :: "16 word" where "MC_PORT = 10001"
definition MC_BUF_SIZE :: nat where "MC_BUF_SIZE = 256"
definition GOT_MESSAGE :: string where "GOT_MESSAGE = ''I got your message''"

record mc_socks =
  master_sock :: int
  new_sock :: int

subsection \<open>The program\<close>

definition mc_process :: "int \<Rightarrow> unit io" where
  "mc_process sock =
     sys (Read sock (MC_BUF_SIZE - 1)) (\<lambda>n.
       if rv n < 0 then perror ''read'' (exit 1)
       else fits (store 0 (dat n) (zeros MC_BUF_SIZE)) (\<lambda>recv_buf.
         with_cstr recv_buf (\<lambda>s.
         printf (''Received message: '' @ s @ ''.'' @ [LF])
         (sys (Write sock GOT_MESSAGE) (\<lambda>w.
           if rv w < 0 then perror ''write'' (exit 1) else ret ())))))"

definition mc_body :: "mc_socks \<Rightarrow> (mc_socks + unit) io" where
  "mc_body st =
     sys (Accept (master_sock st)) (\<lambda>a.
       let st' = st\<lparr>new_sock := rv a\<rparr>
       in if rv a < 0 then
            (if en a = EINTR then ret (Inl st') else perror ''accept'' (exit 1))
          else sys Fork (\<lambda>pid.
            if rv pid = - 1 then perror ''fork'' (sys (Close (new_sock st')) (\<lambda>_. exit 1))
            else if rv pid = 0 then
              sys (Signal SIGINT (Handler ''sig_int_child'')) (\<lambda>_.
              sys (Close (master_sock st')) (\<lambda>_.
              bnd (mc_process (new_sock st')) (\<lambda>_. exit 0)))
            else sys (Close (new_sock st')) (\<lambda>_. ret (Inl st'))))"

definition mc_main :: "unit io" where
  "mc_main =
     sys (Signal SIGCHLD (Handler ''sig_child'')) (\<lambda>_.
     sys (Signal SIGINT (Handler ''sig_int_parent'')) (\<lambda>_.
     sys (Socket AF_INET SOCK_STREAM 0) (\<lambda>s.
       if rv s < 0 then perror ''socket'' (exit 1)
       else sys (Bind (rv s) (Sin (htons MC_PORT) (htonl INADDR_ANY))) (\<lambda>b.
         if rv b < 0 then perror ''bind'' (exit 1)
         else sys (Listen (rv s) 10) (\<lambda>l.
           if rv l < 0 then perror ''listen'' (exit 1)
           else loop mc_body \<lparr>master_sock = rv s, new_sock = 0\<rparr>)))))"

text \<open>The handlers. \<open>sig_child\<close> ends the process that it runs in, which is the server.\<close>

definition sig_child :: "sig \<Rightarrow> unit io" where
  "sig_child sig_no =
     says (if sig_no = SIGCHLD then [''recv SIGCHLD signal.'' @ [LF]] else [])
     (bnd (reap (\<lambda>pid. ''process ('' @ show_int pid @ '') terminate.'' @ [LF])) (\<lambda>_. exit 0))"

definition sig_int_parent :: "mc_socks \<Rightarrow> unit io" where
  "sig_int_parent st =
     printf (''parent recv SIGINT signal.'' @ [LF]) (sys (Close (master_sock st)) (\<lambda>_. exit 0))"

definition sig_int_child :: "mc_socks \<Rightarrow> unit io" where
  "sig_int_child st =
     printf (''child recv SIGINT signal.'' @ [LF]) (sys (Close (new_sock st)) (\<lambda>_. exit 0))"

text \<open>
  The parent with its signals: a signal runs the handler that \<open>main\<close> has set for it, at any time; between
  signals the process goes through its turns.
\<close>

definition mc_handler :: "char \<Rightarrow> sig \<Rightarrow> mc_socks \<Rightarrow> mc_socks io" where
  "mc_handler junk signo st =
     (if signo = SIGCHLD then bnd (sig_child signo) (\<lambda>_. ret st)
      else if signo = SIGINT then bnd (sig_int_parent st) (\<lambda>_. ret st)
      else ret st)"

definition mc_turn :: "unit \<Rightarrow> mc_socks \<Rightarrow> (unit \<times> mc_socks) io" where
  "mc_turn _ st = bnd (mc_body st) (\<lambda>x. case x of Inl st' \<Rightarrow> ret ((), st') | Inr u \<Rightarrow> exit 0)"

subsection \<open>What the server does\<close>

interpretation mc_srv: fork_server master_sock mc_body
  by unfold_locales
    (auto simp: mc_body_def Let_def io_simps sys_ok_def intro!: vld_never_back)

text \<open>What the handler leaves behind: all children collected, and the process gone.\<close>

definition gone :: "unit result \<Rightarrow> event list \<Rightarrow> bool" where
  "gone r t \<longleftrightarrow> r = Stop (Exit 0) \<and> (\<exists>ps p. waited t = ps @ [p] \<and> p \<le> 0 \<and> (\<forall>q \<in> set ps. 0 < q)) \<or>
     (r = Stop Blocked \<or> r = Stop Diverge) \<and> (\<forall>q \<in> set (waited t). 0 < q)"

lemma waited_Out [simp]: "waited (map Out ms @ t) = waited t"
  by (induction ms) auto

lemma sig_child_gone: "vld fds (sig_child sig_no) gone"
proof -
  have "vld fds (bnd (reap say) (\<lambda>_. exit 0)) gone" for say
    by (rule vld_bnd_use [OF reap_law]) (auto simp: vld_stop reaped_def gone_def)
  then show ?thesis by (simp add: sig_child_def vld_says gone_def [abs_def])
qed

lemma sig_child_steady: "steady (sig_child sig_no)"
  unfolding sig_child_def reap_def
  by (intro steady_says steady_bnd steady_stop reap_busy.loop_steady) simp

interpretation mc_machine: sig_machine mc_handler mc_turn
    "\<lambda>ss st h. SIGCHLD \<notin> set ss \<and> SIGINT \<notin> set ss"
proof
  fix ss and st :: mc_socks and h fds junk signo
  assume inv: "SIGCHLD \<notin> set ss \<and> SIGINT \<notin> set ss"
  have "vld fds (bnd (sig_child SIGCHLD) (\<lambda>_. ret st)) (\<lambda>r t. \<forall>s'. r \<noteq> Ret s')"
    by (rule vld_bnd_use [OF sig_child_gone]) (auto simp: gone_def)
  then show "vld fds (mc_handler junk signo st)
      (\<lambda>r t. \<forall>s'. r = Ret s' \<longrightarrow> SIGCHLD \<notin> set (ss @ [signo]) \<and> SIGINT \<notin> set (ss @ [signo]))"
    using inv by (auto simp: mc_handler_def sig_int_parent_def io_simps elim!: vld_mono)
qed (auto simp: vld_def split: prod.split)

subsection \<open>Properties\<close>

text \<open>
  C40: The server outlives no connection. A parent that is still there after any signals, at any points of
  its loop, has had no \<open>SIGCHLD\<close>, hence no child that ended, and no \<open>SIGINT\<close>: the handler of \<open>SIGCHLD\<close>, after
  it has collected every child there is, calls \<open>exit\<close> and never returns to the loop that accepts
  connections.
\<close>

theorem multi_conn_ends_with_child:
  assumes "sig_run mc_handler mc_turn fds0 () st0 ss h fds p st"
  shows "SIGCHLD \<notin> set ss \<and> SIGINT \<notin> set ss \<and>
    (sig_child SIGCHLD rs = (r, t, rs') \<and> conforms fds t \<longrightarrow>
      r = Stop (Exit 0) \<and> (\<exists>ps p. waited t = ps @ [p] \<and> p \<le> 0 \<and> (\<forall>q \<in> set ps. 0 < q)) \<or>
      r = Stop Blocked \<and> (\<forall>q \<in> set (waited t). 0 < q))"
proof (intro conjI impI)
  show "SIGCHLD \<notin> set ss" "SIGINT \<notin> set ss" using mc_machine.machine_inv [OF assms] by simp_all
next
  assume run: "sig_child SIGCHLD rs = (r, t, rs') \<and> conforms fds t"
  then have "gone r t" by (intro vldD [OF sig_child_gone]) auto
  moreover have "r \<noteq> Stop Diverge" using steady_fst [OF sig_child_steady, of SIGCHLD rs] run by simp
  ultimately show "r = Stop (Exit 0) \<and> (\<exists>ps p. waited t = ps @ [p] \<and> p \<le> 0 \<and> (\<forall>q \<in> set ps. 0 < q)) \<or>
      r = Stop Blocked \<and> (\<forall>q \<in> set (waited t). 0 < q)"
    by (auto simp: gone_def)
qed

theorem multi_conn_ends_with_child_witness:
  "case (mc_turn () \<lparr>master_sock = 3, new_sock = 0\<rparr> [ok 5, ok 12, ok 0], sig_child SIGCHLD [ok 12, fail (EOTHER 10)]) of
     ((r1, t1, _), (r, t, rs)) \<Rightarrow>
       r1 = Ret ((), \<lparr>master_sock = 3, new_sock = 5\<rparr>) \<and> conforms {0, 1, 2, 3} t \<and> waited t = [12, - 1] \<and> r = Stop (Exit 0)"
proof -
  let ?st = "\<lparr>master_sock = 3, new_sock = 0\<rparr>"
  obtain t1 where t: "mc_turn () ?st [ok 5, ok 12, ok 0] = (Ret ((), \<lparr>master_sock = 3, new_sock = 5\<rparr>), t1, [])"
    and c: "conforms {0, 1, 2, 3} t1" and f: "fds_run {0, 1, 2, 3} t1 = {0, 1, 2, 3}"
    by (simp add: run_simps mc_turn_def mc_body_def cong: lazy)
  have run: "sig_run mc_handler mc_turn {0, 1, 2, 3} () ?st [] ([] @ t1) (fds_run {0, 1, 2, 3} t1) () \<lparr>master_sock = 3, new_sock = 5\<rparr>"
    by (rule sig_run.main_step [where step = mc_turn, OF sig_run.start t c])
  obtain r t rs where h: "sig_child SIGCHLD [ok 12, fail (EOTHER 10)] = (r, t, rs)"
    by (cases "sig_child SIGCHLD [ok 12, fail (EOTHER 10)]") auto
  have "case sig_child SIGCHLD [ok 12, fail (EOTHER 10)] of (r, t, rs) \<Rightarrow> conforms {0, 1, 2, 3} t \<and> waited t = [12, - 1]"
    by (simp add: run_simps sig_child_def reap_def reap_body_def says_def cong: lazy)
  with h have 1: "conforms {0, 1, 2, 3} t" "waited t = [12, - 1]" by simp_all
  from multi_conn_ends_with_child [OF run, of "[ok 12, fail (EOTHER 10)]" r t rs] f h 1 t show ?thesis by auto
qed

end
