(* ===== verification/Tcp_Udp_Server.thy ===== *)
theory Tcp_Udp_Server
  imports Fork_Server Conn_Pool
begin

text \<open>
  \<open>C/select_tcp_udp_server.c\<close>: one server for two protocols on one port. \<open>select\<close> waits for a connection,
  which a forked process then serves, and for a datagram, which is echoed at once.
\<close>

definition TU_BUF_SIZE :: nat where "TU_BUF_SIZE = 256"
definition TU_PORT :: "16 word" where "TU_PORT = 10001"
definition TU_RESPONSE :: string where "TU_RESPONSE = ''I got your message''"

text \<open>What \<open>main\<close> keeps between the turns; the buffers are never cleared.\<close>

record tu_state =
  rfds :: "int set"
  udp_recv_buf :: buf
  udp_send_buf :: buf

subsection \<open>The program\<close>

definition tu_sig_child :: "sig \<Rightarrow> unit io" where
  "tu_sig_child sig_no =
     says (if sig_no = SIGCHLD then [''recv SIGCHLD signal.'' @ [LF]] else [])
     (reap (\<lambda>pid. ''process ('' @ show_int pid @ '') terminate.'' @ [LF]))"

text \<open>One turn of \<open>process\<close>.\<close>

definition tu_process_body :: "int \<Rightarrow> unit \<Rightarrow> (unit + unit) io" where
  "tu_process_body sock _ =
     sys (Read sock (TU_BUF_SIZE - 1)) (\<lambda>n.
       if rv n = 0 then printf (''client has been closed.'' @ [LF]) (ret (Inr ()))
       else if rv n < 0 \<and> en n = EINTR then ret (Inl ())
       else if rv n < 0 then perror ''read'' (sys (Close sock) (\<lambda>_. exit (- 1)))
       else fits (store 0 (dat n) (zeros TU_BUF_SIZE)) (\<lambda>recv_buf.
         with_cstr recv_buf (\<lambda>s.
         printf (''[TCP]received message: '' @ s @ ''.'' @ [LF])
         (sys (Write sock TU_RESPONSE) (\<lambda>w.
           if rv w < 0 then perror ''write'' (exit (- 1))
           else printf (''[TCP]send message: '' @ TU_RESPONSE @ ''.'' @ [LF]) (ret (Inl ())))))))"

definition tu_process :: "int \<Rightarrow> unit io" where
  "tu_process sock = bnd (loop (tu_process_body sock) ()) (\<lambda>_. sys (Close sock) (\<lambda>_. ret ()))"

text \<open>A new connection.\<close>

definition tu_accept :: "int \<Rightarrow> tu_state \<Rightarrow> tu_state io" where
  "tu_accept listenfd st =
     sys (Accept listenfd) (\<lambda>a.
       if rv a < 0 then perror ''[ERROR] accept'' (exit (- 1))
       else printf (''new tcp connection, sockfd = '' @ show_int (rv a) @ '', ip = '' @ inet_ntoa (peer a) @
           '', port = '' @ show_port (peer a) @ ''.'' @ [LF])
         (sys Fork (\<lambda>pid.
           if rv pid = - 1 then perror ''[ERROR] fork'' (exit (- 1))
           else if rv pid = 0 then sys (Close listenfd) (\<lambda>_. bnd (tu_process (rv a)) (\<lambda>_. exit 0))
           else sys (Close (rv a)) (\<lambda>_. ret st))))"

text \<open>A datagram. Nothing ends the string that \<open>recvfrom\<close> puts over what the buffer held before.\<close>

definition tu_datagram :: "int \<Rightarrow> tu_state \<Rightarrow> tu_state io" where
  "tu_datagram udpfd st =
     sys (Recvfrom udpfd TU_BUF_SIZE) (\<lambda>n.
       if rv n < 0 then perror ''recvfrom'' (sys (Close udpfd) (\<lambda>_. exit (- 1)))
       else fits (store 0 (dat n) (udp_recv_buf st)) (\<lambda>rb.
         with_cstr rb (\<lambda>s.
         printf (''[UDP] received message = '' @ s @ ''.'' @ [LF])
         (fits (put_cstr 0 (''ECHO BACK : '' @ s) (udp_send_buf st)) (\<lambda>sb.
          sys (Sendto udpfd (cstr sb) (peer n)) (\<lambda>_.
          printf (''[UDP] send message = '' @ cstr sb @ ''.'' @ [LF])
          (ret (st\<lparr>udp_recv_buf := rb, udp_send_buf := sb\<rparr>))))))))"

definition tu_body :: "int \<Rightarrow> int \<Rightarrow> tu_state \<Rightarrow> (tu_state + unit) io" where
  "tu_body listenfd udpfd st =
     fd_set listenfd (rfds st) (\<lambda>S1.
     fd_set udpfd S1 (\<lambda>S2.
     sys (Select ((if listenfd > udpfd then listenfd else udpfd) + 1) S2 {}) (\<lambda>a.
       if rv a = - 1 then
         (if en a = EINTR then ret (Inl (st\<lparr>rfds := S2\<rparr>)) else perror ''[ERROR] select'' (exit (- 1)))
       else
         let st1 = st\<lparr>rfds := rset a\<rparr>
         in if rv a = 0 then printf ''timeout.'' (ret (Inl st1))
            else fd_isset listenfd (rset a) (\<lambda>conn.
              bnd (if conn then tu_accept listenfd st1 else ret st1) (\<lambda>st2.
              fd_isset udpfd (rset a) (\<lambda>dgram.
              bnd (if dgram then tu_datagram udpfd st2 else ret st2) (\<lambda>st3. ret (Inl st3))))))))"

text \<open>\<open>opt\<close> and \<open>rfds\<close> (here \<open>junk_rfds\<close>) are not initialised: \<open>FD_ZERO\<close> is never called.\<close>

definition tu_main :: "int \<Rightarrow> int set \<Rightarrow> unit io" where
  "tu_main opt junk_rfds =
     sys (Socket AF_INET SOCK_STREAM 0) (\<lambda>l.
       if rv l < 0 then perror ''[ERROR] TCP SOCKET'' (exit (- 1))
       else sys (Setsockopt_reuse (rv l) opt) (\<lambda>x.
         if rv x < 0 then perror ''[ERROR] setsockopt'' (exit (- 1))
         else sys (Bind (rv l) (Sin (htons TU_PORT) (htonl INADDR_ANY))) (\<lambda>b.
           if rv b \<noteq> 0 then perror ''[ERROR] TCP BIND'' (exit (- 1))
           else sys (Listen (rv l) 5) (\<lambda>y.
             if rv y \<noteq> 0 then perror ''[ERROR] listen'' (exit (- 1))
             else sys (Socket AF_INET SOCK_DGRAM 0) (\<lambda>u.
               if rv u < 0 then perror ''[ERROR] UDP SOCKET'' (exit (- 1))
               else sys (Bind (rv u) (Sin (htons TU_PORT) (htonl INADDR_ANY))) (\<lambda>b2.
                 if rv b2 \<noteq> 0 then perror ''[ERROR] UDP BIND'' (exit (- 1))
                 else sys (Signal SIGCHLD (Handler ''sig_child'')) (\<lambda>_.
                   loop (tu_body (rv l) (rv u))
                     \<lparr>rfds = junk_rfds, udp_recv_buf = zeros TU_BUF_SIZE, udp_send_buf = zeros TU_BUF_SIZE\<rparr>)))))))"

subsection \<open>What the server does\<close>

lemma tu_accept_turn:
  assumes "listenfd \<in> fds"
  shows "vld fds (tu_accept listenfd st) (\<lambda>r t. \<forall>st'. r = Ret st' \<longrightarrow> fds_run fds t = fds \<and> \<not> in_child t \<and> st' = st)"
  using assms by (auto simp: tu_accept_def io_simps sys_ok_def intro!: vld_never_back)

lemma tu_datagram_turn:
  "vld fds (tu_datagram udpfd st) (\<lambda>r t. \<forall>st'. r = Ret st' \<longrightarrow> fds_run fds t = fds \<and> \<not> in_child t)"
  by (auto simp: tu_datagram_def io_simps)

lemma tu_turn:
  assumes "listenfd \<in> fds"
  shows "vld fds (tu_body listenfd udpfd st) (fork_turn (\<lambda>_. listenfd) st fds)"
proof -
  have dg: "vld fds (bnd (if dgram then tu_datagram udpfd s else ret s) (\<lambda>s'. ret (Inl s' :: tu_state + unit)))
      (\<lambda>r t. fork_turn (\<lambda>_. listenfd) st fds r (u @ t))"
    if "fds_run fds u = fds" "\<not> in_child u" for dgram s u
    using that by (cases dgram) (auto simp: io_simps intro!: vld_bnd_use [OF tu_datagram_turn])
  have acc: "vld fds (bnd (if conn then tu_accept listenfd s else ret s) (\<lambda>st2.
        fd_isset udpfd S (\<lambda>dgram.
        bnd (if dgram then tu_datagram udpfd st2 else ret st2) (\<lambda>st3. ret (Inl st3 :: tu_state + unit)))))
      (\<lambda>r t. fork_turn (\<lambda>_. listenfd) st fds r (e # t))"
    if "fds_run fds [e] = fds" "\<not> is_child e" for conn s S e
  proof -
    let ?k = "\<lambda>st2. fd_isset udpfd S (\<lambda>dgram.
        bnd (if dgram then tu_datagram udpfd st2 else ret st2) (\<lambda>st3. ret (Inl st3 :: tu_state + unit)))"
    have k: "vld fds (?k x) (\<lambda>r t'. fork_turn (\<lambda>_. listenfd) st fds r (e # t @ t'))"
      if "fds_run fds t = fds" "\<not> in_child t" for x t
      using that \<open>fds_run fds [e] = fds\<close> \<open>\<not> is_child e\<close> dg [of "e # t"]
      by (cases e) (auto simp: vld_fd_macros)
    show ?thesis
    proof (cases conn)
      case True
      then show ?thesis by (auto intro!: vld_bnd_use [OF tu_accept_turn [OF assms]] k)
    next
      case False
      with k [of "[]" s] show ?thesis by (simp add: bnd_ret)
    qed
  qed
  show ?thesis unfolding tu_body_def
    by (auto simp: vld_fd_macros vld_sys vld_if vld_ret vld_print vld_stop Let_def
        intro!: acc [where conn = True, simplified] acc [where conn = False, simplified])
qed

interpretation tu_srv: fork_server "\<lambda>_. listenfd" "tu_body listenfd udpfd" for listenfd udpfd
  by unfold_locales (rule tu_turn)

lemma cstr_drop: "k \<le> length (cstr b) \<Longrightarrow> cstr (drop k b) = drop k (cstr b)"
proof (induction k arbitrary: b)
  case (Suc k)
  then obtain c b' where b: "b = c # b'" and "c \<noteq> NUL" by (cases b) (auto split: if_splits)
  with Suc show ?case by simp
qed simp

lemma terminated_drop: "terminated b \<Longrightarrow> k \<le> length (cstr b) \<Longrightarrow> terminated (drop k b)"
proof (induction k arbitrary: b)
  case (Suc k)
  then obtain c b' where b: "b = c # b'" and "c \<noteq> NUL" by (cases b) (auto split: if_splits)
  with Suc show ?case by (simp add: terminated_def)
qed simp

subsection \<open>Properties\<close>

text \<open>
  The datagram echo mixes messages. The buffer is neither cleared before \<open>recvfrom\<close> nor ended after
  it; so a datagram that is shorter than the string of the one before is echoed with the rest of that
  string behind it, to whoever sent the shorter one.
\<close>

theorem tu_echo_keeps_tail:
  assumes "length (udp_recv_buf st) = TU_BUF_SIZE" and "length (udp_send_buf st) = TU_BUF_SIZE"
    and "terminated (udp_recv_buf st)" and "length (cstr (udp_recv_buf st)) < TU_BUF_SIZE - 12"
    and "0 \<le> rv n" and "NUL \<notin> set (dat n)" and "length (dat n) \<le> length (cstr (udp_recv_buf st))"
  shows "case tu_datagram udpfd st [n, w] of (r, t, rs) \<Rightarrow>
    sent_to t = [(''ECHO BACK : '' @ dat n @ drop (length (dat n)) (cstr (udp_recv_buf st)), peer n)]"
proof -
  let ?old = "udp_recv_buf st"
  define s where "s = dat n @ drop (length (dat n)) (cstr ?old)"
  define echo where "echo = ''ECHO BACK : '' @ s"
  obtain rb where rb: "store 0 (dat n) ?old = Some rb" "terminated rb" "cstr rb = s"
  proof
    show "store 0 (dat n) ?old = Some (dat n @ drop (length (dat n)) ?old)"
      using assms(7) length_cstr_le [of ?old] by (simp add: store_def)
    show "terminated (dat n @ drop (length (dat n)) ?old)"
      using terminated_drop [OF assms(3,7)] by simp
    show "cstr (dat n @ drop (length (dat n)) ?old) = s"
      using assms(6,7) by (simp add: s_def cstr_append cstr_drop)
  qed
  have "NUL \<notin> set (drop (length (dat n)) (cstr ?old))"
    by (meson cstr_no_NUL in_set_dropD)
  then have "NUL \<notin> set echo" using assms(6) by (simp add: echo_def s_def)
  moreover have "length echo < length (udp_send_buf st)"
    using assms(2,4,7) by (simp add: TU_BUF_SIZE_def echo_def s_def)
  ultimately obtain sb where sb: "put_cstr 0 echo (udp_send_buf st) = Some sb" "cstr sb = echo" "terminated sb"
    by (simp add: put_cstr_0)
  have "\<not> rv n < 0" using assms(5) by simp
  then show ?thesis unfolding tu_datagram_def s_def [symmetric] echo_def [symmetric]
    by (simp only: run_ops run_print tell_def rb sb if_True if_False refl prod.case sent_to.simps
        echo_def [symmetric])
qed

definition tu_before :: tu_state where
  "tu_before = \<lparr>rfds = {3, 4}, udp_recv_buf = ''secret'' @ zeros 250, udp_send_buf = zeros TU_BUF_SIZE\<rparr>"

theorem tu_echo_keeps_tail_witness:
  "case tu_datagram 4 tu_before [(got ''hi'')\<lparr>peer := Sin [1, 2] [127, 0, 0, 1]\<rparr>, ok 18] of (r, t, rs) \<Rightarrow>
     sent_to t = [(''ECHO BACK : hicret'', Sin [1, 2] [127, 0, 0, 1])]"
  using tu_echo_keeps_tail [of tu_before "(got ''hi'')\<lparr>peer := Sin [1, 2] [127, 0, 0, 1]\<rparr>" 4 "ok 18"]
  by (simp add: tu_before_def got_def ok_def TU_BUF_SIZE_def)

end
