(* ===== verification/Datagram.thy ===== *)
theory Datagram
  imports Fork_Server Conn_Pool
begin

text \<open>
  Echo by datagrams: \<open>C/basic_udp_server.c\<close> and \<open>C/basic_udp_client.c\<close> over UDP, \<open>C/unix_dgram_server.c\<close> and
  \<open>C/unix_dgram_client.c\<close> in the local domain, and the pair of the board, \<open>ameba/udp_server.c\<close> and
  \<open>ameba/udp_client.c\<close>, of which the server only prints.
\<close>

definition DG_BUF_SIZE :: nat where "DG_BUF_SIZE = 256"
definition DG_PORT :: "16 word" where "DG_PORT = 10001"
definition DG_PATH :: string where "DG_PATH = ''/tmp/unix_domain_sockfd''"

text \<open>The text \<open>sprintf\<close> builds for a message.\<close>

definition echo_back :: "string \<Rightarrow> string" where
  "echo_back s = ''ECHO BACK : '' @ s"

subsection \<open>UDP\<close>

text \<open>
  One turn of \<open>dg_echo\<close>, with both buffers cleared at its start. What \<open>recvfrom\<close> brought is printed before
  its result is tested.
\<close>

definition udp_echo_body :: "int \<Rightarrow> unit \<Rightarrow> (unit + unit) io" where
  "udp_echo_body sockfd _ =
     sys (Recvfrom sockfd DG_BUF_SIZE) (\<lambda>n.
     fits (store 0 (dat n) (zeros DG_BUF_SIZE)) (\<lambda>recv_msg.
     with_cstr recv_msg (\<lambda>s.
     printf (''[server] recv_msg = '' @ s @ ''.'' @ [LF])
     (if rv n < 0 then perror ''recvfrom'' (sys (Close sockfd) (\<lambda>_. exit (- 1)))
      else fits (put_cstr 0 (echo_back s) (zeros DG_BUF_SIZE)) (\<lambda>send_msg.
        sys (Sendto sockfd (cstr send_msg) (peer n)) (\<lambda>_.
        printf (''[server] send_msg = '' @ cstr send_msg @ ''.'' @ [LF]) (ret (Inl ()))))))))"

definition udp_dg_echo :: "int \<Rightarrow> unit io" where
  "udp_dg_echo sockfd = loop (udp_echo_body sockfd) ()"

definition udp_srv_main :: "unit io" where
  "udp_srv_main =
     sys (Socket AF_INET SOCK_DGRAM 0) (\<lambda>s.
       if rv s < 0 then perror ''socket'' (exit (- 1))
       else sys (Bind (rv s) (Sin (htons DG_PORT) (htonl INADDR_ANY))) (\<lambda>b.
         if rv b < 0 then perror ''bind'' (exit (- 1))
         else bnd (udp_dg_echo (rv s)) (\<lambda>_. exit 0)))"

text \<open>
  The client, as it is compiled: \<open>CONNECT\<close> is defined, so \<open>write\<close> and \<open>read\<close> are used. The state is
  \<open>send_msg\<close>; a datagram of 256 bytes leaves no room for a NUL.
\<close>

definition udp_cli_body :: "int \<Rightarrow> buf \<Rightarrow> (buf + unit) io" where
  "udp_cli_body sockfd send_msg =
     sys (Fgets DG_BUF_SIZE) (\<lambda>g.
       if rv g = 0 then ret (Inr ())
       else fits (put_cstr 0 (dat g) send_msg) (\<lambda>sm.
         with_cstr sm (\<lambda>line.
         sys (Write sockfd line) (\<lambda>w.
           if rv w < 0 then perror ''write'' (exit (- 1))
           else printf (''[client] send_msg = '' @ line @ ''.'' @ [LF])
             (sys (Read sockfd DG_BUF_SIZE) (\<lambda>n.
               if rv n < 0 then perror ''read'' (exit (- 1))
               else fits (store 0 (dat n) (zeros DG_BUF_SIZE)) (\<lambda>recv_msg.
                 with_cstr recv_msg (\<lambda>s.
                 printf (''[client] recv_msg = '' @ s @ ''.'' @ [LF]) (ret (Inl sm))))))))))"

definition udp_dg_cli :: "buf \<Rightarrow> int \<Rightarrow> sockaddr \<Rightarrow> unit io" where
  "udp_dg_cli junk sockfd servaddr =
     sys (Connect sockfd servaddr) (\<lambda>c.
       if rv c < 0 then perror ''connect'' (exit (- 1))
       else loop (udp_cli_body sockfd) junk)"

definition udp_cli_main :: "buf \<Rightarrow> string list \<Rightarrow> unit io" where
  "udp_cli_main junk argv =
     (if length argv \<noteq> 2 then
        arr_get argv 0 (\<lambda>name. printf (''Usage: '' @ name @ '' <IP/HOSTNAME>'' @ [LF]) (exit (- 1)))
      else sys (Socket AF_INET SOCK_DGRAM 0) (\<lambda>s.
        if rv s < 0 then perror ''socket'' (exit (- 1))
        else sys (Gethostbyname (argv ! 1)) (\<lambda>h.
          if rv h = 0 then perror ''gethostbyname'' (exit (- 1))
          else bnd (udp_dg_cli junk (rv s) (Sin (htons DG_PORT) (ip h))) (\<lambda>_. exit 0))))"

subsection \<open>The local domain\<close>

text \<open>
  The server's \<open>cliaddr\<close> and \<open>clilen\<close>. A named sender has an address of two bytes for the family, the path
  and a NUL; a sender without a name has an address of no bytes.
\<close>

record un_addr =
  un_family :: family
  un_path :: buf
  un_len :: nat

fun name_len :: "sockaddr \<Rightarrow> nat" where
  "name_len (Sun p) = 3 + length p"
| "name_len _ = 0"

fun name_bytes :: "sockaddr \<Rightarrow> char list" where
  "name_bytes (Sun p) = p @ [NUL]"
| "name_bytes _ = []"

text \<open>
  \<open>recvfrom\<close> stores of the sender's address what fits in the \<open>clilen\<close> bytes it was offered, and sets \<open>clilen\<close>
  to the whole length; \<open>sendto\<close> reads \<open>clilen\<close> bytes. The server sets \<open>clilen\<close> only once.
\<close>

definition take_name :: "sockaddr \<Rightarrow> un_addr \<Rightarrow> un_addr" where
  "take_name sa st =
     (let k = min (un_len st) (name_len sa);
          bs = take (k - 2) (name_bytes sa)
      in st\<lparr>un_family := (if 2 \<le> k then AF_LOCAL else un_family st),
            un_path := bs @ drop (length bs) (un_path st), un_len := name_len sa\<rparr>)"

definition give_name :: "un_addr \<Rightarrow> sockaddr" where
  "give_name st =
     (if un_len st = 0 then Sa_other 0
      else if un_family st = AF_LOCAL then Sun (cstr (take (un_len st - 2) (un_path st)))
      else Sa_other 1)"

definition dgram_echo_body :: "int \<Rightarrow> un_addr \<Rightarrow> (un_addr + unit) io" where
  "dgram_echo_body sockfd st =
     sys (Recvfrom sockfd DG_BUF_SIZE) (\<lambda>n.
       if rv n < 0 then
         (if en n = EINTR then ret (Inl st) else perror ''recvfrom'' (sys (Close sockfd) (\<lambda>_. exit 1)))
       else
         let st1 = take_name (peer n) st
         in fits (store 0 (dat n) (zeros DG_BUF_SIZE)) (\<lambda>recv_msg.
            with_cstr recv_msg (\<lambda>s.
            fits (put_cstr 0 (echo_back s) (zeros DG_BUF_SIZE)) (\<lambda>send_msg.
            sys (Sendto sockfd (cstr send_msg) (give_name st1)) (\<lambda>w.
              if rv w < 0 then
                (if en w = EINTR then ret (Inl st1)
                 else perror ''sendto'' (sys (Close sockfd) (\<lambda>_. exit 1)))
              else ret (Inl st1))))))"

definition SUN_SIZE :: nat where "SUN_SIZE = 110"

definition dgram_dg_echo :: "int \<Rightarrow> family \<Rightarrow> buf \<Rightarrow> unit io" where
  "dgram_dg_echo sockfd junk_family junk_path =
     loop (dgram_echo_body sockfd) \<lparr>un_family = junk_family, un_path = junk_path, un_len = SUN_SIZE\<rparr>"

definition dgram_srv_main :: "family \<Rightarrow> buf \<Rightarrow> unit io" where
  "dgram_srv_main junk_family junk_path =
     sys (Socket AF_LOCAL SOCK_DGRAM 0) (\<lambda>s.
       if rv s < 0 then perror ''socket'' (exit 1)
       else sys (Unlink DG_PATH) (\<lambda>_.
         sys (Bind (rv s) (Sun DG_PATH)) (\<lambda>b.
           if rv b < 0 then perror ''bind'' (exit 1)
           else bnd (dgram_dg_echo (rv s) junk_family junk_path) (\<lambda>_. exit 0))))"

text \<open>The client; an interrupted call goes on with the next line.\<close>

definition dgram_cli_body :: "int \<Rightarrow> buf \<Rightarrow> (buf + unit) io" where
  "dgram_cli_body sockfd send_msg =
     sys (Fgets DG_BUF_SIZE) (\<lambda>g.
       if rv g = 0 then ret (Inr ())
       else fits (put_cstr 0 (dat g) send_msg) (\<lambda>sm.
         with_cstr sm (\<lambda>line.
         sys (Sendto sockfd line (Sun DG_PATH)) (\<lambda>w.
           if rv w < 0 then
             (if en w = EINTR then ret (Inl sm) else perror ''sendto'' (sys (Close sockfd) (\<lambda>_. exit 1)))
           else sys (Recvfrom sockfd DG_BUF_SIZE) (\<lambda>n.
             if rv n < 0 then
               (if en n = EINTR then ret (Inl sm) else perror ''recvfrom'' (sys (Close sockfd) (\<lambda>_. exit 1)))
             else fits (store 0 (dat n) (zeros DG_BUF_SIZE)) (\<lambda>recv_msg.
               with_cstr recv_msg (\<lambda>s. printf (s @ ''.'' @ [LF]) (ret (Inl sm)))))))))"

definition dgram_dg_cli :: "int \<Rightarrow> unit io" where
  "dgram_dg_cli sockfd = loop (dgram_cli_body sockfd) (zeros DG_BUF_SIZE)"

text \<open>\<open>tmpnam\<close> is a parameter: it gives a path, or a null pointer.\<close>

definition dgram_cli_main :: "string option \<Rightarrow> unit io" where
  "dgram_cli_main tmp =
     sys (Socket AF_LOCAL SOCK_DGRAM 0) (\<lambda>s.
       if rv s < 0 then perror ''socket'' (exit 1)
       else case tmp of
         None \<Rightarrow> fault Null
       | Some name \<Rightarrow> fits (put_cstr 0 name (zeros (SUN_SIZE - 2))) (\<lambda>path.
           sys (Bind (rv s) (Sun (cstr path))) (\<lambda>b.
             if rv b < 0 then perror ''bind'' (sys (Close (rv s)) (\<lambda>_. exit 1))
             else bnd (dgram_dg_cli (rv s)) (\<lambda>_. exit 0))))"

subsection \<open>The board\<close>

text \<open>The server of the board prints what comes. It takes an empty datagram for an error.\<close>

definition board_recv_body :: "int \<Rightarrow> unit \<Rightarrow> (unit + unit) io" where
  "board_recv_body sockfd _ =
     sys (Recvfrom sockfd DG_BUF_SIZE) (\<lambda>n.
       if rv n = - 1 \<or> rv n = 0 then perror ''recvfrom'' (sys (Close sockfd) (\<lambda>_. exit (- 1)))
       else fits (store 0 (dat n) (zeros DG_BUF_SIZE)) (\<lambda>recv_msg.
         with_cstr recv_msg (\<lambda>s.
         printf (''[server] recv msg from '' @ inet_ntoa (peer n) @ '':'' @ show_port (peer n) @ '', msg = '' @ s @ ''.'' @ [LF])
         (ret (Inl ())))))"

definition board_srv_main :: "unit io" where
  "board_srv_main =
     sys (Socket AF_INET SOCK_DGRAM 0) (\<lambda>s.
       if rv s < 0 then perror ''socket'' (exit (- 1))
       else sys (Bind (rv s) (Sin (htons EXCHANGE_SERVER_PORT) (htonl INADDR_ANY))) (\<lambda>b.
         if rv b < 0 then perror ''bind'' (exit (- 1))
         else loop (board_recv_body (rv s)) ()))"

definition BOARD_MSG :: string where "BOARD_MSG = ''test udp message''"

definition board_send_body :: "int \<Rightarrow> unit \<Rightarrow> (unit + unit) io" where
  "board_send_body sockfd _ =
     sys (Sendto sockfd BOARD_MSG (Sin (htons EXCHANGE_SERVER_PORT) [127, 0, 0, 1])) (\<lambda>_.
     printf (''[client] send_msg = '' @ BOARD_MSG @ ''.'' @ [LF])
     (sys (Sleep 2) (\<lambda>_. ret (Inl ()))))"

definition board_cli_main :: "unit io" where
  "board_cli_main =
     sys (Socket AF_INET SOCK_DGRAM 0) (\<lambda>s.
       if rv s < 0 then perror ''socket'' (exit (- 1)) else loop (board_send_body (rv s)) ())"

subsection \<open>What the servers do\<close>

text \<open>The datagrams that were received, with their senders.\<close>

fun datagrams :: "event list \<Rightarrow> (string \<times> sockaddr) list" where
  "datagrams [] = []"
| "datagrams (Call (Transfer fd (RECVFROM n)) a # t) =
     (if 0 \<le> rv a then (dat a, peer a) # datagrams t else datagrams t)"
| "datagrams (_ # t) = datagrams t"

lemma datagrams_append [simp]: "datagrams (s @ t) = datagrams s @ datagrams t"
  by (induction s rule: datagrams.induct) auto

text \<open>A message whose echo does not fit beside its NUL.\<close>

definition too_big :: "string \<times> sockaddr \<Rightarrow> bool" where
  "too_big d \<longleftrightarrow> DG_BUF_SIZE \<le> 12 + length (cstr (fst d))"

definition echo_of :: "string \<times> sockaddr \<Rightarrow> string" where
  "echo_of d = echo_back (cstr (fst d))"

lemma echo_back_simps [simp]:
  "length (echo_back s) = 12 + length s" "cstr (echo_back (cstr m)) = echo_back (cstr m)"
proof -
  have "NUL \<notin> set (echo_back (cstr m))" by (auto simp: echo_back_def)
  then show "cstr (echo_back (cstr m)) = echo_back (cstr m)" by (rule cstr_id)
qed (simp add: echo_back_def)

lemma long_terminated:
  "DG_BUF_SIZE \<le> length m \<Longrightarrow> 12 + length (cstr m) < DG_BUF_SIZE \<Longrightarrow> terminated m"
  by (cases "NUL \<in> set m") (auto simp: terminated_def cstr_id)

lemma DG_BUF_SIZE_pos [simp]: "0 < DG_BUF_SIZE" "DG_BUF_SIZE \<noteq> 0"
  by (simp_all add: DG_BUF_SIZE_def)

lemmas echo_simps = sys_ok_def store_zeros put_zeros too_big_def echo_of_def

text \<open>
  What a server that echoes promises of a turn: it comes back only after it has answered what it received,
  and stops otherwise; on the way it may have received a message that is not answered yet.
\<close>

definition echo_turn :: "int \<Rightarrow> ('s + unit) result \<Rightarrow> event list \<Rightarrow> bool" where
  "echo_turn code r t \<longleftrightarrow>
     (case r of
        Ret (Inl s) \<Rightarrow> map fst (sent_to t) = map echo_of (datagrams t) \<and> \<not> list_ex too_big (datagrams t)
      | Ret (Inr x) \<Rightarrow> False
      | Stop z \<Rightarrow> prefix (map fst (sent_to t)) (map echo_of (datagrams t)) \<and>
          (if list_ex too_big (datagrams t) then z = Fault Overflow \<or> z = Fault Overread
           else z = Blocked \<or> z = Exit code))"

definition echo_stop :: "int \<Rightarrow> unit result \<Rightarrow> event list \<Rightarrow> bool" where
  "echo_stop code r t \<longleftrightarrow> (\<exists>z. r = Stop z \<and> prefix (map fst (sent_to t)) (map echo_of (datagrams t)) \<and>
     (if list_ex too_big (datagrams t) then z = Fault Overflow \<or> z = Fault Overread
      else z = Blocked \<or> z = Exit code \<or> z = Diverge))"

locale echoes_dgrams =
  fixes body :: "'s \<Rightarrow> ('s + unit) io" and code :: int
  assumes echo_each: "vld fds (body s) (echo_turn code)"
    and never_spins: "busy_when (\<lambda>x. \<exists>s'. x = Inl s') (body s)"

sublocale echoes_dgrams \<subseteq> echoing: loop_contract body
    "\<lambda>fds s h. map fst (sent_to h) = map echo_of (datagrams h) \<and> \<not> list_ex too_big (datagrams h)" "echo_stop code"
  by unfold_locales
    (auto simp: echo_stop_def echo_turn_def intro!: vld_mono [OF echo_each] split: result.splits sum.splits if_splits)

sublocale echoes_dgrams \<subseteq> waiting: busy_loop body
  by unfold_locales (rule never_spins)

context echoes_dgrams begin

lemma echo_run:
  assumes "loop body s rs = (r, t, rs')" and "conforms fds t"
  shows "prefix (map fst (sent_to t)) (map echo_of (datagrams t)) \<and>
    (if list_ex too_big (datagrams t) then r = Stop (Fault Overflow) \<or> r = Stop (Fault Overread)
     else r = Stop Blocked \<or> r = Stop (Exit code))"
proof -
  have "echo_stop code r t" by (rule vldD [OF echoing.loop_post assms]) simp
  moreover have "r \<noteq> Stop Diverge" using steady_fst [OF waiting.loop_steady, of s rs] assms(1) by simp
  ultimately show ?thesis by (auto simp: echo_stop_def split: if_splits)
qed

end

interpretation udp_echo: echoes_dgrams "udp_echo_body sockfd" "- 1" for sockfd
proof
  fix fds s
  show "vld fds (udp_echo_body sockfd s) (echo_turn (- 1))"
    unfolding udp_echo_body_def
    by (auto simp: io_simps echo_turn_def echo_simps intro!: long_terminated)
qed (simp only: udp_echo_body_def, intro busy_sys steady_intros, simp_all)

interpretation un_echo: echoes_dgrams "dgram_echo_body sockfd" 1 for sockfd
proof
  fix fds s
  show "vld fds (dgram_echo_body sockfd s) (echo_turn 1)"
    unfolding dgram_echo_body_def Let_def
    by (auto simp: io_simps echo_turn_def echo_simps intro!: long_terminated)
qed (simp only: dgram_echo_body_def Let_def, intro busy_sys steady_intros, simp_all)

subsection \<open>To whom they answer\<close>

definition answer :: "string \<times> sockaddr \<Rightarrow> string \<times> sockaddr" where
  "answer d = (echo_of d, snd d)"

interpretation udp_to: loop_contract "udp_echo_body sockfd"
    "\<lambda>fds s h. sent_to h = map answer (datagrams h)" "\<lambda>r h. prefix (sent_to h) (map answer (datagrams h))" for sockfd
  by unfold_locales (auto simp: udp_echo_body_def io_simps echo_simps answer_def)

text \<open>
  The local server answers whom it should as long as the names of its clients do not get longer: \<open>clilen\<close>
  is then always enough for the next name.
\<close>

fun good_name :: "sockaddr \<Rightarrow> bool" where
  "good_name (Sun p) \<longleftrightarrow> p \<noteq> [] \<and> NUL \<notin> set p \<and> 3 + length p \<le> SUN_SIZE"
| "good_name _ \<longleftrightarrow> False"

definition no_longer :: "(string \<times> sockaddr) list \<Rightarrow> bool" where
  "no_longer ds \<longleftrightarrow> (\<forall>d \<in> set ds. good_name (snd d)) \<and>
     sorted_wrt (\<lambda>d e. name_len (snd e) \<le> name_len (snd d)) ds"

definition last_len :: "(string \<times> sockaddr) list \<Rightarrow> nat" where
  "last_len ds = (if ds = [] then SUN_SIZE else name_len (snd (last ds)))"

lemma no_longer_simps [simp]: "no_longer []" "last_len [] = SUN_SIZE" "last_len (ds @ [d]) = name_len (snd d)"
  by (simp_all add: no_longer_def last_len_def)

lemma no_longer_snoc:
  assumes "no_longer (ds @ [d])"
  shows "no_longer ds" "good_name (snd d)" "name_len (snd d) \<le> last_len ds"
proof -
  show "no_longer ds" "good_name (snd d)" using assms by (auto simp: no_longer_def sorted_wrt_append)
  show "name_len (snd d) \<le> last_len ds"
  proof (cases ds rule: rev_cases)
    case Nil
    with \<open>good_name (snd d)\<close> show ?thesis by (cases "snd d") auto
  next
    case (snoc es e)
    with assms show ?thesis by (auto simp: no_longer_def sorted_wrt_append)
  qed
qed

lemma take_name_fits:
  assumes "good_name sa" and "name_len sa \<le> un_len st" and "un_len st \<le> SUN_SIZE"
    and "length (un_path st) = SUN_SIZE - 2"
  shows "give_name (take_name sa st) = sa" "length (un_path (take_name sa st)) = SUN_SIZE - 2"
    "un_len (take_name sa st) = name_len sa" "un_len (take_name sa st) \<le> SUN_SIZE"
proof -
  obtain p where p: "sa = Sun p" using assms(1) by (cases sa) auto
  then show "give_name (take_name sa st) = sa" "length (un_path (take_name sa st)) = SUN_SIZE - 2"
    "un_len (take_name sa st) = name_len sa" "un_len (take_name sa st) \<le> SUN_SIZE"
    using assms by (auto simp: take_name_def give_name_def Let_def min_def cstr_id)
qed

definition named :: "un_addr \<Rightarrow> (string \<times> sockaddr) list \<Rightarrow> (string \<times> sockaddr) list \<Rightarrow> bool" where
  "named st ds out \<longleftrightarrow> (no_longer ds \<longrightarrow> out = map answer ds \<and> un_len st = last_len ds \<and>
     un_len st \<le> SUN_SIZE \<and> length (un_path st) = SUN_SIZE - 2)"

definition answered_to :: "(string \<times> sockaddr) list \<Rightarrow> (string \<times> sockaddr) list \<Rightarrow> bool" where
  "answered_to ds out \<longleftrightarrow> (no_longer ds \<longrightarrow> prefix out (map answer ds))"

lemma named_answered: "named st ds out \<Longrightarrow> answered_to ds out" "named st ds out \<Longrightarrow> answered_to (ds @ [d]) out"
  by (auto simp: named_def answered_to_def dest: no_longer_snoc)

lemma named_step:
  assumes "named st ds out"
  shows "named (take_name sa st) (ds @ [(m, sa)]) (out @ [(echo_back (cstr m), give_name (take_name sa st))])"
  using assms no_longer_snoc [of ds "(m, sa)"] take_name_fits [of sa st]
  by (auto simp: named_def answer_def echo_of_def)

interpretation un_to: loop_contract "dgram_echo_body sockfd"
    "\<lambda>fds st h. named st (datagrams h) (sent_to h)" "\<lambda>r h. answered_to (datagrams h) (sent_to h)" for sockfd
proof
  fix fds and st :: un_addr and h
  assume inv: "named st (datagrams h) (sent_to h)"
  note step = named_step [OF inv]
  note simps = inv step named_answered [OF inv] named_answered(1) [OF step]
  show "vld fds (dgram_echo_body sockfd st) (\<lambda>r t. case r of
        Ret (Inl st') \<Rightarrow> named st' (datagrams (h @ t)) (sent_to (h @ t))
      | Ret (Inr x) \<Rightarrow> answered_to (datagrams (h @ t)) (sent_to (h @ t))
      | Stop z \<Rightarrow> answered_to (datagrams (h @ t)) (sent_to (h @ t)))"
    by (auto simp: dgram_echo_body_def Let_def io_simps sys_ok_def store_zeros put_zeros simps)
qed (rule named_answered)

subsection \<open>Properties\<close>

text \<open>
  The UDP echo server answers each datagram with its text behind \<open>ECHO BACK : \<close>, to its sender and in
  order. One datagram of 244 characters or more (without a NUL) makes it write or read past an array, and
  nothing else does; otherwise it only waits, or ends because \<open>recvfrom\<close> failed.
\<close>

theorem udp_echo_answers:
  assumes "udp_dg_echo sockfd rs = (r, t, rs')" and "conforms fds t"
  shows "prefix (sent_to t) (map (\<lambda>(m, sa). (''ECHO BACK : '' @ cstr m, sa)) (datagrams t)) \<and>
    (if list_ex (\<lambda>(m, sa). DG_BUF_SIZE \<le> 12 + length (cstr m)) (datagrams t)
     then r = Stop (Fault Overflow) \<or> r = Stop (Fault Overread)
     else r = Stop Blocked \<or> r = Stop (Exit (- 1)))"
proof -
  have eqs: "answer = (\<lambda>(m, sa). (''ECHO BACK : '' @ cstr m, sa))"
      "too_big = (\<lambda>(m, sa). DG_BUF_SIZE \<le> 12 + length (cstr m))"
    by (auto simp: answer_def echo_of_def echo_back_def too_big_def)
  have run: "loop (udp_echo_body sockfd) () rs = (r, t, rs')" using assms(1) by (simp add: udp_dg_echo_def)
  from vldD [OF udp_to.loop_post run assms(2)] udp_echo.echo_run [OF run assms(2)]
  show ?thesis by (simp add: eqs)
qed

definition from_sin :: "string \<Rightarrow> reply" where
  "from_sin s = (got s)\<lparr>peer := Sin [1, 2] [127, 0, 0, 1]\<rparr>"

theorem udp_echo_answers_witness:
  "case udp_dg_echo 3 [from_sin ''hi'', ok 14] of (r, t, rs) \<Rightarrow>
     conforms {0, 1, 2, 3} t \<and> r = Stop Blocked \<and> sent_to t = [(''ECHO BACK : hi'', Sin [1, 2] [127, 0, 0, 1])] \<and>
     prefix (sent_to t) (map (\<lambda>(m, sa). (''ECHO BACK : '' @ cstr m, sa)) (datagrams t))"
proof -
  let ?rs = "[from_sin ''hi'', ok 14]"
  obtain r t rs where run: "udp_dg_echo 3 ?rs = (r, t, rs)" by (cases "udp_dg_echo 3 ?rs") auto
  have "case udp_dg_echo 3 ?rs of (r, t, rs) \<Rightarrow> conforms {0, 1, 2, 3} t \<and> r = Stop Blocked \<and>
      sent_to t = [(''ECHO BACK : hi'', Sin [1, 2] [127, 0, 0, 1])]"
    by (simp add: run_simps udp_dg_echo_def udp_echo_body_def from_sin_def DG_BUF_SIZE_def echo_back_def cong: lazy)
  with run have 1: "conforms {0, 1, 2, 3} t" "r = Stop Blocked"
    "sent_to t = [(''ECHO BACK : hi'', Sin [1, 2] [127, 0, 0, 1])]" by simp_all
  from udp_echo_answers [OF run 1(1)] run 1 show ?thesis by simp
qed

text \<open>
  The datagram server of the local domain answers the same text, and it answers whom it should as long
  as the names of its clients do not get longer from one datagram to the next. (It offers \<open>recvfrom\<close> as many
  bytes for a name as the name before had; a longer one is cut.)
\<close>

theorem dgram_echo_answers:
  assumes "dgram_dg_echo sockfd junk_family junk_path rs = (r, t, rs')" and "conforms fds t"
    and "length junk_path = SUN_SIZE - 2"
  shows "prefix (map fst (sent_to t)) (map (\<lambda>(m, sa). ''ECHO BACK : '' @ cstr m) (datagrams t)) \<and>
    (no_longer (datagrams t) \<longrightarrow> prefix (sent_to t) (map (\<lambda>(m, sa). (''ECHO BACK : '' @ cstr m, sa)) (datagrams t)))"
proof -
  have eqs: "answer = (\<lambda>(m, sa). (''ECHO BACK : '' @ cstr m, sa))"
      "echo_of = (\<lambda>(m, sa). ''ECHO BACK : '' @ cstr m)"
    by (auto simp: answer_def echo_of_def echo_back_def)
  note run = assms(1) [unfolded dgram_dg_echo_def]
  have "answered_to (datagrams t) (sent_to t)"
    by (rule vldD [OF un_to.loop_post run assms(2)]) (simp add: named_def assms(3))
  with un_echo.echo_run [OF run assms(2)] show ?thesis by (simp add: eqs answered_to_def)
qed

definition from_sun :: "string \<Rightarrow> string \<Rightarrow> reply" where
  "from_sun p s = (got s)\<lparr>peer := Sun p\<rparr>"

theorem dgram_echo_answers_witness:
  "case dgram_dg_echo 3 AF_UNSPEC (zeros 108) [from_sun ''/tmp/b'' ''hi'', ok 14, from_sun ''/tmp/a'' ''ho'', ok 14] of (r, t, rs) \<Rightarrow>
     conforms {0, 1, 2, 3} t \<and> no_longer (datagrams t) \<and>
     sent_to t = [(''ECHO BACK : hi'', Sun ''/tmp/b''), (''ECHO BACK : ho'', Sun ''/tmp/a'')] \<and>
     prefix (sent_to t) (map (\<lambda>(m, sa). (''ECHO BACK : '' @ cstr m, sa)) (datagrams t))"
proof -
  let ?m = "dgram_dg_echo 3 AF_UNSPEC (zeros 108)"
  let ?rs = "[from_sun ''/tmp/b'' ''hi'', ok 14, from_sun ''/tmp/a'' ''ho'', ok 14]"
  obtain r t rs where run: "?m ?rs = (r, t, rs)" by (cases "?m ?rs") auto
  have "case ?m ?rs of (r, t, rs) \<Rightarrow> conforms {0, 1, 2, 3} t \<and> no_longer (datagrams t) \<and>
      sent_to t = [(''ECHO BACK : hi'', Sun ''/tmp/b''), (''ECHO BACK : ho'', Sun ''/tmp/a'')]"
    by (simp add: run_simps dgram_dg_echo_def dgram_echo_body_def from_sun_def DG_BUF_SIZE_def SUN_SIZE_def
        echo_back_def take_name_def give_name_def no_longer_def cong: lazy)
  with run have 1: "conforms {0, 1, 2, 3} t" "no_longer (datagrams t)"
    "sent_to t = [(''ECHO BACK : hi'', Sun ''/tmp/b''), (''ECHO BACK : ho'', Sun ''/tmp/a'')]" by simp_all
  from dgram_echo_answers [OF run 1(1)] have "prefix (sent_to t) (map (\<lambda>(m, sa). (''ECHO BACK : '' @ cstr m, sa)) (datagrams t))"
    using 1(2) by (simp add: SUN_SIZE_def)
  with run 1 show ?thesis by simp
qed

text \<open>A client whose name is longer than the one before is not answered: the answer goes to a name cut off.\<close>

lemma dgram_echo_wrong_name:
  assumes "un_path st = p @ NUL # q" and "un_len st = 3 + length p" and "NUL \<notin> set p" and "NUL \<notin> set p'"
    and "length p < length p'"
  shows "give_name (take_name (Sun p') st) = Sun (cstr (take (Suc (length p)) p' @ take (length p' - length p) q))"
proof -
  have "drop (Suc (length p)) (p @ NUL # q) = q" by simp
  moreover have "take (Suc (length p)) (p' @ [NUL]) = take (Suc (length p)) p'" using assms(5) by simp
  ultimately show ?thesis using assms
    by (cases "length p' \<le> Suc (length p)") (auto simp: take_name_def give_name_def Let_def min_def le_Suc_eq)
qed

end
