(* ===== verification/Simple_Clients.thy ===== *)
theory Simple_Clients
  imports Select_Server Daytime
begin

text \<open>
  The interactive clients \<open>C/basic_client.c\<close> and \<open>C/select_client.c\<close>, the server for one message
  \<open>C/basic_server.c\<close>, and the two clients that send a fixed text, \<open>C/select_cli_better.c\<close> and
  \<open>ameba/tcp_client.c\<close>.
\<close>

definition CLI_BUF_LEN :: nat where "CLI_BUF_LEN = 256"
definition CLI_PORT :: "16 word" where "CLI_PORT = 10001"

text \<open>The line that ends a client.\<close>

definition EXIT_LINE :: string where "EXIT_LINE = ''exit'' @ [LF]"

subsection \<open>The basic client\<close>

text \<open>
  The part from the label \<open>loop\<close>: it reads until the byte behind what was read is a NUL. The buffer is
  cleared before each \<open>read\<close>.
\<close>

definition bc_recv_body :: "int \<Rightarrow> unit \<Rightarrow> (unit + buf) io" where
  "bc_recv_body sock _ =
     sys (Read sock CLI_BUF_LEN) (\<lambda>n.
       if rv n = 0 then printf (''server has closed.'' @ [LF]) (sys (Close sock) (\<lambda>_. exit 0))
       else if rv n < 0 then perror ''read'' (exit (- 1))
       else fits (store 0 (dat n) (zeros CLI_BUF_LEN)) (\<lambda>recv_buf.
         arr_get recv_buf (rv n) (\<lambda>c.
         if c = NUL then printf (''Read Over'' @ [LF]) (ret (Inr recv_buf)) else ret (Inl ()))))"

text \<open>What \<open>fgets\<close> leaves in \<open>send_buf\<close>: the line, or the cleared buffer at the end of the input.\<close>

definition line_in :: "reply \<Rightarrow> buf option" where
  "line_in g = (if rv g = 0 then Some (zeros CLI_BUF_LEN) else put_cstr 0 (dat g) (zeros CLI_BUF_LEN))"

definition bc_body :: "int \<Rightarrow> unit \<Rightarrow> (unit + unit) io" where
  "bc_body sock _ =
     printf ''Please enter the mssage: ''
     (sys (Fgets (CLI_BUF_LEN - 1)) (\<lambda>g.
     fits (line_in g) (\<lambda>send_buf.
     with_cstr send_buf (\<lambda>line.
     if line = EXIT_LINE then printf (''exit!'' @ [LF]) (sys (Close sock) (\<lambda>_. exit 0))
     else sys (Write sock line) (\<lambda>n.
       if rv n < 0 then perror ''write'' (exit (- 1))
       else bnd (loop (bc_recv_body sock) ()) (\<lambda>recv_buf.
         with_cstr recv_buf (\<lambda>s.
         printf (''Receive message: '' @ s @ ''.'' @ [LF]) (ret (Inl ())))))))))"

text \<open>How both clients connect.\<close>

definition cli_connect :: "string list \<Rightarrow> (int \<Rightarrow> unit io) \<Rightarrow> unit io" where
  "cli_connect argv go =
     (if length argv < 2 then
        arr_get argv 0 (\<lambda>name. printf (''Usage: '' @ name @ '' <HOSTNAME>.'' @ [LF]) (exit (- 1)))
      else sys (Socket AF_INET SOCK_STREAM 0) (\<lambda>s.
        if rv s < 0 then perror ''socket'' (exit (- 1))
        else sys (Gethostbyname (argv ! 1)) (\<lambda>h.
          if rv h = 0 then perror ''gethostbyname'' (exit (- 1))
          else sys (Connect (rv s) (Sin (htons CLI_PORT) (ip h))) (\<lambda>c.
            if rv c < 0 then perror ''connect'' (exit (- 1)) else go (rv s)))))"

definition bc_main :: "string list \<Rightarrow> unit io" where
  "bc_main argv = cli_connect argv (\<lambda>sock. loop (bc_body sock) ())"

subsection \<open>The client of the select server\<close>

definition sc_body :: "int \<Rightarrow> unit \<Rightarrow> (unit + unit) io" where
  "sc_body sock _ =
     sys (Read sock (CLI_BUF_LEN - 1)) (\<lambda>n.
     fits (store 0 (dat n) (zeros CLI_BUF_LEN)) (\<lambda>recv_buf.
     if take 6 recv_buf = ''Refuse'' then
       printf (''server refuse your connection.'' @ [LF]) (sys (Close sock) (\<lambda>_. exit 0))
     else if rv n = 0 then
       printf (''server has closed.'' @ [LF]) (sys (Close sock) (\<lambda>_. exit 0))
     else if rv n < 0 then perror ''read'' (exit (- 1))
     else with_cstr recv_buf (\<lambda>s.
       printf (''Receive message: '' @ s @ ''.'' @ [LF])
       (printf ''Please enter the mssage: ''
       (sys (Fgets (CLI_BUF_LEN - 1)) (\<lambda>g.
       fits (line_in g) (\<lambda>send_buf.
       with_cstr send_buf (\<lambda>line.
       if line = EXIT_LINE then printf (''exit client.'' @ [LF]) (sys (Close sock) (\<lambda>_. exit 0))
       else sys (Write sock line) (\<lambda>w.
         if rv w < 0 then perror ''write'' (exit (- 1)) else ret (Inl ()))))))))))"

definition sc_main :: "string list \<Rightarrow> unit io" where
  "sc_main argv = cli_connect argv (\<lambda>sock. loop (sc_body sock) ())"

subsection \<open>The server for one message\<close>

definition bs_serve :: "int \<Rightarrow> unit io" where
  "bs_serve new_sock =
     sys (Read new_sock (CLI_BUF_LEN - 1)) (\<lambda>n.
       if rv n < 0 then perror ''read'' (exit 1)
       else fits (store 0 (dat n) (zeros CLI_BUF_LEN)) (\<lambda>recv_buf.
         with_cstr recv_buf (\<lambda>s.
         printf (''Receive message : '' @ s @ ''.'' @ [LF])
         (sys (Write new_sock s) (\<lambda>w.
           if rv w < 0 then perror ''write'' (exit 1) else exit 0)))))"

definition bs_main :: "unit io" where
  "bs_main =
     sys (Socket AF_INET SOCK_STREAM 0) (\<lambda>m.
       if rv m < 0 then perror ''socket'' (exit 1)
       else sys (Bind (rv m) (Sin (htons CLI_PORT) (htonl INADDR_ANY))) (\<lambda>b.
         if rv b \<noteq> 0 then perror ''bind'' (exit 1)
         else sys (Listen (rv m) 5) (\<lambda>_.
           sys (Accept (rv m)) (\<lambda>a.
             if rv a < 0 then perror ''accept'' (exit 1) else bs_serve (rv a)))))"

subsection \<open>Clients that send a fixed text\<close>

definition EXCHANGE_STR :: string where "EXCHANGE_STR = ''test string''"
definition EXCHANGE_IP :: string where "EXCHANGE_IP = ''127.0.0.1''"

text \<open>
  \<open>sock_init\<close> reports what fails and goes on; it follows \<open>server\<close> even when that is null. It leaves the
  descriptor in \<open>g_connfd\<close>.
\<close>

definition sock_init :: "int io" where
  "sock_init =
     sys (Socket AF_INET SOCK_STREAM 0) (\<lambda>s.
     says (if rv s < 0 then [''sock_init : error socket'' @ [LF]] else [])
     (sys (Gethostbyname EXCHANGE_IP) (\<lambda>h.
       if rv h = 0 then
         printf (''sock_init : error gethostbyname'' @ [LF]) (sys (Close (rv s)) (\<lambda>_. fault Null))
       else sys (Connect (rv s) (Sin (htons EXCHANGE_SERVER_PORT) (ip h))) (\<lambda>c.
         if rv c < 0 then
           printf (''sock_init : error connect'' @ [LF]) (sys (Close (rv s)) (\<lambda>_. ret (rv s)))
         else ret (rv s)))))"

definition exchange_body :: "int \<Rightarrow> unit \<Rightarrow> (unit + unit) io" where
  "exchange_body g_connfd _ =
     printf (''send_exchange_data str = '' @ EXCHANGE_STR @ [LF])
     (sys (Write g_connfd EXCHANGE_STR) (\<lambda>w.
       if rv w < 0 then printf (''error write'' @ [LF]) (ret (Inr ()))
       else sys (Sleep 2) (\<lambda>_. ret (Inl ()))))"

definition send_exchange_data :: "unit io" where
  "send_exchange_data = bnd sock_init (\<lambda>g_connfd. loop (exchange_body g_connfd) ())"

definition exchange_main :: "unit io" where
  "exchange_main = bnd send_exchange_data (\<lambda>_. exit 0)"

text \<open>
  The client of the board makes a new connection for each text. The state is \<open>sockfd\<close>; the label \<open>exit\<close>
  is reached from everywhere.
\<close>

definition board_exit :: "int \<Rightarrow> (int + unit) io" where
  "board_exit sockfd = sys (Close sockfd) (\<lambda>_. printf [LF] (sys (Usleep 10) (\<lambda>_. ret (Inl sockfd))))"

definition board_tcp_body :: "int \<Rightarrow> (int + unit) io" where
  "board_tcp_body sockfd =
     printf (''>>>> sockfd = '' @ show_int sockfd @ [LF])
     (printf (''>>>> recreate socket'' @ [LF])
     (sys (Socket AF_INET SOCK_STREAM 0) (\<lambda>s.
       if rv s < 0 then printf (''main : error socket'' @ [LF]) (board_exit (rv s))
       else sys (Gethostbyname EXCHANGE_IP) (\<lambda>h.
         if rv h = 0 then printf (''main : error gethostbyname'' @ [LF]) (board_exit (rv s))
         else sys (Connect (rv s) (Sin (htons EXCHANGE_SERVER_PORT) (ip h))) (\<lambda>c.
           if rv c < 0 then perror ''connect'' (board_exit (rv s))
           else printf (''>>>> directly send'' @ [LF])
             (sys (Write (rv s) EXCHANGE_STR) (\<lambda>w.
               if rv w < 0 then printf (''error write'' @ [LF]) (board_exit (rv s))
               else printf (''send msg : '' @ EXCHANGE_STR @ [LF]) (board_exit (rv s)))))))))"

definition board_tcp_main :: "unit io" where
  "board_tcp_main = loop board_tcp_body 0"

subsection \<open>What the clients do\<close>

text \<open>The lines read from standard input, with an empty one for its end; and how they are sent.\<close>

fun lines_read :: "event list \<Rightarrow> string list" where
  "lines_read [] = []"
| "lines_read (Call (File (FGETS n)) a # t) = (if rv a = 0 then [] else cstr (dat a)) # lines_read t"
| "lines_read (_ # t) = lines_read t"

lemma lines_read_append [simp]: "lines_read (s @ t) = lines_read s @ lines_read t"
  by (induction s rule: lines_read.induct) auto

definition to_send :: "int \<Rightarrow> string list \<Rightarrow> (int \<times> string) list" where
  "to_send sock ls = map (Pair sock) ls"

lemma to_send_simps [simp]:
  "to_send sock [] = []" "to_send sock (ls @ ls') = to_send sock ls @ to_send sock ls'" "to_send sock [l] = [(sock, l)]"
  by (simp_all add: to_send_def)

text \<open>What a part of a run leaves as it was.\<close>

definition quiet :: "event list \<Rightarrow> bool" where
  "quiet t \<longleftrightarrow> offered t = [] \<and> lines_read t = []"

text \<open>
  The loop behind the label never goes round: \<open>recv_buf\<close> is cleared before each \<open>read\<close>, so the byte behind
  what was read is a NUL, or is not in the array.
\<close>

definition bc_recv_end :: "buf result \<Rightarrow> event list \<Rightarrow> bool" where
  "bc_recv_end r t \<longleftrightarrow> quiet t \<and>
     (case r of
        Ret b \<Rightarrow> terminated b \<and> \<not> filled t
      | Stop z \<Rightarrow> if filled t then z = Fault Overread else z = Blocked \<or> z = Exit 0 \<or> z = Exit (- 1) \<or> z = Diverge)"

lemma bc_recv_end_simps [simp]:
  "bc_recv_end (Ret b) t \<longleftrightarrow> quiet t \<and> terminated b \<and> \<not> filled t"
  "bc_recv_end (Stop z) t \<longleftrightarrow> quiet t \<and>
     (if filled t then z = Fault Overread else z = Blocked \<or> z = Exit 0 \<or> z = Exit (- 1) \<or> z = Diverge)"
  by (auto simp: bc_recv_end_def)

lemma CLI_BUF_LEN_pos [simp]: "0 < CLI_BUF_LEN" "CLI_BUF_LEN \<noteq> 0"
  by (simp_all add: CLI_BUF_LEN_def)

lemma behind_NUL:
  assumes "length (dat n) = nat (rv n)" and "0 < rv n" and "rv n < int CLI_BUF_LEN"
  shows "(dat n @ zeros (CLI_BUF_LEN - nat (rv n))) ! nat (rv n) = NUL"
  using assms by (simp add: nth_append zeros_def)

interpretation bc_recv: loop_contract "bc_recv_body sock" "\<lambda>fds s h. h = []" bc_recv_end for sock
proof
  fix fds and s :: unit and h :: "event list"
  assume h: "h = []"
  show "vld fds (bc_recv_body sock s) (\<lambda>r t. case r of
        Ret (Inl s') \<Rightarrow> h @ t = []
      | Ret (Inr b) \<Rightarrow> bc_recv_end (Ret b) (h @ t)
      | Stop z \<Rightarrow> bc_recv_end (Stop z) (h @ t))"
    using h unfolding bc_recv_body_def
    by (auto simp: io_simps sys_ok_def store_zeros quiet_def behind_NUL nat_less_iff)
qed (simp add: quiet_def)

interpretation bc_recv_busy: busy_loop "bc_recv_body sock" for sock
  by unfold_locales (simp only: bc_recv_body_def, intro busy_sys steady_intros, simp_all)

text \<open>A line always fits, and is a string.\<close>

lemma line_in_simps:
  assumes "sys_ok fds (Fgets (CLI_BUF_LEN - 1)) g"
  shows "line_in g \<noteq> None"
    "line_in g = Some b \<Longrightarrow> terminated b \<and> cstr b = (if rv g = 0 then [] else cstr (dat g))"
  using assms by (auto simp: line_in_def sys_ok_def put_zeros split: if_splits)


text \<open>
  What a client that talks has sent: each line it read, but the last while \<open>write\<close> waits. The line \<open>exit\<close> is not
  sent, and it is the last: the client closes the socket and exits. It goes wrong only as \<open>bad\<close> says.
\<close>

definition talked :: "(event list \<Rightarrow> bool) \<Rightarrow> int \<Rightarrow> event list \<Rightarrow> bool" where
  "talked bad sock t \<longleftrightarrow> offered t = to_send sock (lines_read t) \<and> EXIT_LINE \<notin> set (lines_read t) \<and> \<not> bad t"

definition talk_end :: "(event list \<Rightarrow> bool) \<Rightarrow> int \<Rightarrow> unit result \<Rightarrow> event list \<Rightarrow> bool" where
  "talk_end bad sock r t \<longleftrightarrow>
     (let ls = lines_read t in
      EXIT_LINE \<notin> set (butlast ls) \<and>
      (if EXIT_LINE \<in> set ls
       then offered t = to_send sock (butlast ls) \<and> \<not> bad t \<and>
         (r = Stop (Exit 0) \<and> (\<exists>c. last t = Call (Close sock) c) \<or> r = Stop Blocked)
       else if bad t then offered t = to_send sock ls \<and> r = Stop (Fault Overread)
       else offered t = to_send sock ls \<and> (r = Stop Blocked \<or> r = Stop (Exit 0) \<or> r = Stop (Exit (- 1)) \<or> r = Stop Diverge) \<or>
         ls \<noteq> [] \<and> offered t = to_send sock (butlast ls) \<and> r = Stop Blocked))"

interpretation bc: loop_contract "bc_body sock" "\<lambda>fds s h. talked filled sock h" "talk_end filled sock" for sock
proof
  fix fds and s :: unit and h
  assume inv: "talked filled sock h"
  have recv: "vld fds (loop (bc_recv_body sock) ()) bc_recv_end" for fds
    by (rule bc_recv.loop_post) simp
  show "vld fds (bc_body sock s) (\<lambda>r t. case r of
        Ret (Inl s') \<Rightarrow> talked filled sock (h @ t)
      | Ret (Inr x) \<Rightarrow> talk_end filled sock (Ret x) (h @ t)
      | Stop z \<Rightarrow> talk_end filled sock (Stop z) (h @ t))"
    using inv unfolding bc_body_def
    by (auto simp: io_simps talked_def talk_end_def Let_def quiet_def line_in_simps
        intro!: vld_bnd_use [OF recv] split: if_splits dest: in_set_butlastD)
qed (auto simp: talked_def talk_end_def Let_def dest: in_set_butlastD)

interpretation bc_busy: busy_loop "bc_body sock" for sock
  by unfold_locales
    (simp only: bc_body_def, intro busy_print busy_sys steady_intros bc_recv_busy.loop_steady, simp_all)

interpretation sc: loop_contract "sc_body sock" "\<lambda>fds s h. talked (\<lambda>_. False) sock h" "talk_end (\<lambda>_. False) sock" for sock
  by unfold_locales
    (auto simp: sc_body_def io_simps talked_def talk_end_def Let_def line_in_simps sys_ok_def store_zeros nat_less_iff
      split: if_splits dest: in_set_butlastD)

interpretation sc_busy: busy_loop "sc_body sock" for sock
  by unfold_locales (simp only: sc_body_def, intro busy_sys steady_intros, simp_all)

fun lookup_failed :: "event \<Rightarrow> bool" where
  "lookup_failed (Call (Name (GETHOSTBYNAME h)) a) \<longleftrightarrow> rv a = 0"
| "lookup_failed _ \<longleftrightarrow> False"

definition only_text :: "event list \<Rightarrow> bool" where
  "only_text t \<longleftrightarrow> snd ` set (offered t) \<subseteq> {EXCHANGE_STR}"

lemma only_text_simps [simp]:
  "offered t = [] \<Longrightarrow> only_text t" "only_text (s @ t) \<longleftrightarrow> only_text s \<and> only_text t"
  by (auto simp: only_text_def)

interpretation exchange: loop_contract "exchange_body fd"
    "\<lambda>fds s h. only_text h" "\<lambda>r h. only_text h \<and> (\<forall>f. r \<noteq> Stop (Fault f))" for fd
  by unfold_locales (auto simp: exchange_body_def io_simps only_text_def)

lemma exchange_law:
  "vld fds exchange_main (\<lambda>r t. only_text t \<and> (\<forall>f. r = Stop (Fault f) \<longrightarrow> f = Null \<and> list_ex lookup_failed t))"
proof -
  have "vld fds sock_init (\<lambda>r t. offered t = [] \<and> (\<forall>f. r = Stop (Fault f) \<longrightarrow> f = Null \<and> list_ex lookup_failed t))" for fds
    by (auto simp: sock_init_def io_simps)
  moreover have "vld fds (loop (exchange_body fd) ()) (\<lambda>r h. only_text h \<and> (\<forall>f. r \<noteq> Stop (Fault f)))" for fds fd
    by (rule exchange.loop_post) simp
  ultimately show ?thesis unfolding exchange_main_def send_exchange_data_def bnd_assoc
    by (auto simp: io_simps intro!: vld_bnd_use [of fds sock_init] vld_bnd_use)
qed

interpretation board_tcp: loop_contract board_tcp_body
    "\<lambda>fds s h. - 1 \<notin> fds0 \<longrightarrow> fds = fds0 \<and> only_text h" "\<lambda>r h. True" for fds0
  by unfold_locales
    (auto simp: board_tcp_body_def board_exit_def io_simps sys_ok_def only_text_def split: result.split sum.split)

subsection \<open>Properties\<close>


definition typed_line :: "string \<Rightarrow> reply" where
  "typed_line s = (ok 1)\<lparr>dat := s @ [LF]\<rparr>"


text \<open>
  Client and server agree on the refusal. When the first message is the refusal of the select server,
  whatever follows it in the same read, the client says so, closes the socket and exits without having sent
  anything; when it is the server's greeting, or an echo, the client shows it and asks for a line.
\<close>

theorem refusal_understood:
  assumes "length m \<le> 255" and "dat a = m" and "rv a = int (length m)" and "m \<noteq> []"
  shows "(prefix REFUSE_MSG m \<longrightarrow> sc_body sock () (a # c # rs) =
      (Stop (Exit 0), [Call (Read sock 255) a, Out (''server refuse your connection.'' @ [LF]), Call (Close sock) c], rs)) \<and>
    (prefix ACCEPT_MSG m \<or> prefix ''ECHO BACK : '' m \<longrightarrow> sc_body sock () [a] =
      (Stop Blocked, [Call (Read sock 255) a, Out (''Receive message: '' @ cstr m @ ''.'' @ [LF]), Out ''Please enter the mssage: ''], []))"
proof -
  have st: "store 0 m (zeros 256) = Some (m @ zeros (256 - length m))" using assms(1) by (simp add: store_zeros)
  have t: "terminated (m @ zeros (256 - length m))" using assms(1) by simp
  show ?thesis
    using assms by (auto simp: sc_body_def CLI_BUF_LEN_def run_ops run_print tell_def st t prefix_def REFUSE_MSG_def
        ACCEPT_MSG_def)
qed

theorem refusal_understood_witness:
  "sc_body 3 () [got REFUSE_MSG, ok 0] =
     (Stop (Exit 0), [Call (Read 3 255) (got REFUSE_MSG), Out (''server refuse your connection.'' @ [LF]), Call (Close 3) (ok 0)], []) \<and>
   sc_body 3 () [got ACCEPT_MSG] =
     (Stop Blocked, [Call (Read 3 255) (got ACCEPT_MSG), Out (''Receive message: '' @ ACCEPT_MSG @ ''.'' @ [LF]), Out ''Please enter the mssage: ''], [])"
  using refusal_understood [of REFUSE_MSG "got REFUSE_MSG" 3 "ok 0" "[]"] refusal_understood [of ACCEPT_MSG "got ACCEPT_MSG" 3]
  by (simp add: REFUSE_MSG_def ACCEPT_MSG_def got_def ok_def)

text \<open>
  The server for one message echoes it. If it ends with success it has offered, once and to the
  connection it accepted, the text it received up to a NUL; no run writes or reads outside its array.
\<close>

theorem one_message_echoed:
  assumes "bs_main rs = (r, t, rs')" and "conforms fds t"
  shows "(\<forall>f. r \<noteq> Stop (Fault f)) \<and>
    (r = Stop (Exit 0) \<longrightarrow> (\<exists>l fd. new_fds t = [l, fd] \<and> offered t = [(fd, cstr (received fd t))]))"
proof -
  have "vld fds bs_main (\<lambda>r t. (\<forall>f. r \<noteq> Stop (Fault f)) \<and>
    (r = Stop (Exit 0) \<longrightarrow> (\<exists>l fd. new_fds t = [l, fd] \<and> offered t = [(fd, cstr (received fd t))])))"
    by (auto simp: bs_main_def bs_serve_def io_simps sys_ok_def store_zeros nat_less_iff CLI_BUF_LEN_def)
  from vldD [OF this assms] show ?thesis .
qed

theorem one_message_echoed_witness:
  "case bs_main [ok 3, ok 0, ok 0, ok 4, got ''hi'', ok 2] of (r, t, rs) \<Rightarrow>
     conforms {0, 1, 2} t \<and> r = Stop (Exit 0) \<and> (\<exists>l fd. new_fds t = [l, fd] \<and> offered t = [(fd, cstr (received fd t))])"
proof -
  let ?rs = "[ok 3, ok 0, ok 0, ok 4, got ''hi'', ok 2]"
  obtain r t rs where run: "bs_main ?rs = (r, t, rs)" by (cases "bs_main ?rs") auto
  have "case bs_main ?rs of (r, t, rs) \<Rightarrow> conforms {0, 1, 2} t \<and> r = Stop (Exit 0)"
    by (simp add: run_simps bs_main_def bs_serve_def CLI_BUF_LEN_def cong: lazy)
  with run have 1: "conforms {0, 1, 2} t" "r = Stop (Exit 0)" by simp_all
  from one_message_echoed [OF run 1(1)] run 1 show ?thesis by simp
qed

text \<open>
  The client of the board closes what it opens: at the head of its loop the process has open what it
  had at the start, whatever failed, and all it has ever written is the fixed text. The other client of
  fixed text writes the same, and faults only when the lookup of the host fails, whose null pointer it follows.
\<close>

theorem fixed_text_clients:
  assumes "reach board_tcp_body fds0 s0 fds s h" and "- 1 \<notin> fds0"
    and "exchange_main rs = (r, t, rs')" and "conforms fds1 t"
  shows "fds = fds0 \<and> snd ` set (offered h) \<subseteq> {''test string''} \<and> snd ` set (offered t) \<subseteq> {''test string''} \<and>
    (\<forall>f. r = Stop (Fault f) \<longrightarrow> f = Null \<and> list_ex lookup_failed t)"
  using board_tcp.reach_inv [OF assms(1), of fds0] assms(2) vldD [OF exchange_law assms(3,4)]
  by (simp add: only_text_def EXCHANGE_STR_def)

definition localhost :: reply where
  "localhost = (ok 1)\<lparr>ip := [127, 0, 0, 1]\<rparr>"

theorem fixed_text_clients_witness:
  "case turns board_tcp_body 0 [[ok 3, localhost, ok 0, ok 11, ok 0, ok 0], [ok 3, ok 0, ok 0, ok 0]] of Some (s, h) \<Rightarrow>
     conforms {0, 1, 2} h \<and> fds_run {0, 1, 2} h = {0, 1, 2} \<and> offered h = [(3, ''test string'')]
   | None \<Rightarrow> False"
proof -
  let ?rss = "[[ok 3, localhost, ok 0, ok 11, ok 0, ok 0], [ok 3, ok 0, ok 0, ok 0]]"
  obtain s h where t: "turns board_tcp_body 0 ?rss = Some (s, h)" and c: "conforms {0, 1, 2} h"
    and out: "offered h = [(3, ''test string'')]"
    by (simp add: run_simps board_tcp_body_def board_exit_def EXCHANGE_STR_def localhost_def cong: lazy)
  have e: "exchange_main [] = (Stop Blocked, [], [])"
    by (simp add: exchange_main_def send_exchange_data_def sock_init_def run_simps)
  have "conforms {} []" by simp
  from fixed_text_clients [OF turns_reach [OF t c] _ e this] t c out show ?thesis by simp
qed

end
