(* ===== verification/Lookup.thy ===== *)
theory Lookup
  imports Daytime Conn_Pool
begin

text \<open>
  The programs that look names up: \<open>C/gethostbyname.c\<close>, \<open>C/getservbyname.c\<close>, \<open>C/dns.c\<close>; and the test of the
  byte order, \<open>C/endian.c\<close>. The resolver of the first two is a parameter, with the documented form of its
  results.
\<close>

record hostent =
  h_name :: string
  h_aliases :: "string list"
  h_addrtype :: family
  h_addr_list :: "byte list list"

record resolver =
  gethostbyname :: "string \<Rightarrow> hostent option"
  h_error :: "string \<Rightarrow> string"
  inet_aton :: "string \<Rightarrow> byte list option"
  getservbyname :: "string \<Rightarrow> string \<Rightarrow> byte list option"
  inet6_text :: "byte list \<Rightarrow> string"

definition INET_ADDRSTRLEN :: nat where "INET_ADDRSTRLEN = 16"

text \<open>\<open>inet_ntop\<close> fails when the text and its NUL do not fit; \<open>printf\<close> shows the null pointer as \<open>(null)\<close>.\<close>

definition inet_ntop :: "resolver \<Rightarrow> family \<Rightarrow> byte list \<Rightarrow> string option" where
  "inet_ntop R fam a =
     (let s = (if fam = AF_INET6 then inet6_text R a else dotted (take 4 a))
      in if length s < INET_ADDRSTRLEN then Some s else None)"

definition shown :: "string option \<Rightarrow> string" where
  "shown s = (case s of None \<Rightarrow> ''(null)'' | Some x \<Rightarrow> x)"

subsection \<open>Host names\<close>

text \<open>With a wrong number of arguments \<open>printf\<close> is called without the argument its format asks for.\<close>

definition gh_main :: "resolver \<Rightarrow> string list \<Rightarrow> unit io" where
  "gh_main R argv =
     (if length argv \<noteq> 2 then fault Overread
      else case gethostbyname R (argv ! 1) of
        None \<Rightarrow> printf (''gethostbyname error for host : '' @ argv ! 1 @ '', error : '' @ h_error R (argv ! 1) @ ''.'' @ [LF]) (exit (- 1))
      | Some h \<Rightarrow>
          printf (''official hostname : '' @ h_name h @ [LF])
          (says (map (\<lambda>al. [CHR 0x09] @ '' alias : '' @ al @ [LF]) (h_aliases h))
          (if h_addrtype h = AF_INET \<or> h_addrtype h = AF_INET6 then
             says (map (\<lambda>a. [CHR 0x09] @ ''address : '' @ shown (inet_ntop R (h_addrtype h) a) @ [LF]) (h_addr_list h)) (exit 0)
           else printf (''unknown address type.'' @ [LF]) (exit 0))))"

subsection \<open>A service on a host\<close>

definition SERV_BUF_SIZE :: nat where "SERV_BUF_SIZE = 256"

text \<open>The loop over the addresses: the socket of the first that accepts, or none.\<close>

fun gs_walk :: "resolver \<Rightarrow> byte list \<Rightarrow> byte list list \<Rightarrow> int option io" where
  "gs_walk R port [] = ret None"
| "gs_walk R port (a # as) =
     sys (Socket AF_INET SOCK_STREAM 0) (\<lambda>s.
       if rv s < 0 then perror ''socket'' (exit 1)
       else printf (''trying to connect '' @ shown (inet_ntop R AF_INET a) @ [LF])
         (sys (Connect (rv s) (Sin port (take 4 a))) (\<lambda>c.
           if rv c = 0 then ret (Some (rv s)) else perror ''connect error'' (gs_walk R port as))))"

definition gs_serve :: "resolver \<Rightarrow> string \<Rightarrow> byte list list \<Rightarrow> unit io" where
  "gs_serve R service addrs =
     (case getservbyname R service ''tcp'' of
        None \<Rightarrow> perror ''getservbyname'' (exit 1)
      | Some port \<Rightarrow> bnd (gs_walk R port addrs) (\<lambda>x. case x of
          None \<Rightarrow> printf (''unable to connect.'' @ [LF]) (exit 1)
        | Some sockfd \<Rightarrow> sys (Read sockfd (SERV_BUF_SIZE - 1)) (\<lambda>n.
            if rv n < 0 then perror ''read'' (exit 1)
            else fits (store 0 (dat n) (zeros SERV_BUF_SIZE)) (\<lambda>recvline.
              with_cstr recvline (\<lambda>s. printf s (exit 0))))))"

definition gs_main :: "resolver \<Rightarrow> string list \<Rightarrow> unit io" where
  "gs_main R argv =
     (if length argv \<noteq> 3 then
        arr_get argv 0 (\<lambda>name. printf (''USAGE: '' @ name @ '' <hostname> <service>.'' @ [LF]) (exit 1))
      else case gethostbyname R (argv ! 1) of
        None \<Rightarrow>
          printf (''gethostbyname error('' @ h_error R (argv ! 1) @ ''), try to user inet_aton.'' @ [LF])
          (case inet_aton R (argv ! 1) of
             None \<Rightarrow> perror ''inet_aton'' (exit 1)
           | Some a \<Rightarrow> gs_serve R (argv ! 2) [a])
      | Some h \<Rightarrow>
          printf (''official hostname : '' @ h_name h @ [LF]) (gs_serve R (argv ! 2) (h_addr_list h)))"

subsection \<open>The addresses of a name\<close>

fun sin_addr :: "sockaddr \<Rightarrow> byte list" where
  "sin_addr (Sin p a) = a"
| "sin_addr _ = []"

text \<open>\<open>ipstr\<close> keeps the text of the entry before when \<open>inet_ntop\<close> fails; it is not tested.\<close>

fun dns_walk :: "resolver \<Rightarrow> buf \<Rightarrow> addrinfo list \<Rightarrow> buf io" where
  "dns_walk R ipstr [] = ret ipstr"
| "dns_walk R ipstr (cur # rest) =
     (let ipstr' = (case inet_ntop R AF_INET (sin_addr (ai_addr cur)) of
            None \<Rightarrow> ipstr
          | Some s \<Rightarrow> s @ NUL # drop (Suc (length s)) ipstr)
      in with_cstr ipstr' (\<lambda>s. printf (s @ [LF]) (dns_walk R ipstr' rest)))"

definition dns_main :: "resolver \<Rightarrow> (int \<Rightarrow> string) \<Rightarrow> buf \<Rightarrow> string list \<Rightarrow> unit io" where
  "dns_main R gai_strerror junk_ipstr argv =
     (if length argv \<noteq> 2 then
        arr_get argv 0 (\<lambda>name. eprintf (''Usage: '' @ name @ '' hostname'' @ [LF]) (exit 1))
      else sys (Getaddrinfo (Some (argv ! 1)) None False AF_INET SOCK_STREAM) (\<lambda>g.
        if rv g \<noteq> 0 then eprintf (''getaddrinfo: '' @ gai_strerror (rv g) @ [LF]) (exit 1)
        else bnd (dns_walk R junk_ipstr (ais g)) (\<lambda>_. sys Freeaddrinfo (\<lambda>_. exit 0))))"

subsection \<open>The byte order\<close>

text \<open>\<open>bytes\<close> is how the machine keeps a \<open>short\<close>.\<close>

definition endian_main :: "(16 word \<Rightarrow> byte list) \<Rightarrow> unit io" where
  "endian_main bytes =
     (let c = bytes 0x0102
      in if length c \<noteq> 2 then printf (''sizeof(short) = '' @ show_int (int (length c)) @ ''.'' @ [LF]) (exit (- 1))
         else if 0x01 = c ! 0 \<and> 0x02 = c ! 1 then printf (''big-endian.'' @ [LF]) (exit 0)
         else if 0x02 = c ! 0 \<and> 0x01 = c ! 1 then printf (''little-endian.'' @ [LF]) (exit 0)
         else printf (''unknown.'' @ [LF]) (exit 0))"

subsection \<open>What they do\<close>

text \<open>The attempts to connect, with their results.\<close>

fun tried :: "event list \<Rightarrow> (sockaddr \<times> int) list" where
  "tried [] = []"
| "tried (Call (On fd (CONNECT sa)) a # t) = (sa, rv a) # tried t"
| "tried (_ # t) = tried t"

lemma tried_append [simp]: "tried (s @ t) = tried s @ tried t"
  by (induction s rule: tried.induct) auto

text \<open>\<open>first_of as k t\<close>: the attempts were the first \<open>k\<close> addresses, and all but the last failed.\<close>

definition walked :: "byte list \<Rightarrow> byte list list \<Rightarrow> int option \<Rightarrow> event list \<Rightarrow> bool" where
  "walked port as x t \<longleftrightarrow>
     (case x of
        Some s \<Rightarrow> \<exists>bs a cs ns. as = bs @ a # cs \<and> new_fds t = ns @ [s] \<and>
          map fst (tried t) = map (\<lambda>a. Sin port (take 4 a)) (bs @ [a]) \<and>
          snd (last (tried t)) = 0 \<and> 0 \<notin> snd ` set (butlast (tried t))
      | None \<Rightarrow> map fst (tried t) = map (\<lambda>a. Sin port (take 4 a)) as \<and> 0 \<notin> snd ` set (tried t))"

lemma walked_Cons:
  assumes "walked port as x t" and "rv c \<noteq> 0" 
  shows "walked port (a # as) x (Call (Socket AF_INET SOCK_STREAM 0) s # Out m #
    Call (Connect (rv s) (Sin port (take 4 a))) c # Perror p # t)"
proof (cases x)
  case None
  with assms show ?thesis by (auto simp: walked_def)
next
  case (Some sock)
  then obtain bs b cs ns where "as = bs @ b # cs" "new_fds t = ns @ [sock]"
    "map fst (tried t) = map (\<lambda>a. Sin port (take 4 a)) (bs @ [b])"
    "snd (last (tried t)) = 0" "0 \<notin> snd ` set (butlast (tried t))"
    using assms(1) by (auto simp: walked_def)
  moreover from this(3) have "tried t \<noteq> []" by auto
  ultimately show ?thesis using Some assms(2) unfolding walked_def
    by (simp, intro exI [of _ "a # bs"] exI [of _ b] exI [of _ cs] exI [of _ "rv s # ns"]) auto
qed

lemma gs_walk_ok:
  "vld fds (gs_walk R port as) (\<lambda>r t. (\<forall>x. r = Ret x \<longrightarrow> walked port as x t \<and> fds_run fds t = fds \<union> set (new_fds t)) \<and>
     (\<forall>f. r \<noteq> Stop (Fault f)))"
proof (induction "as" arbitrary: fds)
  case Nil
  show ?case by (simp add: io_simps walked_def)
next
  case (Cons a as)
  have one: "walked port (a # as) (Some (rv s)) [Call (Socket AF_INET SOCK_STREAM 0) s, Out m,
      Call (Connect (rv s) (Sin port (take 4 a))) c]" if "rv c = 0" for s m c
    using that by (auto simp: walked_def intro!: exI [of _ "[]"])
  show ?case
    by (auto simp: io_simps one intro!: vld_mono [OF Cons.IH] walked_Cons)
qed

subsection \<open>Properties\<close>

text \<open>
  The addresses of a host are tried in the order of the list, each once, up to the first that accepts.
  When the walk has a socket, it is that of the last address tried, the only one that accepted; when it
  has none, every address was tried and refused. The sockets of the refused addresses all stay open.
\<close>

theorem service_first_address:
  assumes "gs_walk R port addrs rs = (Ret x, t, rs')" and "conforms fds t"
  shows "(case x of
      Some sockfd \<Rightarrow> \<exists>before a rest. addrs = before @ a # rest \<and> last (new_fds t) = sockfd \<and>
        map fst (tried t) = map (\<lambda>a. Sin port (take 4 a)) (before @ [a]) \<and>
        snd (last (tried t)) = 0 \<and> 0 \<notin> snd ` set (butlast (tried t))
    | None \<Rightarrow> map fst (tried t) = map (\<lambda>a. Sin port (take 4 a)) addrs \<and> 0 \<notin> snd ` set (tried t)) \<and>
    fds_run fds t = fds \<union> set (new_fds t)"
proof -
  have "walked port addrs x t" "fds_run fds t = fds \<union> set (new_fds t)"
    using vldD [OF gs_walk_ok assms] by simp_all
  then show ?thesis by (fastforce simp: walked_def split: option.splits)
qed

definition no_names :: resolver where
  "no_names = \<lparr>gethostbyname = (\<lambda>_. None), h_error = (\<lambda>_. []), inet_aton = (\<lambda>_. None),
     getservbyname = (\<lambda>_ _. None), inet6_text = (\<lambda>_. [])\<rparr>"

theorem service_first_address_witness:
  "case gs_walk no_names [0, 80] [[10, 0, 0, 1], [10, 0, 0, 2], [10, 0, 0, 3]] [ok 3, fail ETIMEDOUT, ok 4, ok 0] of (r, t, rs) \<Rightarrow>
     conforms {0, 1, 2} t \<and> r = Ret (Some 4) \<and> fds_run {0, 1, 2} t = {0, 1, 2, 3, 4} \<and>
     map fst (tried t) = [Sin [0, 80] [10, 0, 0, 1], Sin [0, 80] [10, 0, 0, 2]]"
proof -
  let ?m = "gs_walk no_names [0, 80] [[10, 0, 0, 1], [10, 0, 0, 2], [10, 0, 0, 3]]"
  let ?rs = "[ok 3, fail ETIMEDOUT, ok 4, ok 0]"
  obtain r t rs where run: "?m ?rs = (r, t, rs)" by (cases "?m ?rs") auto
  have "case ?m ?rs of (r, t, rs) \<Rightarrow> conforms {0, 1, 2} t \<and> r = Ret (Some 4) \<and> new_fds t = [3, 4] \<and>
      map fst (tried t) = [Sin [0, 80] [10, 0, 0, 1], Sin [0, 80] [10, 0, 0, 2]]"
    by (simp add: run_simps cong: lazy)
  with run have 1: "conforms {0, 1, 2} t" "r = Ret (Some 4)" "new_fds t = [3, 4]"
      "map fst (tried t) = [Sin [0, 80] [10, 0, 0, 1], Sin [0, 80] [10, 0, 0, 2]]" by simp_all
  have "fds_run {0, 1, 2} t = {0, 1, 2} \<union> set (new_fds t)"
    using service_first_address [OF run [unfolded 1(2)] 1(1)] by blast
  with 1 run show ?thesis by auto
qed

text \<open>The text of an IPv4 address fits in \<open>INET_ADDRSTRLEN\<close> bytes with its NUL.\<close>

lemma byte_text: "length (dec (unat (b :: byte))) \<le> 3"
  using unsigned_less [of b, where 'a = nat] by (intro length_dec) simp_all

lemma dotted_fits: "length a = 4 \<Longrightarrow> length (dotted a) < INET_ADDRSTRLEN"
  using byte_text [of "a ! 0"] byte_text [of "a ! 1"] byte_text [of "a ! 2"] byte_text [of "a ! 3"]
  by (auto simp: INET_ADDRSTRLEN_def length_Suc_conv numeral_eq_Suc)

lemma dotted_no_NUL: "NUL \<notin> set (dotted a)"
  by (induction a rule: dotted.induct) auto

lemma dns_walk_prints:
  assumes "length ipstr = INET_ADDRSTRLEN" and "\<forall>e \<in> set es. length (sin_addr (ai_addr e)) = 4"
  shows "\<exists>b. dns_walk R ipstr es rs = (Ret b, map (\<lambda>e. Out (dotted (sin_addr (ai_addr e)) @ [LF])) es, rs)"
  using assms
proof (induction es arbitrary: ipstr)
  case Nil
  show ?case by (simp add: ret_def)
next
  case (Cons e es)
  let ?s = "dotted (sin_addr (ai_addr e))"
  let ?b = "?s @ NUL # drop (Suc (length ?s)) ipstr"
  have lt: "length ?s < INET_ADDRSTRLEN" using Cons.prems(2) by (intro dotted_fits) simp
  then have "length ?b = INET_ADDRSTRLEN" using Cons.prems(1) by simp
  from Cons.IH [OF this] Cons.prems(2) obtain b' where
    "dns_walk R ?b es rs = (Ret b', map (\<lambda>e. Out (dotted (sin_addr (ai_addr e)) @ [LF])) es, rs)" by auto
  with lt Cons.prems(2) show ?case
    by (simp add: inet_ntop_def Let_def run_ops run_print tell_def dotted_no_NUL)
qed

text \<open>
  The lookup of \<open>dns.c\<close> prints every address of the answer once, in the order of the list, in the dotted
  form, which always fits its array of 16 bytes; it then frees the list and exits with success.
\<close>

theorem dns_prints_addresses:
  assumes "rv g = 0" and "\<forall>e \<in> set (ais g). length (sin_addr (ai_addr e)) = 4" and "length junk = INET_ADDRSTRLEN"
  shows "dns_main R gai junk [name, host] (g # f # rs) =
    (Stop (Exit 0), Call (Getaddrinfo (Some host) None False AF_INET SOCK_STREAM) g #
       map (\<lambda>e. Out (dotted (sin_addr (ai_addr e)) @ [LF])) (ais g) @ [Call Freeaddrinfo f], rs)"
proof -
  obtain b where "dns_walk R junk (ais g) (f # rs) =
      (Ret b, map (\<lambda>e. Out (dotted (sin_addr (ai_addr e)) @ [LF])) (ais g), f # rs)"
    using dns_walk_prints [OF assms(3,2)] by blast
  with assms(1) show ?thesis by (simp add: dns_main_def run_ops bnd_def)
qed

definition an_entry :: addrinfo where
  "an_entry = \<lparr>ai_family = AF_INET, ai_socktype = SOCK_STREAM, ai_protocol = 6, ai_addr = Sin [0, 0] [255, 255, 255, 255]\<rparr>"

theorem dns_prints_addresses_witness:
  "dns_main no_names (\<lambda>_. []) (zeros 16) [''dns'', ''x''] [(ok 0)\<lparr>ais := [an_entry]\<rparr>, ok 0] =
    (Stop (Exit 0), [Call (Getaddrinfo (Some ''x'') None False AF_INET SOCK_STREAM) ((ok 0)\<lparr>ais := [an_entry]\<rparr>),
       Out (''255.255.255.255'' @ [LF]), Call Freeaddrinfo (ok 0)], [])"
  using dns_prints_addresses [of "(ok 0)\<lparr>ais := [an_entry]\<rparr>" "zeros 16" no_names "\<lambda>_. []" "''dns''" "''x''" "ok 0" "[]"]
  by (simp add: ok_def an_entry_def INET_ADDRSTRLEN_def dec.simps digit_run)

end
