(* ===== verification/Timeouts.thy ===== *)
theory Timeouts
  imports Eval
begin

text \<open>
  \<open>C/advio.c\<close>: a \<open>connect\<close> that an alarm interrupts, a wait for a descriptor with a time limit, and a client
  for datagrams in the two variants that compile.
\<close>

definition ADV_BUF_SIZE :: nat where "ADV_BUF_SIZE = 256"

definition connect_alarm :: "unit io" where
  "connect_alarm = printf (''connect_alarm.'' @ [LF]) (ret ())"

definition sig_alrm :: "unit io" where
  "sig_alrm = printf (''sig_alrm.'' @ [LF]) (ret ())"

text \<open>
  The result is what the function returns, with \<open>errno\<close> after it. \<open>handler_of\<close> reads the handler before from
  the reply of \<open>signal\<close>. \<open>errno\<close> is tested after \<open>close\<close>, which sets it only when it fails.
\<close>

definition connect_timeout :: "(reply \<Rightarrow> handler) \<Rightarrow> int \<Rightarrow> sockaddr \<Rightarrow> int \<Rightarrow> (int \<times> errno) io" where
  "connect_timeout handler_of sockfd sa nsec =
     sys (Signal SIGALRM (Handler ''connect_alarm'')) (\<lambda>old.
       if rv old = - 1 then perror ''signal'' (exit 1)
       else sys (Alarm nsec) (\<lambda>left.
         says (if rv left \<noteq> 0 then [''alarm was already set.'' @ [LF]] else [])
         (sys (Connect sockfd sa) (\<lambda>n.
           let off = (\<lambda>e. sys (Alarm 0) (\<lambda>_. sys (Signal SIGALRM (handler_of old)) (\<lambda>_. ret (rv n, e))))
           in if rv n < 0 then
                sys (Close sockfd) (\<lambda>c.
                let e = (if rv c = 0 then en n else en c)
                in off (if e = EINTR then ETIMEDOUT else e))
              else off (en n)))))"

definition readable_timeout :: "int \<Rightarrow> int \<Rightarrow> int io" where
  "readable_timeout fd sec =
     fd_set fd {} (\<lambda>rset. sys (Select_tv (fd + 1) rset {} sec) (\<lambda>a. ret (rv a)))"

text \<open>
  \<open>while (fgets(...) < 0)\<close>: a pointer is an unsigned number and never below null. Two of the four variants of
  the body compile: that without a macro, and that of \<open>USE_SELECT\<close>, which hands \<open>recvfrom\<close> the function of
  that name for a buffer. \<open>sendto\<close> sends the whole array.
\<close>

definition adv_dg_wait :: "int \<Rightarrow> buf \<Rightarrow> buf io" where
  "adv_dg_wait sockfd recvline =
     bnd (readable_timeout sockfd 5) (\<lambda>v.
       if v = 0 then eprintf (''socket timeout'' @ [LF]) (ret recvline)
       else sys (Recvfrom sockfd ADV_BUF_SIZE) (\<lambda>n.
         if dat n \<noteq> [] then fault Overflow
         else arr_set recvline (rv n) NUL (\<lambda>rl. with_cstr rl (\<lambda>s. printf s (ret rl)))))"

definition adv_dg_body :: "bool \<Rightarrow> int \<Rightarrow> sockaddr \<Rightarrow> buf \<times> buf \<Rightarrow> (buf \<times> buf + unit) io" where
  "adv_dg_body use_select sockfd sa = (\<lambda>(sendline, recvline).
     sys (Fgets (ADV_BUF_SIZE + 1)) (\<lambda>g.
     fits (if rv g = 0 then Some sendline else put_cstr 0 (dat g) sendline) (\<lambda>sl.
     if \<not> nat (rv g) < 0 then ret (Inr ())
     else sys (Sendto sockfd sl sa) (\<lambda>_.
       if use_select then bnd (adv_dg_wait sockfd recvline) (\<lambda>rl. ret (Inl (sl, rl)))
       else ret (Inl (sl, recvline))))))"

definition adv_dg_cli :: "bool \<Rightarrow> int \<Rightarrow> sockaddr \<Rightarrow> unit io" where
  "adv_dg_cli use_select sockfd sa =
     loop (adv_dg_body use_select sockfd sa) (zeros (ADV_BUF_SIZE + 1), zeros (ADV_BUF_SIZE + 1))"

text \<open>In either variant one line is read and nothing is ever sent.\<close>

lemma adv_dg_cli_sends_nothing:
  assumes "adv_dg_cli use_select sockfd sa rs = (r, t, rs')" and "conforms fds t"
  shows "r = Stop Blocked \<and> t = [] \<or> r = Ret () \<and> (\<exists>g. t = [Call (Fgets (ADV_BUF_SIZE + 1)) g])"
  using assms
  by (cases rs)
     (auto simp: adv_dg_cli_def adv_dg_body_def loop.simps sys_def fits_def ret_def stop_def put_cstr_None sys_ok_def
       split: if_splits option.splits)

subsection \<open>Properties\<close>

text \<open>What \<open>connect_timeout\<close> leaves: the alarm off, the handler of before, and the socket only if it is connected.\<close>

definition told_errno :: "int \<Rightarrow> sockaddr \<Rightarrow> int \<Rightarrow> errno \<Rightarrow> event list \<Rightarrow> bool" where
  "told_errno sockfd sa n e t \<longleftrightarrow>
     (\<exists>a. Call (Connect sockfd sa) a \<in> set t \<and> n = rv a \<and>
       (n < 0 \<longrightarrow> (\<exists>c. Call (Close sockfd) c \<in> set t \<and>
         e = (let e0 = (if rv c = 0 then en a else en c) in if e0 = EINTR then ETIMEDOUT else e0))))"

lemma connect_timeout_ok:
  "vld fds (connect_timeout handler_of sockfd sa nsec) (\<lambda>r t. sockfd \<in> fds \<longrightarrow> (\<forall>n e. r = Ret (n, e) \<longrightarrow>
     (\<exists>h old x y. t = h @ [Call (Alarm 0) x, Call (Signal SIGALRM (handler_of old)) y] \<and>
        hd h = Call (Signal SIGALRM (Handler ''connect_alarm'')) old \<and> 0 < length h) \<and>
     fds_run fds t = (if n < 0 then fds - {sockfd} else fds) \<and> told_errno sockfd sa n e t))"
  unfolding connect_timeout_def Let_def told_errno_def
  by (auto simp: io_simps sys_ok_def intro!: exI [where x = "a # b" for a b])

lemma card_one: "R \<subseteq> {fd} \<Longrightarrow> card R = (if fd \<in> R then 1 else 0)"
  by (auto simp: subset_singleton_iff)

lemma readable_timeout_ok:
  "vld fds (readable_timeout fd sec) (\<lambda>r t. \<forall>v. r = Ret v \<longrightarrow>
     (\<exists>a. t = [Call (Select_tv (fd + 1) {fd} {} sec) a] \<and> v = rv a \<and> (v = - 1 \<or> v = (if fd \<in> rset a then 1 else 0))))"
  by (auto simp: readable_timeout_def io_simps sys_ok_def card_one)

text \<open>
  C39: \<open>connect_timeout\<close> cleans up on every return. The last two things it does are to turn the alarm off and to
  put back the handler that \<open>signal\<close> replaced at its start. When it returns an error it has closed the
  socket, and \<open>errno\<close> tells why \<open>connect\<close> (or, if that failed too, \<open>close\<close>) failed, but \<open>ETIMEDOUT\<close> where that
  was \<open>EINTR\<close>: a \<open>connect\<close> that the alarm interrupted is told as a timeout. When it
  succeeds the process has the descriptors of before. And \<open>readable_timeout\<close> says 1 exactly when \<open>select\<close>
  has found the descriptor readable, 0 when it has not, -1 on an error.
\<close>

theorem timeouts_clean_up:
  assumes "conforms fds t" and "sockfd \<in> fds"
  shows "(connect_timeout handler_of sockfd sa nsec rs = (Ret (n, e), t, rs') \<longrightarrow>
      (\<exists>h old x y. t = h @ [Call (Alarm 0) x, Call (Signal SIGALRM (handler_of old)) y] \<and>
        hd h = Call (Signal SIGALRM (Handler ''connect_alarm'')) old \<and> 0 < length h) \<and>
      fds_run fds t = (if n < 0 then fds - {sockfd} else fds) \<and>
      (\<exists>a. Call (Connect sockfd sa) a \<in> set t \<and> n = rv a \<and>
        (n < 0 \<longrightarrow> (\<exists>c. Call (Close sockfd) c \<in> set t \<and>
          e = (let e0 = (if rv c = 0 then en a else en c) in if e0 = EINTR then ETIMEDOUT else e0))))) \<and>
    (readable_timeout sockfd sec rs = (Ret v, t, rs') \<longrightarrow>
      (\<exists>a. t = [Call (Select_tv (sockfd + 1) {sockfd} {} sec) a] \<and> v = rv a \<and>
        (v = - 1 \<or> v = (if sockfd \<in> rset a then 1 else 0))))"
proof (intro conjI impI)
  show "\<exists>h old x y. t = h @ [Call (Alarm 0) x, Call (Signal SIGALRM (handler_of old)) y] \<and>
      hd h = Call (Signal SIGALRM (Handler ''connect_alarm'')) old \<and> 0 < length h"
    and "fds_run fds t = (if n < 0 then fds - {sockfd} else fds)" and
    "\<exists>a. Call (Connect sockfd sa) a \<in> set t \<and> n = rv a \<and>
        (n < 0 \<longrightarrow> (\<exists>c. Call (Close sockfd) c \<in> set t \<and>
          e = (let e0 = (if rv c = 0 then en a else en c) in if e0 = EINTR then ETIMEDOUT else e0)))"
    if "connect_timeout handler_of sockfd sa nsec rs = (Ret (n, e), t, rs')"
    using vldD [OF connect_timeout_ok that assms(1)] assms(2) unfolding told_errno_def by blast+
  show "\<exists>a. t = [Call (Select_tv (sockfd + 1) {sockfd} {} sec) a] \<and> v = rv a \<and>
        (v = - 1 \<or> v = (if sockfd \<in> rset a then 1 else 0))"
    if run: "readable_timeout sockfd sec rs = (Ret v, t, rs')"
    using vldD [of fds "readable_timeout sockfd sec", OF readable_timeout_ok run assms(1)] by simp
qed

theorem timeouts_clean_up_witness:
  "case connect_timeout (\<lambda>_. SIG_DFL) 3 (Sin [0, 80] [10, 0, 0, 1]) 5 [ok 0, ok 0, fail EINTR, ok 0, ok 0, ok 0] of (r, t, rs) \<Rightarrow>
     conforms {0, 1, 2, 3} t \<and> r = Ret (- 1, ETIMEDOUT) \<and> fds_run {0, 1, 2, 3} t = {0, 1, 2}"
proof -
  let ?m = "connect_timeout (\<lambda>_. SIG_DFL) 3 (Sin [0, 80] [10, 0, 0, 1]) 5"
  let ?rs = "[ok 0, ok 0, fail EINTR, ok 0, ok 0, ok 0]"
  obtain r t rs where run: "?m ?rs = (r, t, rs)" by (cases "?m ?rs") auto
  have "case ?m ?rs of (r, t, rs) \<Rightarrow> conforms {0, 1, 2, 3} t \<and> r = Ret (- 1, ETIMEDOUT)"
    by (simp add: run_simps connect_timeout_def cong: lazy)
  with run have 1: "conforms {0, 1, 2, 3} t" "r = Ret (- 1, ETIMEDOUT)" by simp_all
  have mem: "3 \<in> {0, 1, 2, 3 :: int}" by simp
  have "fds_run {0, 1, 2, 3} t = (if - 1 < (0 :: int) then {0, 1, 2, 3} - {3} else {0, 1, 2, 3})"
    by (rule timeouts_clean_up [OF 1(1) mem, THEN conjunct1, THEN mp, THEN conjunct2, THEN conjunct1])
       (rule run [unfolded 1(2)])
  moreover have "{0, 1, 2, 3} - {3 :: int} = {0, 1, 2}" by auto
  ultimately have "fds_run {0, 1, 2, 3} t = {0, 1, 2}" by simp
  with 1 show ?thesis by (simp only: run prod.case simp_thms)
qed

end
