(* ===== verification/Fd_Passing.thy ===== *)
theory Fd_Passing
  imports Datagram
begin

text \<open>
  Passing a descriptor between processes: \<open>C/mycat.c\<close> forks a child that becomes \<open>C/openfile.c\<close>, which opens
  a file and sends the descriptor back over a local socket; an error comes back as the exit status. Also
  \<open>C/unixbind.c\<close>, which binds a local socket to a name.
\<close>

definition PASS_BUF_SIZE :: nat where "PASS_BUF_SIZE = 256"
definition SOL_SOCKET :: int where "SOL_SOCKET = 1"
definition SCM_RIGHTS :: int where "SCM_RIGHTS = 1"
definition EXIT_FAILURE :: int where "EXIT_FAILURE = 1"

subsection \<open>The process that opens\<close>

definition SEND_TEXT :: string where "SEND_TEXT = ''hellowrold''"

definition write_fd :: "int \<Rightarrow> string \<Rightarrow> int \<Rightarrow> (int \<times> errno) io" where
  "write_fd fd bs sendfd = sys (Sendmsg fd bs sendfd) (\<lambda>a. ret (rv a, en a))"

text \<open>\<open>exit(errno > 0 ? errno : 255)\<close>, where \<open>num_of\<close> gives the number of an error.\<close>

definition errno_status :: "(errno \<Rightarrow> int) \<Rightarrow> errno \<Rightarrow> int" where
  "errno_status num_of e = (if num_of e > 0 then num_of e else 255)"

definition openfile_main :: "(errno \<Rightarrow> int) \<Rightarrow> string list \<Rightarrow> unit io" where
  "openfile_main num_of argv =
     (if length argv \<noteq> 4 then
        arr_get argv 0 (\<lambda>name. printf (''USAGE : '' @ name @ '' <sockfd> <filename> <mode>'' @ [LF]) (exit EXIT_FAILURE))
      else sys (Open (argv ! 2) (word_of_int (atoi (argv ! 3)))) (\<lambda>fd.
        if rv fd < 0 then perror ''open'' (exit (errno_status num_of (en fd)))
        else
          printf (''<recv> '' @ argv ! 0 @ '' '' @ argv ! 1 @ '' '' @ argv ! 2 @ '' '' @ argv ! 3 @ [LF])
          (printf (''<send> '' @ SEND_TEXT @ '' '' @ show_int (rv fd) @ [LF])
          (bnd (write_fd (atoi (argv ! 1)) SEND_TEXT (rv fd)) (\<lambda>(n, e).
            if n < 0 then perror ''write_fd'' (exit (errno_status num_of e)) else exit 0)))))"

subsection \<open>The process that reads\<close>

text \<open>
  \<open>read_fd\<close> returns the count, the bytes and \<open>*recvfd\<close>, which it leaves as it was when \<open>recvmsg\<close> fails. The
  level and the type of the control message are \<open>pair\<close>, its descriptor is \<open>num\<close>, -1 when there is none.
\<close>

definition read_fd :: "int \<Rightarrow> nat \<Rightarrow> int \<Rightarrow> (int \<times> string \<times> int) io" where
  "read_fd fd nbytes recvfd =
     sys (Recvmsg fd nbytes) (\<lambda>n.
       if rv n \<le> 0 then perror ''recvmsg'' (ret (rv n, [], recvfd))
       else if num n \<noteq> - 1 then
         (if fst (pair n) \<noteq> SOL_SOCKET then printf ''SOL_SOCKET != cmptr->cmsg_level'' (exit EXIT_FAILURE)
          else if snd (pair n) \<noteq> SCM_RIGHTS then printf ''SCM_RIGHTS != cmptr->cmsg_type'' (exit EXIT_FAILURE)
          else ret (rv n, dat n, num n))
       else ret (rv n, dat n, - 1))"

text \<open>The status of a process that ended, as \<open>waitpid\<close> gives it.\<close>

definition WIFEXITED :: "int \<Rightarrow> bool" where "WIFEXITED status \<longleftrightarrow> status mod 128 = 0"
definition WEXITSTATUS :: "int \<Rightarrow> int" where "WEXITSTATUS status = (status div 256) mod 256"

text \<open>\<open>snprintf\<close> of a number into an array of 10.\<close>

definition arg_int :: "int \<Rightarrow> string" where
  "arg_int v = take 9 (show_int v)"

text \<open>
  \<open>my_open\<close> returns the descriptor, with the number it put into \<open>errno\<close> if it did. \<open>junk_fd\<close> is what \<open>fd\<close> holds
  at the start.
\<close>

definition my_open :: "int \<Rightarrow> string \<Rightarrow> int \<Rightarrow> (int \<times> int option) io" where
  "my_open junk_fd pathname mode =
     sys (Socketpair AF_LOCAL SOCK_STREAM 0) (\<lambda>p.
       if rv p < 0 then perror ''socketpair'' (exit EXIT_FAILURE)
       else let s0 = fst (pair p); s1 = snd (pair p)
       in sys Fork (\<lambda>pid.
         if rv pid > 0 then
           sys (Close s0) (\<lambda>_.
           sys (Waitpid (rv pid) False) (\<lambda>w.
             if rv w < 0 then perror ''waitpid'' (exit EXIT_FAILURE)
             else if \<not> WIFEXITED (num w) then printf (''child did not terminate'' @ [LF]) (exit EXIT_FAILURE)
             else if WEXITSTATUS (num w) = 0 then
               bnd (read_fd s1 PASS_BUF_SIZE junk_fd) (\<lambda>(n, bs, fd).
               fits (store 0 bs (zeros PASS_BUF_SIZE)) (\<lambda>recv_buf.
               with_cstr recv_buf (\<lambda>s.
               printf (''sockfd[1] = '' @ show_int s1 @ '', recv_buf = '' @ s @ '', fd = '' @ show_int fd @ ''.'' @ [LF])
               (sys (Close s1) (\<lambda>_. ret (fd, None))))))
             else sys (Close s1) (\<lambda>_. ret (- 1, Some (WEXITSTATUS (num w))))))
         else if rv pid = 0 then
           sys (Close s1) (\<lambda>_.
           sys (Execl ''./openfile'' [''openfile'', arg_int s0, pathname, arg_int mode]) (\<lambda>_.
           printf (''execl error'' @ [LF]) (exit EXIT_FAILURE)))
         else perror ''fork'' (exit EXIT_FAILURE)))"

definition cat_body :: "int \<Rightarrow> buf \<Rightarrow> (buf + unit) io" where
  "cat_body fd buff =
     sys (Read fd PASS_BUF_SIZE) (\<lambda>n.
       if rv n > 0 then
         fits (store 0 (dat n) buff) (\<lambda>b. sys (Write 1 (take (nat (rv n)) b)) (\<lambda>_. ret (Inl b)))
       else ret (Inr ()))"

definition mycat_main :: "int \<Rightarrow> buf \<Rightarrow> string list \<Rightarrow> unit io" where
  "mycat_main junk_fd junk_buff argv =
     (if length argv \<noteq> 2 then
        arr_get argv 0 (\<lambda>name. printf (''USAGE : '' @ name @ '' <pathname>'' @ [LF]) (exit EXIT_FAILURE))
      else bnd (my_open junk_fd (argv ! 1) 0) (\<lambda>(fd, e).
        if fd < 0 then perror ''my_open'' (exit EXIT_FAILURE)
        else bnd (loop (cat_body fd) junk_buff) (\<lambda>_. exit 0)))"

subsection \<open>A name for a socket\<close>

text \<open>
  \<open>strncpy\<close> takes 107 characters of the name into the cleared \<open>sun_path\<close>; \<open>unlink\<close> got the whole name. The
  program ends with failure in any case.
\<close>

definition unixbind_main :: "string list \<Rightarrow> unit io" where
  "unixbind_main argv =
     (if length argv \<noteq> 2 then
        arr_get argv 0 (\<lambda>name. printf (''USAGE : '' @ name @ '' <pathname>'' @ [LF]) (exit EXIT_FAILURE))
      else sys (Socket AF_LOCAL SOCK_STREAM 0) (\<lambda>s.
        if rv s < 0 then perror ''socket'' (exit EXIT_FAILURE)
        else sys (Unlink (argv ! 1)) (\<lambda>_.
          sys (Bind (rv s) (Sun (take (SUN_SIZE - 3) (argv ! 1)))) (\<lambda>b.
            if rv b < 0 then perror ''bind'' (exit EXIT_FAILURE)
            else sys (Getsockname (rv s)) (\<lambda>g.
              if rv g < 0 then perror ''getsockname'' (exit EXIT_FAILURE)
              else printf (''bound name = '' @ cstr (name_bytes (peer g)) @ '', returned len = '' @
                  show_int (int (name_len (peer g))) @ [LF]) (exit EXIT_FAILURE))))))"

subsection \<open>What they do\<close>

text \<open>The error of the \<open>open\<close> or \<open>sendmsg\<close> that failed, and whether a descriptor was sent.\<close>

fun pass_errors :: "event list \<Rightarrow> errno list" where
  "pass_errors [] = []"
| "pass_errors (Call (File (OPEN p f)) a # t) = (if rv a < 0 then en a # pass_errors t else pass_errors t)"
| "pass_errors (Call (Transfer fd (SENDMSG bs s)) a # t) = (if rv a < 0 then en a # pass_errors t else pass_errors t)"
| "pass_errors (_ # t) = pass_errors t"

fun sends_fd :: "event \<Rightarrow> bool" where
  "sends_fd (Call (Transfer fd (SENDMSG bs s)) a) \<longleftrightarrow> 0 \<le> rv a"
| "sends_fd _ \<longleftrightarrow> False"

lemma openfile_ok:
  assumes "length argv = 4"
  shows "vld fds (openfile_main num_of argv) (\<lambda>r t. \<forall>code. r = Stop (Exit code) \<longrightarrow>
    (pass_errors t = [] \<and> code = 0 \<and> list_ex sends_fd t \<or>
     (\<exists>e. pass_errors t = [e] \<and> code = errno_status num_of e)))"
  using assms by (auto simp: openfile_main_def write_fd_def io_simps)

text \<open>
  What connects the two processes: \<open>waitpid\<close> gives the status of the child, and a descriptor that was sent
  arrives.
\<close>

fun exited :: "int \<Rightarrow> event \<Rightarrow> bool" where
  "exited status (Call (Proc (WAITPID p b)) a) \<longleftrightarrow> 0 \<le> rv a \<and> num a = 256 * status"
| "exited status _ \<longleftrightarrow> True"

fun arrives :: "event \<Rightarrow> bool" where
  "arrives (Call (Recvmsg s n) a) \<longleftrightarrow> 0 < rv a \<and> 0 \<le> num a \<and> pair a = (SOL_SOCKET, SCM_RIGHTS)"
| "arrives _ \<longleftrightarrow> True"

lemma status_simps [simp]:
  "WIFEXITED (256 * status)" "WEXITSTATUS 0 = 0" "0 \<le> status \<Longrightarrow> status < 256 \<Longrightarrow> WEXITSTATUS (256 * status) = status"
  by (simp_all add: WEXITSTATUS_def WIFEXITED_def mod_mult_left_eq [symmetric, of 256])

definition opened_as :: "int \<Rightarrow> int set \<Rightarrow> (int \<times> int option) result \<Rightarrow> event list \<Rightarrow> bool" where
  "opened_as status fds r t \<longleftrightarrow> (\<forall>fd e. r = Ret (fd, e) \<longrightarrow> list_all (exited status) t \<longrightarrow>
    (status = 0 \<longrightarrow> list_all arrives t \<longrightarrow> 0 \<le> fd \<and> fd \<notin> fds \<and> e = None \<and> fds_run fds t = insert fd fds) \<and>
    (status \<noteq> 0 \<longrightarrow> fd = - 1 \<and> e = Some status \<and> fds_run fds t = fds))"

lemma opened_as_stop [simp]: "opened_as status fds (Stop z) t"
  by (simp add: opened_as_def)

lemma pair_closed:
  assumes "p \<notin> fds" and "q \<notin> fds" and "p \<noteq> q"
  shows "insert q fds - {p} - {q} = fds"
    "f \<noteq> q \<Longrightarrow> insert f (insert q fds - {p}) - {q} = insert f fds"
    "f \<noteq> q \<Longrightarrow> insert f (fds - {p}) - {q} = insert f fds"
  using assms by auto

lemma my_open_ok:
  assumes "0 \<le> status" and "status < 256"
  shows "vld fds (my_open junk_fd path mode) (opened_as status fds)"
  using assms
  by (simp add: my_open_def read_fd_def Let_def io_simps split: prod.split)
    (intro allI impI conjI; (simp add: opened_as_def sys_ok_def)?; (elim conjE disjE)?; (auto simp: pair_closed)?)

interpretation cat: loop_contract "cat_body fd"
    "\<lambda>fds b h. length b = PASS_BUF_SIZE \<and> subseq (written 1 h) (received fd h) \<and> (full_writes h \<longrightarrow> written 1 h = received fd h)"
    "\<lambda>r h. (r = Ret () \<or> r = Stop Blocked \<or> r = Stop Diverge) \<and> subseq (written 1 h) (received fd h) \<and>
       (full_writes h \<longrightarrow> prefix (written 1 h) (received fd h) \<and> (r = Ret () \<longrightarrow> written 1 h = received fd h))" for fd
proof
  fix fds and b :: buf and h
  let ?post = "\<lambda>r h. (r = Ret () \<or> r = Stop Blocked \<or> r = Stop Diverge) \<and> subseq (written 1 h) (received fd h) \<and>
       (full_writes h \<longrightarrow> prefix (written 1 h) (received fd h) \<and> (r = Ret () \<longrightarrow> written 1 h = received fd h))"
  assume inv: "length b = PASS_BUF_SIZE \<and> subseq (written 1 h) (received fd h) \<and> (full_writes h \<longrightarrow> written 1 h = received fd h)"
  have st: "store 0 (dat n) b = Some (dat n @ drop (length (dat n)) b)"
    if "length (dat n) = nat (rv n)" "rv n \<le> int PASS_BUF_SIZE" for n :: reply
    using inv that by (simp add: store_def)
  have sub: "subseq (written 1 h @ take k xs) (received fd h @ xs)" for k xs
    using inv by (simp add: subseq_snoc)
  have sub0: "subseq (written 1 h) (received fd h @ xs)" for xs
    using sub [of 0] by simp
  show "vld fds (cat_body fd b) (\<lambda>r t. case r of
        Ret (Inl b') \<Rightarrow> length b' = PASS_BUF_SIZE \<and> subseq (written 1 (h @ t)) (received fd (h @ t)) \<and>
          (full_writes (h @ t) \<longrightarrow> written 1 (h @ t) = received fd (h @ t))
      | Ret (Inr x) \<Rightarrow> ?post (Ret x) (h @ t)
      | Stop z \<Rightarrow> ?post (Stop z) (h @ t))"
    using inv by (auto simp: cat_body_def io_simps sys_ok_def st sub sub0)
qed auto

subsection \<open>Properties\<close>

text \<open>
  C34: A descriptor passes from the child to the parent, or the error number does. Take a run of \<open>openfile\<close>
  that ends and a run of \<open>my_open\<close> that returns, such that \<open>waitpid\<close> reports the status with which the child
  ended and a descriptor that was sent arrives. If no call of the child failed, \<open>my_open\<close> returns a new
  descriptor and has nothing else open that it did not have before; if \<open>open\<close> or \<open>sendmsg\<close> failed with an
  error whose number is from 1 to 255, \<open>my_open\<close> returns -1, puts that number into \<open>errno\<close>, and has open
  exactly what it had before.
\<close>

theorem fd_or_error_passes:
  assumes child: "openfile_main num_of [name, s, path, m] rs1 = (Stop (Exit code), t1, rs1')" "conforms fds1 t1"
    and parent: "my_open junk_fd path mode rs2 = (Ret (fd, e), t2, rs2')" "conforms fds2 t2"
    and status: "list_all (exited (code mod 256)) t2"
    and message: "list_ex sends_fd t1 \<Longrightarrow> list_all arrives t2"
    and numbers: "\<forall>x. 0 < num_of x \<and> num_of x < 256"
  shows "case pass_errors t1 of
      [] \<Rightarrow> 0 \<le> fd \<and> fd \<notin> fds2 \<and> e = None \<and> fds_run fds2 t2 = insert fd fds2
    | x # xs \<Rightarrow> fd = - 1 \<and> e = Some (num_of x) \<and> fds_run fds2 t2 = fds2"
proof -
  have "opened_as (code mod 256) fds2 (Ret (fd, e)) t2"
    by (rule vldD [OF my_open_ok parent]) simp_all
  then have open_as: "(code mod 256 = 0 \<longrightarrow> list_all arrives t2 \<longrightarrow> 0 \<le> fd \<and> fd \<notin> fds2 \<and> e = None \<and> fds_run fds2 t2 = insert fd fds2) \<and>
      (code mod 256 \<noteq> 0 \<longrightarrow> fd = - 1 \<and> e = Some (code mod 256) \<and> fds_run fds2 t2 = fds2)"
    using status by (simp add: opened_as_def)
  have "pass_errors t1 = [] \<and> code = 0 \<and> list_ex sends_fd t1 \<or> (\<exists>x. pass_errors t1 = [x] \<and> code = errno_status num_of x)"
    using vldD [OF openfile_ok child] by simp
  then show ?thesis
  proof
    assume "pass_errors t1 = [] \<and> code = 0 \<and> list_ex sends_fd t1"
    with open_as message show ?thesis by simp
  next
    assume "\<exists>x. pass_errors t1 = [x] \<and> code = errno_status num_of x"
    then obtain x where x: "pass_errors t1 = [x]" "code = num_of x"
      using numbers by (auto simp: errno_status_def)
    moreover from numbers have "0 < num_of x" "num_of x < 256" by blast+
    ultimately show ?thesis using open_as by simp
  qed
qed

definition reply_pair :: reply where
  "reply_pair = (ok 0)\<lparr>pair := (4, 5)\<rparr>"

definition reply_fd :: reply where
  "reply_fd = (got SEND_TEXT)\<lparr>num := 6, pair := (SOL_SOCKET, SCM_RIGHTS)\<rparr>"

theorem fd_or_error_passes_witness:
  "(case my_open 77 ''f'' 0 [reply_pair, ok 9, ok 0, (ok 9)\<lparr>num := 0\<rparr>, reply_fd, ok 0] of (r, t, rs) \<Rightarrow>
     conforms {0, 1, 2} t \<and> r = Ret (6, None) \<and> fds_run {0, 1, 2} t = insert 6 {0, 1, 2}) \<and>
   (case my_open 77 ''f'' 0 [reply_pair, ok 9, ok 0, (ok 9)\<lparr>num := 512\<rparr>, ok 0] of (r, t, rs) \<Rightarrow>
     conforms {0, 1, 2} t \<and> r = Ret (- 1, Some 2) \<and> fds_run {0, 1, 2} t = {0, 1, 2})"
proof -
  let ?child = "openfile_main (\<lambda>_. 2) [''openfile'', ''4'', ''f'', ''0'']"
  let ?parent = "my_open 77 ''f'' 0"
  have nums: "atoi ''4'' = 4" "atoi ''0'' = 0"
    using atoi_show_int [of 4] atoi_show_int [of 0]
    by (simp_all add: show_int_def dec.simps digit_run in_int_def INT_MAX_def INT_MIN_def)
  note defs = nums run_simps openfile_main_def write_fd_def my_open_def read_fd_def reply_pair_def reply_fd_def SEND_TEXT_def
    SOL_SOCKET_def SCM_RIGHTS_def PASS_BUF_SIZE_def WIFEXITED_def WEXITSTATUS_def errno_status_def
  let ?rs1 = "[ok 3, ok 10]" and ?rs2 = "[reply_pair, ok 9, ok 0, (ok 9)\<lparr>num := 0\<rparr>, reply_fd, ok 0]"
  obtain t1 where c1: "?child ?rs1 = (Stop (Exit 0), t1, [])" "conforms {0, 1, 2, 4} t1" "pass_errors t1 = []"
    by (simp add: defs cong: lazy)
  obtain t2 where p1: "?parent ?rs2 = (Ret (6, None), t2, [])" "conforms {0, 1, 2} t2" "list_all (exited 0) t2"
      "list_all arrives t2"
    by (simp add: defs cong: lazy)
  have "0 \<le> (6 :: int) \<and> 6 \<notin> {0, 1, 2 :: int} \<and> None = (None :: int option) \<and> fds_run {0, 1, 2} t2 = insert 6 {0, 1, 2}"
    using fd_or_error_passes [OF c1(1,2) p1(1,2)] c1(3) p1(3,4) by simp
  with p1 have "case ?parent ?rs2 of (r, t, rs) \<Rightarrow>
     conforms {0, 1, 2} t \<and> r = Ret (6, None) \<and> fds_run {0, 1, 2} t = insert 6 {0, 1, 2}" by simp
  moreover
  let ?rs3 = "[fail (EOTHER 2)]" and ?rs4 = "[reply_pair, ok 9, ok 0, (ok 9)\<lparr>num := 512\<rparr>, ok 0]"
  obtain t3 where c2: "?child ?rs3 = (Stop (Exit 2), t3, [])" "conforms {0, 1, 2, 4} t3" "pass_errors t3 = [EOTHER 2]"
      "\<not> list_ex sends_fd t3"
    by (simp add: defs cong: lazy)
  obtain t4 where p2: "?parent ?rs4 = (Ret (- 1, Some 2), t4, [])" "conforms {0, 1, 2} t4" "list_all (exited 2) t4"
    by (simp add: defs cong: lazy)
  have "fds_run {0, 1, 2} t4 = {0, 1, 2}"
    using fd_or_error_passes [OF c2(1,2) p2(1,2)] c2(3,4) p2(3) by simp
  with p2 have "case ?parent ?rs4 of (r, t, rs) \<Rightarrow>
     conforms {0, 1, 2} t \<and> r = Ret (- 1, Some 2) \<and> fds_run {0, 1, 2} t = {0, 1, 2}" by simp
  ultimately show ?thesis by blast
qed

text \<open>
  The loop of \<open>mycat\<close> copies the file: what it has written to standard output are bytes it read, in their
  order, and as long as every write takes all its bytes nothing is missing when it ends.
\<close>

theorem mycat_copies:
  assumes "loop (cat_body fd) junk_buff rs = (r, t, rs')" and "conforms fds t" and "length junk_buff = PASS_BUF_SIZE"
  shows "subseq (written 1 t) (received fd t) \<and> (full_writes t \<longrightarrow> prefix (written 1 t) (received fd t) \<and>
    (r = Ret () \<longrightarrow> written 1 t = received fd t))"
  using vldD [OF cat.loop_post assms(1,2)] assms(3) by simp

end
