(* ===== verification/Interfaces.thy ===== *)
theory Interfaces
  imports Lookup "HOL-Library.AList"
begin

text \<open>
  The list of the network interfaces, \<open>C/simple_interface_info.c\<close>. It is the one program that keeps linked
  structures in allocated memory, so it has a heap: blocks that can be freed, and faults for the use of a
  block that is not there any more. Sizes and offsets are those of Linux on a 64-bit machine with the
  low byte first.
\<close>

unbundle bit_operations_syntax

subsection \<open>Memory\<close>

definition IFI_NAME :: nat where "IFI_NAME = 16"
definition IFI_HADDR :: nat where "IFI_HADDR = 8"
definition SIZE_ifreq :: nat where "SIZE_ifreq = 40"
definition SIZE_sockaddr :: nat where "SIZE_sockaddr = 16"
definition SIZE_sockaddr_in6 :: nat where "SIZE_sockaddr_in6 = 28"
definition SIZE_ifi_info :: nat where "SIZE_ifi_info = 72"

definition INET :: nat where "INET = 2"
definition INET6 :: nat where "INET6 = 10"

definition IFF_UP :: "16 word" where "IFF_UP = 0x1"
definition IFF_BROADCAST :: "16 word" where "IFF_BROADCAST = 0x2"
definition IFF_LOOPBACK :: "16 word" where "IFF_LOOPBACK = 0x8"
definition IFF_POINTOPOINT :: "16 word" where "IFF_POINTOPOINT = 0x10"
definition IFF_MULTICAST :: "16 word" where "IFF_MULTICAST = 0x1000"

text \<open>Pointers are numbers, the null pointer is 0.\<close>

record ifi_info =
  ifi_name :: buf
  ifi_index :: int
  ifi_mtu :: int
  ifi_haddr :: "byte list"
  ifi_hlen :: nat
  ifi_flags :: "16 word"
  ifi_myflags :: "16 word"
  ifi_addr :: nat
  ifi_brdaddr :: nat
  ifi_dstaddr :: nat
  ifi_next :: nat

datatype block = Bytes "char list" | Ifi ifi_info

record heap =
  fresh :: nat
  blocks :: "(nat \<times> block) list"

abbreviation block_of :: "heap \<Rightarrow> nat \<Rightarrow> block option" where
  "block_of h p \<equiv> map_of (blocks h) p"

definition alloc :: "block \<Rightarrow> heap \<Rightarrow> nat \<times> heap" where
  "alloc b h = (fresh h, h\<lparr>fresh := fresh h + 1, blocks := (fresh h, b) # blocks h\<rparr>)"

definition put_block :: "nat \<Rightarrow> block \<Rightarrow> heap \<Rightarrow> heap" where
  "put_block p b h = h\<lparr>blocks := AList.update p b (blocks h)\<rparr>"

text \<open>\<open>free\<close>: nothing for the null pointer, undefined (\<open>None\<close>) for a block that is not there.\<close>

definition free :: "nat \<Rightarrow> heap \<Rightarrow> heap option" where
  "free p h =
     (if p = 0 then Some h
      else case block_of h p of None \<Rightarrow> None | Some b \<Rightarrow> Some (h\<lparr>blocks := AList.delete p (blocks h)\<rparr>))"

definition frees :: "nat \<Rightarrow> heap \<Rightarrow> (heap \<Rightarrow> 'a io) \<Rightarrow> 'a io" where
  "frees p h k = (case free p h of None \<Rightarrow> fault Freed | Some h' \<Rightarrow> k h')"

text \<open>Reading through a pointer.\<close>

definition bytes_at :: "heap \<Rightarrow> nat \<Rightarrow> (char list \<Rightarrow> 'a io) \<Rightarrow> 'a io" where
  "bytes_at h p k =
     (if p = 0 then fault Null else case block_of h p of Some (Bytes bs) \<Rightarrow> k bs | _ \<Rightarrow> fault Freed)"

definition ifi_at :: "heap \<Rightarrow> nat \<Rightarrow> (ifi_info \<Rightarrow> 'a io) \<Rightarrow> 'a io" where
  "ifi_at h p k =
     (if p = 0 then fault Null else case block_of h p of Some (Ifi i) \<Rightarrow> k i | _ \<Rightarrow> fault Freed)"

text \<open>\<open>memcpy\<close> of \<open>n\<close> bytes at an offset, and a \<open>short\<close> of two bytes.\<close>

definition copy :: "char list \<Rightarrow> nat \<Rightarrow> nat \<Rightarrow> (char list \<Rightarrow> 'a io) \<Rightarrow> 'a io" where
  "copy bs off n k = (if off + n \<le> length bs then k (take n (drop off bs)) else fault Overread)"

definition short_at :: "char list \<Rightarrow> nat \<Rightarrow> nat" where
  "short_at bs off = of_char (bs ! off) + 256 * of_char (bs ! (off + 1))"

subsection \<open>Addresses as text\<close>

text \<open>\<open>nospc\<close> is the message of \<open>ENOSPC\<close>, the error of \<open>inet_ntop\<close> when the text is too long.\<close>

definition sock_ntop_host :: "resolver \<Rightarrow> string \<Rightarrow> heap \<Rightarrow> nat \<Rightarrow> (string \<Rightarrow> 'a io) \<Rightarrow> 'a io" where
  "sock_ntop_host R nospc h sa k =
     bytes_at h sa (\<lambda>bs.
       let text = (\<lambda>fam addr. case inet_ntop R fam (map of_char addr) of
             None \<Rightarrow> printf (''inet_ntop : '' @ nospc @ [LF]) (exit 1)
           | Some s \<Rightarrow> k s)
       in copy bs 0 2 (\<lambda>f.
         if short_at f 0 = INET then printf (''AF_INET.'' @ [LF]) (copy bs 4 4 (text AF_INET))
         else if short_at f 0 = INET6 then printf (''AF_INET6.'' @ [LF]) (copy bs 8 16 (text AF_INET6))
         else printf (''unknown type.'' @ [LF]) (exit 1)))"

subsection \<open>Giving the list back\<close>

text \<open>One turn of \<open>free_ifi_info\<close>: the heap after it and the next node. None is undefined behaviour.\<close>

definition free_node :: "nat \<Rightarrow> heap \<Rightarrow> (heap \<times> nat) option" where
  "free_node p h =
     (case block_of h p of
        Some (Ifi i) \<Rightarrow>
          Option.bind (free (ifi_addr i) h) (\<lambda>h1.
          Option.bind (free (ifi_brdaddr i) h1) (\<lambda>h2.
          Option.bind (free (ifi_dstaddr i) h2) (\<lambda>h3.
          case block_of h3 p of
            Some (Ifi i') \<Rightarrow> Option.bind (free p h3) (\<lambda>h4. Some (h4, ifi_next i'))
          | _ \<Rightarrow> None)))
      | _ \<Rightarrow> None)"

lemma length_delete_less:
  "map_of xs p = Some b \<Longrightarrow> length (AList.delete p xs) < length xs"
  unfolding AList.delete_eq
  by (induction xs) (auto intro: le_imp_less_Suc)

lemma free_length: "free p h = Some h' \<Longrightarrow> length (blocks h') \<le> length (blocks h)"
  by (auto simp: free_def dest!: length_delete_less split: if_splits option.splits)

lemma free_node_length:
  assumes "0 < p" and "free_node p h = Some (h', q)"
  shows "length (blocks h') < length (blocks h)"
proof -
  obtain i where i: "block_of h p = Some (Ifi i)"
    using assms(2) by (cases "block_of h p"; cases "the (block_of h p)") (simp_all add: free_node_def)
  with assms(2) obtain h1 where 1: "free (ifi_addr i) h = Some h1"
    by (cases "free (ifi_addr i) h") (simp_all add: free_node_def)
  with assms(2) i obtain h2 where 2: "free (ifi_brdaddr i) h1 = Some h2"
    by (cases "free (ifi_brdaddr i) h1") (simp_all add: free_node_def)
  with assms(2) i 1 obtain h3 where 3: "free (ifi_dstaddr i) h2 = Some h3"
    by (cases "free (ifi_dstaddr i) h2") (simp_all add: free_node_def)
  with assms(2) i 1 2 have 4: "free p h3 = Some h'"
    by (cases "block_of h3 p"; cases "the (block_of h3 p)"; cases "free p h3") (simp_all add: free_node_def)
  from 4 have "length (blocks h') < length (blocks h3)"
    using assms(1) by (cases "block_of h3 p") (auto simp: free_def length_delete_less)
  with free_length [OF 1] free_length [OF 2] free_length [OF 3] show ?thesis by linarith
qed

function free_ifi_info :: "nat \<Rightarrow> heap \<Rightarrow> heap option" where
  "free_ifi_info ifi h =
     (if ifi = 0 then Some h
      else case free_node ifi h of None \<Rightarrow> None | Some (h', ifinext) \<Rightarrow> free_ifi_info ifinext h')"
  by pat_completeness auto
termination
  by (relation "measure (\<lambda>(p, h). length (blocks h))") (auto dest: free_node_length)

declare free_ifi_info.simps [simp del]

subsection \<open>Asking for the list\<close>

text \<open>
  The variables of the walk over the answer of \<open>SIOCGIFCONF\<close>: \<open>ptr\<close> is an offset in the block \<open>buf\<close>;
  \<open>ifipnext\<close> is the node whose \<open>ifi_next\<close> it points to, 0 while it points to \<open>ifihead\<close>.
\<close>

record ifi_vars =
  mem :: heap
  ptr :: nat
  elen :: nat
  ifihead :: nat
  ifipnext :: nat
  lastname :: buf

definition set_next :: "nat \<Rightarrow> ifi_vars \<Rightarrow> ifi_vars" where
  "set_next p w =
     (if ifipnext w = 0 then w\<lparr>ifihead := p\<rparr>
      else case block_of (mem w) (ifipnext w) of
        Some (Ifi i) \<Rightarrow> w\<lparr>mem := put_block (ifipnext w) (Ifi (i\<lparr>ifi_next := p\<rparr>)) (mem w)\<rparr>
      | _ \<Rightarrow> w)"

text \<open>\<open>strchr(name, ':')\<close> and the assignment through its result; the name must end or have a colon.\<close>

definition cut_colon :: "buf \<Rightarrow> (buf \<Rightarrow> 'a io) \<Rightarrow> 'a io" where
  "cut_colon name k =
     (let s = takeWhile (\<lambda>c. c \<noteq> NUL) name; u = takeWhile (\<lambda>c. c \<noteq> CHR '':'') name
      in if CHR '':'' \<in> set s then k (u @ NUL # drop (Suc (length u)) name)
         else if terminated name then k name else fault Overread)"

definition strncmp_0 :: "nat \<Rightarrow> buf \<Rightarrow> buf \<Rightarrow> bool" where
  "strncmp_0 n a b \<longleftrightarrow> takeWhile (\<lambda>c. c \<noteq> NUL) (take n a) = takeWhile (\<lambda>c. c \<noteq> NUL) (take n b)"

text \<open>
  An address kept in a block of its own: \<open>calloc\<close>, then \<open>memcpy\<close>, which nobody keeps from the null pointer.
\<close>

definition keep_addr :: "nat \<Rightarrow> char list \<Rightarrow> nat \<Rightarrow> heap \<Rightarrow> (nat \<Rightarrow> heap \<Rightarrow> 'a io) \<Rightarrow> 'a io" where
  "keep_addr n bs off h k =
     sys (Calloc n) (\<lambda>a.
       if rv a = 0 then fault Null
       else copy bs off n (\<lambda>sin. case alloc (Bytes sin) h of (p, h') \<Rightarrow> k p h'))"

text \<open>
  The destination address of a point-to-point interface. \<open>ifrcopy\<close> keeps its old bytes when \<open>ioctl\<close> fails.
\<close>

definition ifreq_reply :: "char list \<Rightarrow> reply \<Rightarrow> char list" where
  "ifreq_reply ifrcopy a = (if rv a < 0 then ifrcopy else take IFI_NAME ifrcopy @ dat a)"

definition keep_dstaddr :: "int \<Rightarrow> nat \<Rightarrow> char list \<Rightarrow> heap \<Rightarrow> (nat \<Rightarrow> heap \<Rightarrow> 'a io) \<Rightarrow> 'a io" where
  "keep_dstaddr sockfd n ifrcopy h k =
     sys (Ioctl_ifreq sockfd Ifr_dstaddr (take IFI_NAME ifrcopy)) (\<lambda>d.
     keep_addr n (ifreq_reply ifrcopy d) IFI_NAME h k)"

text \<open>
  The switch over the family. A broadcast address is copied to where \<open>ifi_brdaddr\<close> points, and no line
  ever makes it point anywhere.
\<close>

definition keep_addrs :: "int \<Rightarrow> nat \<Rightarrow> char list \<Rightarrow> nat \<Rightarrow> char list \<Rightarrow> 16 word \<Rightarrow> nat \<Rightarrow> ifi_info \<Rightarrow> heap \<Rightarrow> (heap \<Rightarrow> 'a io) \<Rightarrow> 'a io" where
  "keep_addrs sockfd fam bs off ifrcopy flags ifi info h k =
     (if fam = INET then
        keep_addr SIZE_sockaddr bs (off + IFI_NAME) h (\<lambda>p h1.
        if flags AND IFF_BROADCAST \<noteq> 0 then
          sys (Ioctl_ifreq sockfd Ifr_broadaddr (take IFI_NAME ifrcopy)) (\<lambda>_. fault Null)
        else if flags AND IFF_POINTOPOINT \<noteq> 0 then
          keep_dstaddr sockfd SIZE_sockaddr ifrcopy h1 (\<lambda>q h2.
          k (put_block ifi (Ifi (info\<lparr>ifi_addr := p, ifi_dstaddr := q\<rparr>)) h2))
        else k (put_block ifi (Ifi (info\<lparr>ifi_addr := p\<rparr>)) h1))
      else if fam = INET6 then
        keep_addr SIZE_sockaddr_in6 bs (off + IFI_NAME) h (\<lambda>p h1.
        if flags AND IFF_POINTOPOINT \<noteq> 0 then
          keep_dstaddr sockfd SIZE_sockaddr_in6 ifrcopy h1 (\<lambda>q h2.
          k (put_block ifi (Ifi (info\<lparr>ifi_addr := p, ifi_dstaddr := q\<rparr>)) h2))
        else k (put_block ifi (Ifi (info\<lparr>ifi_addr := p\<rparr>)) h1))
      else k (put_block ifi (Ifi info) h))"

text \<open>
  One turn of the walk. The address family decides how far \<open>ptr\<close> moves, though the structures of Linux
  all have 40 bytes. An entry of another family, an alias that is not wanted and an interface that is
  down are skipped; for any other a node is made, and then the block under \<open>ptr\<close> and the first node are
  freed. \<open>sdlname\<close> is the null pointer all the time, so \<open>ifi_index\<close> and \<open>ifi_hlen\<close> are 0 and \<open>ifi_haddr\<close> stays
  as \<open>calloc\<close> left it.
\<close>

definition ifi_turn :: "int \<Rightarrow> nat \<Rightarrow> int \<Rightarrow> nat \<Rightarrow> ifi_vars \<Rightarrow> ifi_vars io" where
  "ifi_turn sockfd family doaliases bf w =
     bytes_at (mem w) bf (\<lambda>bs.
     copy bs (ptr w + IFI_NAME) 2 (\<lambda>f.
     let fam = short_at f 0;
       len = (if fam = INET6 then SIZE_sockaddr_in6 else SIZE_sockaddr);
       w1 = w\<lparr>ptr := ptr w + IFI_NAME + len, elen := len\<rparr>
     in if fam \<noteq> family then ret w1
     else cut_colon (take IFI_NAME (drop (ptr w) bs)) (\<lambda>name.
       let bs' = take (ptr w) bs @ name @ drop (ptr w + IFI_NAME) bs;
         w2 = w1\<lparr>mem := put_block bf (Bytes bs') (mem w)\<rparr>
       in if strncmp_0 IFI_NAME (lastname w) name \<and> doaliases = 0 then ret w2
       else copy bs' (ptr w) SIZE_ifreq (\<lambda>ifr.
         sys (Ioctl_ifreq sockfd Ifr_flags name) (\<lambda>g.
         let ifrcopy = ifreq_reply ifr g;
           flags = word_of_nat (short_at ifrcopy IFI_NAME) :: 16 word;
           w3 = w2\<lparr>lastname := name\<rparr>
         in if flags AND IFF_UP = 0 then ret w3
         else sys (Calloc SIZE_ifi_info) (\<lambda>c.
           if rv c = 0 then fault Null
           else
             let info = \<lparr>ifi_name = take (IFI_NAME - 1) name @ [NUL], ifi_index = 0, ifi_mtu = 0,
                   ifi_haddr = replicate IFI_HADDR 0, ifi_hlen = 0, ifi_flags = flags, ifi_myflags = flags,
                   ifi_addr = 0, ifi_brdaddr = 0, ifi_dstaddr = 0, ifi_next = 0\<rparr>;
               (p, h3) = alloc (Ifi info) (mem w3);
               w4 = (set_next p (w3\<lparr>mem := h3\<rparr>))\<lparr>ifipnext := p\<rparr>
             in keep_addrs sockfd fam bs' (ptr w) ifrcopy flags p info (mem w4) (\<lambda>h5.
                frees bf h5 (\<lambda>h6.
                frees (ifihead w4) h6 (\<lambda>h7. ret (w4\<lparr>mem := h7\<rparr>))))))))))"

text \<open>
  The walk. Each turn moves \<open>ptr\<close> by 32 or 44, so a number of turns that is the length of the answer is
  enough (lemma \<open>ifi_walk_ends\<close>).
\<close>

fun ifi_walk :: "int \<Rightarrow> nat \<Rightarrow> int \<Rightarrow> nat \<Rightarrow> int \<Rightarrow> nat \<Rightarrow> ifi_vars \<Rightarrow> ifi_vars io" where
  "ifi_walk sockfd family doaliases bf ifc_len 0 w = ret w"
| "ifi_walk sockfd family doaliases bf ifc_len (Suc n) w =
     (if int (ptr w) < ifc_len then
        bnd (ifi_turn sockfd family doaliases bf w) (ifi_walk sockfd family doaliases bf ifc_len n)
      else ret w)"

text \<open>
  \<open>get_ifi_info\<close>. The inner \<open>break\<close> leads to the end of the function, which has no \<open>return\<close>; nothing else
  leaves the loop. \<open>(socket(\<dots>) < 0)\<close> is what \<open>sockfd\<close> is assigned: 0 after a success.
\<close>

definition ifi_body :: "int \<Rightarrow> nat \<Rightarrow> int \<Rightarrow> buf \<Rightarrow> heap \<times> nat \<times> int \<Rightarrow> (heap \<times> nat \<times> int + nat \<times> heap) io" where
  "ifi_body sockfd family doaliases junk_name = (\<lambda>(h, len, lastlen).
     sys (Malloc len) (\<lambda>m.
       if rv m = 0 then perror ''malloc'' (exit 1)
       else case alloc (Bytes (dat m)) h of (bf, h1) \<Rightarrow>
         sys (Ioctl_ifconf sockfd len) (\<lambda>c.
           let walk = (\<lambda>h2 len2 last2. bnd
             (ifi_walk sockfd family doaliases bf (num c) (nat (num c))
               \<lparr>mem = h2, ptr = 0, elen = len2, ifihead = 0, ifipnext = 0, lastname = junk_name[0 := NUL]\<rparr>)
             (\<lambda>w. ret (Inl (mem w, elen w, last2))))
           in if rv c < 0 then
             (if en c \<noteq> EINVAL \<or> lastlen \<noteq> 0 then perror ''ioctl'' (exit 1)
              else if num c = lastlen then fault No_value
              else frees bf h1 (\<lambda>h2. walk h2 (len + 10 * SIZE_ifreq) (num c)))
           else walk (put_block bf (Bytes (dat c @ drop (length (dat c)) (dat m))) h1) len lastlen)))"

definition get_ifi_info :: "nat \<Rightarrow> int \<Rightarrow> buf \<Rightarrow> heap \<Rightarrow> (nat \<times> heap) io" where
  "get_ifi_info family doaliases junk_name h =
     sys (Socket AF_INET SOCK_DGRAM 0) (\<lambda>s.
       let sockfd = (if rv s < 0 then 1 else 0)
       in if sockfd \<noteq> 0 then perror ''socket'' (exit 1)
          else loop (ifi_body sockfd family doaliases junk_name) (h, 100 * SIZE_ifreq, 0))"

subsection \<open>Showing it\<close>

definition hex_digit :: "nat \<Rightarrow> char" where
  "hex_digit n = (if n < 10 then digit n else char_of (87 + n))"

definition hex_byte :: "byte \<Rightarrow> string" where
  "hex_byte b = (if b < 16 then [hex_digit (unat b)] else [hex_digit (unat b div 16), hex_digit (unat b mod 16)])"

definition ifi_flag_names :: "16 word \<Rightarrow> string list" where
  "ifi_flag_names flags =
     map snd (filter (\<lambda>(f, s). flags AND f \<noteq> 0)
       [(IFF_UP, ''UP ''), (IFF_BROADCAST, ''BCAST ''), (IFF_MULTICAST, ''MCAST ''), (IFF_LOOPBACK, ''LOOP ''),
        (IFF_POINTOPOINT, ''P2P '')])"

definition show_addr :: "resolver \<Rightarrow> string \<Rightarrow> heap \<Rightarrow> string \<Rightarrow> nat \<Rightarrow> 'a io \<Rightarrow> 'a io" where
  "show_addr R nospc h label sa k =
     (if sa = 0 then k
      else sock_ntop_host R nospc h sa (\<lambda>s. printf (''   '' @ label @ '' addr: '' @ s @ [LF]) k))"

definition show_ifi :: "resolver \<Rightarrow> string \<Rightarrow> heap \<Rightarrow> ifi_info \<Rightarrow> 'a io \<Rightarrow> 'a io" where
  "show_ifi R nospc h i k =
     with_cstr (ifi_name i) (\<lambda>name.
     says ([name @ '': ''] @ (if ifi_index i \<noteq> 0 then [''('' @ show_int (ifi_index i) @ '') ''] else []) @
       [''<''] @ ifi_flag_names (ifi_flags i) @ [''>'' @ [LF]])
     (if ifi_hlen i \<le> length (ifi_haddr i) then
        says (map (\<lambda>n. (if n = 0 then ''   '' else '':'') @ hex_byte (ifi_haddr i ! n)) [0..<ifi_hlen i] @ [[LF]] @
          (if ifi_mtu i \<noteq> 0 then [''   MTU: '' @ show_int (ifi_mtu i) @ [LF]] else []))
        (show_addr R nospc h ''IP'' (ifi_addr i)
        (show_addr R nospc h ''broadcast'' (ifi_brdaddr i)
        (show_addr R nospc h ''destination'' (ifi_dstaddr i) k)))
      else fault Overread))"

text \<open>
  The loop of \<open>main\<close>. A list has no more nodes than the heap has blocks; one that goes on after so many turns
  goes in a circle.
\<close>

fun show_list :: "resolver \<Rightarrow> string \<Rightarrow> heap \<Rightarrow> nat \<Rightarrow> nat \<Rightarrow> unit io" where
  "show_list R nospc h 0 ifi = stop Diverge"
| "show_list R nospc h (Suc n) ifi =
     (if ifi = 0 then ret ()
      else ifi_at h ifi (\<lambda>i. show_ifi R nospc h i (show_list R nospc h n (ifi_next i))))"

definition ifi_main :: "resolver \<Rightarrow> string \<Rightarrow> buf \<Rightarrow> string list \<Rightarrow> unit io" where
  "ifi_main R nospc junk_name argv =
     (let list = (\<lambda>family. bnd (get_ifi_info family (atoi (argv ! 2)) junk_name \<lparr>fresh = 1, blocks = []\<rparr>)
            (\<lambda>(ifihead, h). bnd (show_list R nospc h (Suc (length (blocks h))) ifihead)
              (\<lambda>_. case free_ifi_info ifihead h of None \<Rightarrow> fault Freed | Some h' \<Rightarrow> exit 0)))
      in if length argv \<noteq> 3 then
           arr_get argv 0 (\<lambda>name. printf (''USAGE : '' @ name @ '' <inet4|inet6> <doaliases>'' @ [LF]) (exit 1))
         else if argv ! 1 = ''inet4'' then list INET
         else if argv ! 1 = ''inet6'' then list INET6
         else printf (''invalid address family'' @ [LF]) (exit 1))"

subsection \<open>Lists in the heap\<close>

text \<open>The nodes of the list at a pointer, and the blocks that belong to them, as \<open>free_ifi_info\<close> finds them.\<close>

fun ifi_list :: "heap \<Rightarrow> nat \<Rightarrow> (nat \<times> ifi_info) list \<Rightarrow> bool" where
  "ifi_list h p [] \<longleftrightarrow> p = 0"
| "ifi_list h p ((a, i) # as) \<longleftrightarrow> p = a \<and> 0 < a \<and> block_of h a = Some (Ifi i) \<and> ifi_list h (ifi_next i) as"

definition node_blocks :: "nat \<times> ifi_info \<Rightarrow> nat list" where
  "node_blocks = (\<lambda>(a, i). filter (\<lambda>p. 0 < p) [ifi_addr i, ifi_brdaddr i, ifi_dstaddr i] @ [a])"

definition list_blocks :: "(nat \<times> ifi_info) list \<Rightarrow> nat list" where
  "list_blocks as = concat (map node_blocks as)"

definition without :: "nat set \<Rightarrow> heap \<Rightarrow> heap \<Rightarrow> bool" where
  "without A h h' \<longleftrightarrow> block_of h' = block_of h |` (- A)"

lemma map_of_delete: "map_of (AList.delete p xs) = (map_of xs)(p := None)"
  by (rule AList.delete_conv')

lemma free_block:
  assumes "p = 0 \<or> block_of h p \<noteq> None"
  shows "\<exists>h'. free p h = Some h' \<and> without (if p = 0 then {} else {p}) h h'"
  using assms by (auto simp: free_def without_def map_of_delete restrict_map_def fun_eq_iff split: option.split)

lemma without_trans: "without A h h1 \<Longrightarrow> without B h1 h2 \<Longrightarrow> without (A \<union> B) h h2"
  by (auto simp: without_def restrict_map_def fun_eq_iff)

lemma without_other: "without A h h' \<Longrightarrow> p \<notin> A \<Longrightarrow> block_of h' p = block_of h p"
  by (simp add: without_def)

lemma ifi_list_without: "without A h h' \<Longrightarrow> A \<inter> fst ` set as = {} \<Longrightarrow> ifi_list h p as \<Longrightarrow> ifi_list h' p as"
  by (induction h p as rule: ifi_list.induct) (auto simp: without_other)

lemma free_node_list:
  assumes "block_of h a = Some (Ifi i)" and "0 < a" and "distinct (node_blocks (a, i))"
    and "\<forall>p \<in> set (node_blocks (a, i)). block_of h p \<noteq> None"
  shows "\<exists>h'. free_node a h = Some (h', ifi_next i) \<and> without (set (node_blocks (a, i))) h h'"
proof -
  let ?g = "\<lambda>p. if p = 0 then {} else {p}"
  note d = assms(3,4) [unfolded node_blocks_def]
  obtain h1 where 1: "free (ifi_addr i) h = Some h1" "without (?g (ifi_addr i)) h h1"
    using free_block [of "ifi_addr i" h] d by fastforce
  obtain h2 where 2: "free (ifi_brdaddr i) h1 = Some h2" "without (?g (ifi_brdaddr i)) h1 h2"
    using free_block [of "ifi_brdaddr i" h1] d without_other [OF 1(2), of "ifi_brdaddr i"]
    by (fastforce split: if_splits)
  note 12 = without_trans [OF 1(2) 2(2)]
  obtain h3 where 3: "free (ifi_dstaddr i) h2 = Some h3" "without (?g (ifi_dstaddr i)) h2 h3"
    using free_block [of "ifi_dstaddr i" h2] d without_other [OF 12, of "ifi_dstaddr i"]
    by (fastforce split: if_splits)
  note 13 = without_trans [OF 12 3(2)]
  have a: "block_of h3 a = Some (Ifi i)"
    using without_other [OF 13, of a] d assms(1,2) by (auto split: if_splits)
  obtain h4 where 4: "free a h3 = Some h4" "without {a} h3 h4"
    using free_block [of a h3] a assms(2) by auto
  have "free_node a h = Some (h4, ifi_next i)"
    using assms(1) 1 2 3 4 a by (simp add: free_node_def)
  moreover have "?g (ifi_addr i) \<union> ?g (ifi_brdaddr i) \<union> ?g (ifi_dstaddr i) \<union> {a} = set (node_blocks (a, i))"
    by (auto simp: node_blocks_def)
  ultimately show ?thesis using without_trans [OF 13 4(2)] by auto
qed

lemma free_list_ok:
  "ifi_list h p as \<Longrightarrow> distinct (list_blocks as) \<Longrightarrow> \<forall>b \<in> set (list_blocks as). block_of h b \<noteq> None \<Longrightarrow>
    \<exists>h'. free_ifi_info p h = Some h' \<and> without (set (list_blocks as)) h h'"
proof (induction as arbitrary: h p)
  case Nil
  then show ?case by (simp add: free_ifi_info.simps [of 0 h] list_blocks_def without_def restrict_map_def)
next
  case (Cons ai as)
  obtain a i where ai [simp]: "ai = (a, i)" by (cases ai)
  have d: "distinct (node_blocks (a, i))" "set (node_blocks (a, i)) \<inter> set (list_blocks as) = {}"
    "distinct (list_blocks as)"
    using Cons.prems(2) by (simp_all add: list_blocks_def)
  obtain h1 where 1: "free_node a h = Some (h1, ifi_next i)" "without (set (node_blocks (a, i))) h h1"
    using free_node_list [of h a i] d Cons.prems(1,3) by (auto simp: list_blocks_def)
  have "fst ` set as \<subseteq> set (list_blocks as)" by (force simp: list_blocks_def node_blocks_def)
  with d(2) have "set (node_blocks (a, i)) \<inter> fst ` set as = {}" by blast
  then have "ifi_list h1 (ifi_next i) as"
    using ifi_list_without [OF 1(2)] Cons.prems(1) by simp
  moreover have "\<forall>b \<in> set (list_blocks as). block_of h1 b \<noteq> None"
  proof
    fix b assume b: "b \<in> set (list_blocks as)"
    with d(2) have "block_of h1 b = block_of h b" using without_other [OF 1(2)] by blast
    moreover have "b \<in> set (list_blocks ((a, i) # as))" using b by (simp add: list_blocks_def)
    ultimately show "block_of h1 b \<noteq> None" using Cons.prems(3) by simp
  qed
  ultimately obtain h' where "free_ifi_info (ifi_next i) h1 = Some h'" "without (set (list_blocks as)) h1 h'"
    using Cons.IH d(3) by blast
  with 1 Cons.prems(1) show ?case
    using without_trans [OF 1(2)] by (auto simp: free_ifi_info.simps [of a h] list_blocks_def)
qed

subsection \<open>What the walk leaves\<close>

text \<open>The descriptors that were asked for interfaces.\<close>

fun asks :: "event list \<Rightarrow> int list" where
  "asks [] = []"
| "asks (Call (On fd (GIFCONF n)) a # t) = fd # asks t"
| "asks (Call (On fd (GIFREQ f name)) a # t) = fd # asks t"
| "asks (_ # t) = asks t"

lemma asks_append [simp]: "asks (s @ t) = asks s @ asks t"
  by (induction s rule: asks.induct) auto

text \<open>A failure, a wait, or undefined behaviour.\<close>

fun fails :: "stop \<Rightarrow> bool" where
  "fails (Exit c) \<longleftrightarrow> c = 1"
| "fails Abort \<longleftrightarrow> False"
| "fails (Killed s) \<longleftrightarrow> False"
| "fails _ \<longleftrightarrow> True"

definition silent :: "'a result \<Rightarrow> event list \<Rightarrow> bool" where
  "silent r t \<longleftrightarrow> printed t = [] \<and> set (asks t) \<subseteq> {0} \<and> (\<forall>z. r = Stop z \<longrightarrow> fails z)"

lemma silent_simps [simp]:
  "silent r (Call (Proc c) a # t) \<longleftrightarrow> silent r t"
  "silent r (Call (Socket f ty p) a # t) \<longleftrightarrow> silent r t"
  "silent r (Call (On 0 (GIFCONF n)) a # t) \<longleftrightarrow> silent r t"
  "silent r (Call (On 0 (GIFREQ g name)) a # t) \<longleftrightarrow> silent r t"
  "silent r (Perror s # t) \<longleftrightarrow> silent r t"
  "silent (Ret x) []" "silent (Stop (Fault e)) []" "silent (Stop Blocked) []" "silent (Stop (Exit 1)) []"
  by (simp_all add: silent_def)

text \<open>No block of the heap is a node, and the heap's addresses are below \<open>fresh\<close>.\<close>

definition no_nodes :: "heap \<Rightarrow> bool" where
  "no_nodes h \<longleftrightarrow> 0 < fresh h \<and> (\<forall>p b. block_of h p = Some b \<longrightarrow> p < fresh h \<and> 0 < p \<and> (\<exists>bs. b = Bytes bs))"

definition walk_inv :: "nat \<Rightarrow> ifi_vars \<Rightarrow> bool" where
  "walk_inv bf w \<longleftrightarrow> no_nodes (mem w) \<and> 0 < bf \<and>
     (block_of (mem w) bf \<noteq> None \<longrightarrow> ifihead w = 0 \<and> ifipnext w = 0)"

lemma block_simps [simp]:
  "block_of (put_block p b h) = (block_of h)(p \<mapsto> b)" "fresh (put_block p b h) = fresh h"
  "block_of (h\<lparr>fresh := n\<rparr>) = block_of h"
  by (simp_all add: put_block_def update_conv' fun_upd_def)

lemma vld_heap [io_simps]:
  "vld fds (frees p h k) Q \<longleftrightarrow>
     (case free p h of None \<Rightarrow> Q (Stop (Fault Freed)) [] | Some h' \<Rightarrow> vld fds (k h') Q)"
  "vld fds (bytes_at h p k1) Q \<longleftrightarrow>
     (if p = 0 then Q (Stop (Fault Null)) []
      else case block_of h p of Some (Bytes bs) \<Rightarrow> vld fds (k1 bs) Q | _ \<Rightarrow> Q (Stop (Fault Freed)) [])"
  "vld fds (copy bs off n k2) Q \<longleftrightarrow>
     (if off + n \<le> length bs then vld fds (k2 (take n (drop off bs))) Q else Q (Stop (Fault Overread)) [])"
  by (simp_all add: frees_def bytes_at_def copy_def vld_stop split: option.split block.split)

lemma vld_cut_colon:
  "Q (Stop (Fault Overread)) [] \<Longrightarrow> (\<And>name. vld fds (k name) Q) \<Longrightarrow> vld fds (cut_colon b k) Q"
  by (simp add: cut_colon_def Let_def io_simps)

text \<open>The heap while the only node in it is the one at \<open>p\<close>.\<close>

definition node_in :: "nat \<Rightarrow> heap \<Rightarrow> bool" where
  "node_in p h \<longleftrightarrow> 0 < fresh h \<and> 0 < p \<and> p < fresh h \<and>
     (\<forall>q b. block_of h q = Some b \<longrightarrow> q < fresh h \<and> 0 < q \<and> (q \<noteq> p \<longrightarrow> (\<exists>bs. b = Bytes bs)))"

lemma vld_keep_addr:
  assumes "node_in p h"
    and "\<And>q h'. node_in p h' \<Longrightarrow> vld fds (k q h') (\<lambda>r t. silent r t \<and> P r)"
    and "\<And>z. P (Stop z)"
  shows "vld fds (keep_addr n bs off h k) (\<lambda>r t. silent r t \<and> P r)"
proof -
  have "node_in p (h\<lparr>fresh := Suc (fresh h), blocks := (fresh h, Bytes x) # blocks h\<rparr>)" for x
    using assms(1) by (auto simp: node_in_def less_Suc_eq)
  then show ?thesis
    by (auto simp: keep_addr_def alloc_def io_simps assms(2,3))
qed

lemma vld_keep_addrs:
  assumes "node_in p h" and "\<And>h'. node_in p h' \<Longrightarrow> vld fds (k h') (\<lambda>r t. silent r t \<and> P r)"
    and "\<And>z. P (Stop z)"
  shows "vld fds (keep_addrs 0 fam bs off ifrcopy flags p info h k) (\<lambda>r t. silent r t \<and> P r)"
proof -
  have put: "node_in p h' \<Longrightarrow> node_in p (put_block p (Ifi i) h')" for h' i
    by (auto simp: node_in_def)
  have dst: "vld fds (keep_dstaddr 0 n c h1 (\<lambda>q h2. k (put_block p (Ifi (info\<lparr>ifi_addr := x, ifi_dstaddr := q\<rparr>)) h2)))
      (\<lambda>r t. silent r t \<and> P r)" if "node_in p h1" for n c h1 x
    unfolding keep_dstaddr_def
    by (auto simp: io_simps assms(3) intro!: vld_keep_addr [OF that] assms(2) put)
  show ?thesis
    unfolding keep_addrs_def
    by (auto simp: io_simps assms(3) intro!: vld_keep_addr [OF assms(1)] dst assms(2) put assms(1))
qed

lemma free_some:
  "free p h = Some h' \<Longrightarrow> 0 < p \<Longrightarrow> block_of h' = (block_of h)(p := None) \<and> fresh h' = fresh h"
  by (auto simp: free_def map_of_delete split: option.splits)

lemma node_freed:
  assumes "node_in p h" and "free bf h = Some h1" and "0 < bf" and "free p h1 = Some h2"
  shows "no_nodes h2 \<and> block_of h2 bf = None"
  using assms free_some [OF assms(2,3)] free_some [OF assms(4)]
  by (auto simp: node_in_def no_nodes_def split: if_splits)

lemma node_made:
  "no_nodes h \<Longrightarrow> node_in (fresh h) (h\<lparr>fresh := Suc (fresh h), blocks := (fresh h, Ifi i) # blocks h\<rparr>)"
  by (auto simp: no_nodes_def node_in_def less_Suc_eq)

lemma no_nodes_put: "no_nodes h \<Longrightarrow> block_of h p = Some (Bytes x) \<Longrightarrow> no_nodes (put_block p (Bytes y) h)"
  by (auto simp: no_nodes_def)

lemma vld_ifi_turn:
  assumes inv: "walk_inv bf w"
  shows "vld fds (ifi_turn 0 family doaliases bf w)
    (\<lambda>r t. silent r t \<and> (\<forall>w'. r = Ret w' \<longrightarrow> walk_inv bf w' \<and> ptr w + 32 \<le> ptr w'))"
    (is "vld fds _ (\<lambda>r t. silent r t \<and> ?P r)")
proof (cases "block_of (mem w) bf")
  case None
  then show ?thesis by (simp add: ifi_turn_def io_simps)
next
  case (Some b)
  with inv obtain bs where bs: "block_of (mem w) bf = Some (Bytes bs)"
    by (auto simp: walk_inv_def no_nodes_def)
  with inv have w: "no_nodes (mem w)" "0 < bf" "ifihead w = 0" "ifipnext w = 0"
    by (auto simp: walk_inv_def)
  have made: "vld fds (keep_addrs 0 fam bs' off c flags (fresh (mem w)) i
      ((put_block bf (Bytes bs') (mem w))\<lparr>fresh := Suc (fresh (mem w)),
        blocks := (fresh (mem w), Ifi i) # blocks (put_block bf (Bytes bs') (mem w))\<rparr>)
      (\<lambda>h5. frees bf h5 (\<lambda>h6. frees (fresh (mem w)) h6 (\<lambda>h7. ret (w'\<lparr>mem := h7\<rparr>)))))
      (\<lambda>r t. silent r t \<and> ?P r)" if "ptr w + 32 \<le> ptr w'" for fam bs' off c flags i w'
  proof (rule vld_keep_addrs)
    show "node_in (fresh (mem w)) ((put_block bf (Bytes bs') (mem w))\<lparr>fresh := Suc (fresh (mem w)),
        blocks := (fresh (mem w), Ifi i) # blocks (put_block bf (Bytes bs') (mem w))\<rparr>)"
      using node_made [OF no_nodes_put [OF w(1) bs]] by simp
  next
    fix h5 assume "node_in (fresh (mem w)) h5"
    from node_freed [OF this _ w(2)] that w(2)
    show "vld fds (frees bf h5 (\<lambda>h6. frees (fresh (mem w)) h6 (\<lambda>h7. ret (w'\<lparr>mem := h7\<rparr>))))
        (\<lambda>r t. silent r t \<and> ?P r)"
      by (auto simp: io_simps walk_inv_def split: option.split)
  qed simp
  have skipped: "walk_inv bf (w\<lparr>ptr := x, elen := y\<rparr>)"
    "walk_inv bf (w\<lparr>ptr := x, elen := y, mem := put_block bf (Bytes z) (mem w)\<rparr>)"
    "walk_inv bf (w\<lparr>ptr := x, elen := y, mem := put_block bf (Bytes z) (mem w), lastname := u\<rparr>)" for x y z u
    using w bs by (simp_all add: walk_inv_def no_nodes_put)
  show ?thesis
    unfolding ifi_turn_def
    by (auto simp: io_simps bs w Let_def alloc_def set_next_def IFI_NAME_def SIZE_sockaddr_in6_def SIZE_sockaddr_def
        skipped intro!: vld_cut_colon made)
qed

lemma silent_append: "silent r' s \<Longrightarrow> silent r t \<Longrightarrow> silent r (s @ t)"
  by (auto simp: silent_def)

lemma silent_ret: "silent r t \<Longrightarrow> silent (Ret x) t"
  by (simp add: silent_def)

lemma vld_ifi_walk:
  assumes "walk_inv bf w"
  shows "vld fds (ifi_walk 0 family doaliases bf ifc_len n w)
    (\<lambda>r t. silent r t \<and> (\<forall>w'. r = Ret w' \<longrightarrow>
      walk_inv bf w' \<and> (ifc_len \<le> int (ptr w') \<or> ptr w + 32 * n \<le> ptr w')))"
  using assms
proof (induction n arbitrary: w fds)
  case 0
  then show ?case by (simp add: io_simps)
next
  case (Suc n)
  show ?case
  proof (cases "int (ptr w) < ifc_len")
    case True
    then show ?thesis
    proof (simp, intro vld_bnd_use [OF vld_ifi_turn [OF Suc.prems]], goal_cases)
      case (1 w1 t)
      then have w1: "walk_inv bf w1" "ptr w + 32 \<le> ptr w1" and t: "silent (Ret w1) t" by auto
      show ?case
        by (rule vld_mono [OF Suc.IH [OF w1(1)]]) (use w1(2) silent_append [OF t] in auto)
    qed auto
  next
    case False
    then show ?thesis using Suc.prems by (simp add: io_simps)
  qed
qed

lemma ifi_walk_ends:
  assumes "ifi_walk 0 family doaliases bf ifc_len (nat ifc_len) w rs = (Ret w', t, rs')"
    and "conforms fds t" and "walk_inv bf w"
  shows "ifc_len \<le> int (ptr w')"
  using vldD [OF vld_ifi_walk [OF assms(3)] assms(1,2)] by auto

lemma no_nodes_alloc:
  "no_nodes h \<Longrightarrow> no_nodes (h\<lparr>fresh := Suc (fresh h), blocks := (fresh h, Bytes x) # blocks h\<rparr>)"
  by (auto simp: no_nodes_def less_Suc_eq)

lemma no_nodes_free: "no_nodes h \<Longrightarrow> free p h = Some h' \<Longrightarrow> 0 < p \<Longrightarrow> no_nodes h'"
  using free_some [of p h h'] by (auto simp: no_nodes_def split: if_splits)

text \<open>What a turn of the outer loop keeps.\<close>

definition turn_post :: "event list \<Rightarrow> (heap \<times> nat \<times> int + nat \<times> heap) result \<Rightarrow> event list \<Rightarrow> bool" where
  "turn_post t0 r t \<longleftrightarrow> silent r (t0 @ t) \<and> (\<forall>x. r \<noteq> Ret (Inr x)) \<and>
     (\<forall>h len lastlen. r = Ret (Inl (h, len, lastlen)) \<longrightarrow> no_nodes h)"

lemma turn_post_stop [simp]: "turn_post t0 (Stop z) t \<longleftrightarrow> silent (Stop z :: unit result) (t0 @ t)"
  by (simp add: turn_post_def silent_def)

lemma vld_walk_turn:
  assumes "walk_inv bf w" and "silent (Ret ()) (t0 @ s)"
  shows "vld fds (bnd (ifi_walk 0 family doaliases bf n k w) (\<lambda>w. ret (Inl (mem w, elen w, last2))))
    (\<lambda>r t. turn_post t0 r (s @ t))"
proof (rule vld_bnd_use [OF vld_ifi_walk [OF assms(1)]], goal_cases)
  case (1 w t)
  then show ?case
    using assms(2) by (auto simp: io_simps turn_post_def walk_inv_def silent_def)
next
  case (2 z t)
  then show ?case using assms(2) by (auto simp: turn_post_def silent_def)
qed

lemma ifi_body_keeps:
  assumes h: "no_nodes h" and t0: "silent (Ret ()) t0"
  shows "vld fds (ifi_body 0 family doaliases junk_name (h, len, lastlen)) (turn_post t0)"
proof -
  have w0: "walk_inv bf \<lparr>mem = h', ptr = 0, elen = l, ifihead = 0, ifipnext = 0, lastname = u\<rparr>"
    if "no_nodes h'" "0 < bf" for bf h' l u
    using that by (simp add: walk_inv_def)
  have f0: "0 < fresh h" using h by (simp add: no_nodes_def)
  note filled = no_nodes_put [OF no_nodes_alloc [OF h]]
  have t1: "silent (Ret ()) (t0 @ [Call (Malloc n) a, Call (Ioctl_ifconf 0 m) b])" for n a m b
    using t0 by (simp add: silent_def)
  note walk = vld_walk_turn [OF w0 t1, simplified]
  have err: "silent (Stop z) (t0 @ t)" if "silent (Stop z :: unit result) t" for z t
    using t0 that by (auto simp: silent_def)
  have err0: "silent (Stop Blocked :: unit result) t0" using t0 by (simp add: silent_def)
  show ?thesis
    unfolding ifi_body_def
    by (auto simp: io_simps alloc_def Let_def err err0 f0 split: option.split
        intro!: walk filled no_nodes_free [OF no_nodes_alloc [OF h]])
qed

interpretation ifi_loop: loop_contract "ifi_body 0 family doaliases junk_name"
    "\<lambda>fds (h, len, lastlen) t. no_nodes h \<and> silent (Ret ()) t" "\<lambda>r t. silent r t \<and> (\<forall>x. r \<noteq> Ret x)"
  for family doaliases junk_name
proof (unfold_locales, goal_cases)
  case (1 fds s t0)
  then show ?case
    by (cases s; clarsimp)
      (rule vld_mono [OF ifi_body_keeps], auto simp: turn_post_def silent_def split: result.split sum.split)
qed (auto simp: silent_def)

lemma steady_heap [steady_intros]:
  "(\<And>h'. steady (k h')) \<Longrightarrow> steady (frees p h k)"
  "(\<And>bs. steady (k1 bs)) \<Longrightarrow> steady (bytes_at h p k1)"
  "(\<And>bs. steady (k2 bs)) \<Longrightarrow> steady (copy bs off n k2)"
  "(\<And>bs. steady (k3 bs)) \<Longrightarrow> steady (cut_colon b k3)"
  by (auto simp: frees_def bytes_at_def copy_def cut_colon_def Let_def intro: steady_intros split: option.split block.split)

lemma steady_keep_addrs [steady_intros]:
  "(\<And>h'. steady (k h')) \<Longrightarrow> steady (keep_addrs sockfd fam bs off c flags p info h k)"
  unfolding keep_addrs_def keep_dstaddr_def keep_addr_def alloc_def prod.case
  by (intro steady_intros; simp)

lemma steady_ifi_turn [steady_intros]: "steady (ifi_turn sockfd family doaliases bf w)"
  unfolding ifi_turn_def alloc_def prod.case Let_def by (intro steady_intros; simp)

lemma steady_ifi_walk [steady_intros]: "steady (ifi_walk sockfd family doaliases bf ifc_len n w)"
  by (induction n arbitrary: w) (auto intro: steady_intros)

interpretation ifi_busy: busy_loop "ifi_body sockfd family doaliases junk_name" for sockfd family doaliases junk_name
proof
  fix s :: "heap \<times> nat \<times> int"
  show "busy_when (\<lambda>x. \<exists>s'. x = Inl s') (ifi_body sockfd family doaliases junk_name s)"
    unfolding ifi_body_def alloc_def prod.case_eq_if Let_def prod.sel
    by (intro busy_sys steady_intros; simp)
qed

lemma get_ifi_info_ends:
  "vld fds (get_ifi_info family doaliases junk_name \<lparr>fresh = 1, blocks = []\<rparr>)
    (\<lambda>r t. r \<noteq> Stop Diverge \<and> (\<forall>x. r \<noteq> Ret x) \<and> silent r t)"
proof -
  have loop: "vld fds1 (loop (ifi_body 0 family doaliases junk_name) (\<lparr>fresh = 1, blocks = []\<rparr>, 100 * SIZE_ifreq, 0))
     (\<lambda>r t. r \<noteq> Stop Diverge \<and> (\<forall>x. r \<noteq> Ret x) \<and> silent r t)" for fds1
    by (rule vld_conj [OF _ vld_mono [OF ifi_loop.loop_post]])
      (use ifi_busy.loop_steady in \<open>auto simp: vld_def steady_def no_nodes_def split: prod.split\<close>)
  then show ?thesis
    using loop by (simp add: get_ifi_info_def io_simps Let_def)
qed

subsection \<open>Properties\<close>

text \<open>
  C36: The program never lists an interface. Whatever the kernel replies, it neither ends with success nor
  spins: it fails, waits in a call, or does something undefined. Unless its arguments are wrong it prints
  nothing on standard output, and it asks descriptor 0 for the interfaces, whatever \<open>socket\<close> returned.
\<close>

theorem interfaces_never_listed:
  assumes "ifi_main R nospc junk_name argv rs = (r, t, rs')" and "conforms fds t"
  shows "(r = Stop (Exit 1) \<or> r = Stop Blocked \<or> (\<exists>f. r = Stop (Fault f))) \<and> set (asks t) \<subseteq> {0} \<and>
    (length argv = 3 \<and> (argv ! 1 = ''inet4'' \<or> argv ! 1 = ''inet6'') \<longrightarrow> printed t = [])"
proof -
  let ?P = "\<lambda>(r :: unit result) t. (r = Stop (Exit 1) \<or> r = Stop Blocked \<or> (\<exists>f. r = Stop (Fault f))) \<and>
    set (asks t) \<subseteq> {0} \<and> (length argv = 3 \<and> (argv ! 1 = ''inet4'' \<or> argv ! 1 = ''inet6'') \<longrightarrow> printed t = [])"
  have failed: "fails z \<Longrightarrow> z \<noteq> Diverge \<Longrightarrow> z = Exit 1 \<or> z = Blocked \<or> (\<exists>f. z = Fault f)" for z
    by (cases z) auto
  have "vld fds (bnd (get_ifi_info family (atoi (argv ! 2)) junk_name \<lparr>fresh = 1, blocks = []\<rparr>) k) ?P" for family k
    by (rule vld_bnd_use [OF get_ifi_info_ends]) (use failed in \<open>auto simp: silent_def\<close>)
  then have "vld fds (ifi_main R nospc junk_name argv) ?P"
    by (auto simp: ifi_main_def io_simps Let_def)
  from vldD [OF this assms] show ?thesis .
qed

definition reply_block :: "nat \<Rightarrow> reply" where
  "reply_block n = (ok 1)\<lparr>dat := zeros n\<rparr>"

definition reply_lo :: reply where
  "reply_lo = (ok 0)\<lparr>num := 40,
     dat := ''lo'' @ zeros 14 @ [CHR 0x02, NUL, NUL, NUL, CHR 0x7F, NUL, NUL, CHR 0x01] @ zeros 16\<rparr>"

definition reply_up :: reply where
  "reply_up = (ok 0)\<lparr>dat := [CHR 0x49, NUL] @ zeros 22\<rparr>"

text \<open>Running the walk by rewriting.\<close>

lemma heap_lazy:
  "h = h' \<Longrightarrow> p = p' \<Longrightarrow> bytes_at h p k = bytes_at h' p' k"
  "h = h' \<Longrightarrow> p = p' \<Longrightarrow> frees p h k1 = frees p' h' k1"
  "bs = bs' \<Longrightarrow> off = off' \<Longrightarrow> copy bs off n k2 = copy bs' off' n k2"
  "b = b' \<Longrightarrow> cut_colon b k3 = cut_colon b' k3"
  "fam = fam' \<Longrightarrow> h = h' \<Longrightarrow> keep_addrs sockfd fam bs off c flags q info h k4 = keep_addrs sockfd fam' bs off c flags q info h' k4"
  "bs = bs' \<Longrightarrow> off = off' \<Longrightarrow> h = h' \<Longrightarrow> keep_addr n bs off h k5 = keep_addr n bs' off' h' k5"
  by simp_all

lemma ifi_walk_numeral:
  "ifi_walk sockfd family doaliases bf ifc_len (numeral v) w =
     (if int (ptr w) < ifc_len then
        bnd (ifi_turn sockfd family doaliases bf w) (ifi_walk sockfd family doaliases bf ifc_len (pred_numeral v))
      else ret w)"
  by (simp add: numeral_eq_Suc)

lemma zeros_eval:
  "0 < n \<Longrightarrow> takeWhile (\<lambda>c. c \<noteq> NUL) (zeros n @ xs) = []"
  "0 < n \<Longrightarrow> takeWhile (\<lambda>c. c \<noteq> NUL) (zeros n) = []"
  "k < n \<Longrightarrow> zeros n ! k = NUL" "0 < n \<Longrightarrow> (zeros n)[0 := NUL] = zeros n"
  by (simp_all add: zeros_def gr0_conv_Suc takeWhile_append) auto

lemmas heap_run = ifi_walk_numeral zeros_eval nth_append ifi_turn_def bytes_at_def frees_def free_def copy_def
  cut_colon_def keep_addrs_def keep_addr_def alloc_def put_block_def set_next_def short_at_def strncmp_0_def
  ifreq_reply_def AList.delete_eq IFI_NAME_def SIZE_ifreq_def SIZE_sockaddr_def SIZE_sockaddr_in6_def INET_def INET6_def
  IFF_UP_def IFF_BROADCAST_def IFF_POINTOPOINT_def

theorem interfaces_never_listed_witness:
  "(case ifi_main no_names ''No space left on device'' (zeros 16) [''if'', ''inet4'', ''0''] [ok 3, reply_block 4000, (fail (EOTHER 25))\<lparr>num := 4000\<rparr>] of (r, t, rs) \<Rightarrow>
     conforms {0, 1, 2} t \<and> r = Stop (Exit 1) \<and> set (asks t) \<subseteq> {0} \<and> printed t = []) \<and>
   (case ifi_main no_names ''No space left on device'' (zeros 16) [''if'', ''inet4'', ''0''] [ok 3, reply_block 4000, reply_lo, reply_up, ok 1, ok 1] of (r, t, rs) \<Rightarrow>
     conforms {0, 1, 2} t \<and> r = Stop (Fault Freed) \<and> set (asks t) \<subseteq> {0} \<and> printed t = [])"
proof -
  have n: "atoi ''0'' = 0"
    using atoi_show_int [of 0] by (simp add: show_int_def dec.simps digit_run in_int_def INT_MAX_def INT_MIN_def)
  note defs = n run_simps heap_run ifi_main_def get_ifi_info_def ifi_body_def reply_block_def reply_lo_def reply_up_def
  let ?run = "ifi_main no_names ''No space left on device'' (zeros 16) [''if'', ''inet4'', ''0'']"
  obtain t1 where 1: "?run [ok 3, reply_block 4000, (fail (EOTHER 25))\<lparr>num := 4000\<rparr>] = (Stop (Exit 1), t1, [])" "conforms {0, 1, 2} t1"
    by (simp add: defs cong: lazy heap_lazy)
  obtain t2 where 2: "?run [ok 3, reply_block 4000, reply_lo, reply_up, ok 1, ok 1] = (Stop (Fault Freed), t2, [])" "conforms {0, 1, 2} t2"
    by (simp add: defs cong: lazy heap_lazy)
  show ?thesis
    using interfaces_never_listed [OF 1] interfaces_never_listed [OF 2] 1 2 by simp
qed

lemma list_nodes:
  "ifi_list h p as \<Longrightarrow> set (map fst as) \<subseteq> fst ` set (blocks h)"
  by (induction h p as rule: ifi_list.induct) (auto simp: image_iff dest!: map_of_SomeD intro: bexI [rotated])

lemma distinct_nodes: "distinct (list_blocks as) \<Longrightarrow> distinct (map fst as)"
proof (induction as)
  case (Cons x as)
  obtain a i where x: "x = (a, i)" by (cases x)
  have "fst ` set as \<subseteq> set (list_blocks as)" by (force simp: list_blocks_def node_blocks_def)
  with Cons show ?case by (auto simp: x list_blocks_def node_blocks_def)
qed (simp add: list_blocks_def)

lemma list_bound:
  assumes "ifi_list h p as" and "distinct (list_blocks as)"
  shows "length as \<le> length (blocks h)"
proof -
  have "card (set (map fst as)) \<le> card (fst ` set (blocks h))"
    by (rule card_mono [OF _ list_nodes [OF assms(1)]]) simp
  also have "\<dots> \<le> length (blocks h)"
    by (rule order_trans [OF card_image_le card_length]) simp
  finally show ?thesis using distinct_card [OF distinct_nodes [OF assms(2)]] by simp
qed

lemma show_list_all:
  "ifi_list h p as \<Longrightarrow> length as < n \<Longrightarrow> show_list R nospc h n p = foldr (\<lambda>(a, i). show_ifi R nospc h i) as (ret ())"
proof (induction as arbitrary: p n)
  case Nil
  then show ?case by (cases n) simp_all
next
  case (Cons x as)
  then show ?case by (cases n; cases x) (simp_all add: ifi_at_def)
qed

subsection \<open>What a list is shown as\<close>

text \<open>The text of a hardware address: its bytes in hexadecimal, with colons between them.\<close>

fun hex_text :: "byte list \<Rightarrow> string" where
  "hex_text [] = []"
| "hex_text (b # bs) = ''   '' @ hex_byte b @ concat (map (\<lambda>c. CHR '':'' # hex_byte c) bs)"

text \<open>
  The text of an address, if it can be shown: the null pointer has none; any other must lead to a block with
  an address of one of the two families, whose text fits.
\<close>

definition addr_text :: "resolver \<Rightarrow> heap \<Rightarrow> string \<Rightarrow> nat \<Rightarrow> string option" where
  "addr_text R h label sa =
     (let line = (\<lambda>fam s. fam @ [LF] @ ''   '' @ label @ '' addr: '' @ s @ [LF])
      in if sa = 0 then Some []
         else case block_of h sa of
           Some (Bytes bs) \<Rightarrow>
             if 8 \<le> length bs \<and> short_at bs 0 = INET then
               map_option (line ''AF_INET.'') (inet_ntop R AF_INET (map of_char (take 4 (drop 4 bs))))
             else if 24 \<le> length bs \<and> short_at bs 0 = INET6 then
               map_option (line ''AF_INET6.'') (inet_ntop R AF_INET6 (map of_char (take 16 (drop 8 bs))))
             else None
         | _ \<Rightarrow> None)"

text \<open>The text of a node, if it can be shown.\<close>

definition node_text :: "resolver \<Rightarrow> heap \<Rightarrow> ifi_info \<Rightarrow> string option" where
  "node_text R h i =
     (if terminated (ifi_name i) \<and> ifi_hlen i \<le> length (ifi_haddr i) then
        Option.bind (addr_text R h ''IP'' (ifi_addr i)) (\<lambda>x.
        Option.bind (addr_text R h ''broadcast'' (ifi_brdaddr i)) (\<lambda>y.
        Option.bind (addr_text R h ''destination'' (ifi_dstaddr i)) (\<lambda>z.
        Some (cstr (ifi_name i) @ '': '' @
          (if ifi_index i \<noteq> 0 then ''('' @ show_int (ifi_index i) @ '') '' else []) @
          ''<'' @ concat (ifi_flag_names (ifi_flags i)) @ ''>'' @ [LF] @
          hex_text (take (ifi_hlen i) (ifi_haddr i)) @ [LF] @
          (if ifi_mtu i \<noteq> 0 then ''   MTU: '' @ show_int (ifi_mtu i) @ [LF] else []) @ x @ y @ z))))
      else None)"

definition texts :: "resolver \<Rightarrow> heap \<Rightarrow> (nat \<times> ifi_info) list \<Rightarrow> string option list" where
  "texts R h as = map (\<lambda>(a, i). node_text R h i) as"

text \<open>The text of the nodes before the first that cannot be shown.\<close>

definition shown_text :: "resolver \<Rightarrow> heap \<Rightarrow> (nat \<times> ifi_info) list \<Rightarrow> string" where
  "shown_text R h as = concat (map the (takeWhile (\<lambda>x. x \<noteq> None) (texts R h as)))"

lemma texts_simps [simp]:
  "texts R h [] = []" "texts R h ((a, i) # as) = node_text R h i # texts R h as"
  by (simp_all add: texts_def)

lemma shown_text_simps [simp]:
  "shown_text R h [] = []"
  "shown_text R h ((a, i) # as) = (case node_text R h i of None \<Rightarrow> [] | Some s \<Rightarrow> s @ shown_text R h as)"
  by (simp_all add: shown_text_def split: option.split)

text \<open>The two ways in which a piece of the program can show: a text and on, or some text and the end.\<close>

definition says_text :: "string option \<Rightarrow> 'a io \<Rightarrow> 'a io \<Rightarrow> bool" where
  "says_text x k m \<longleftrightarrow>
     (case x of
        Some s \<Rightarrow> \<exists>ls. m = says ls k \<and> concat ls = s
      | None \<Rightarrow> \<exists>ls z. m = says ls (stop z) \<and> (z = Exit 1 \<or> (\<exists>f. z = Fault f)))"

lemma says_append: "says (ls @ ms) m = says ls (says ms m)"
  by (simp add: says_def)

lemma says_run: "says ls m rs = (case m rs of (r, t, rs') \<Rightarrow> (r, map Out ls @ t, rs'))"
  by (induction ls) (simp_all add: printf_def tell_def split: prod.split)

lemma says_text_says:
  "says_text x k m \<Longrightarrow> concat ls = s \<Longrightarrow> says_text (map_option ((@) s) x) k (says ls m)"
  by (cases x) (auto simp: says_text_def says_append [symmetric], metis, metis concat_append)

lemma says_text_then:
  "says_text x m' m \<Longrightarrow> says_text y k m' \<Longrightarrow> says_text (Option.bind x (\<lambda>s. map_option ((@) s) y)) k m"
  by (cases x; cases y) (auto simp: says_text_def says_append [symmetric], metis, metis concat_append)

lemma says_text_end:
  "z = Exit 1 \<or> (\<exists>f. z = Fault f) \<Longrightarrow> says_text None k (says ls (stop z))"
  by (auto simp: says_text_def)

lemmas says_text_ends [simp] =
  says_text_end [of "Fault f" _ "[]" for f, simplified]
  says_text_end [of "Fault f" _ "[s]" for f s, simplified]
  says_text_end [of "Exit 1" _ "[s]" for s, simplified]
  says_text_end [of "Exit 1" _ "[s, s']" for s s', simplified]

lemma says_text_0 [simp]: "says_text (Some []) k k"
  by (auto simp: says_text_def intro: exI [where x = "[]"])

lemma says_text_2: "a @ b = s \<Longrightarrow> says_text (Some s) k (printf a (printf b k))"
  by (auto simp: says_text_def intro!: exI [where x = "[a, b]"])

lemma show_addr_says: "says_text (addr_text R h label sa) k (show_addr R nospc h label sa k)"
  by (auto simp: show_addr_def addr_text_def sock_ntop_host_def bytes_at_def copy_def Let_def INET_def
        INET6_def short_at_def says_text_2 split: option.split block.split)

text \<open>The bytes of a hardware address, printed one by one.\<close>

lemma hex_lines:
  assumes "n \<le> length bs"
  shows "concat (map (\<lambda>k. (if k = 0 then ''   '' else '':'') @ hex_byte (bs ! k)) [0..<n]) = hex_text (take n bs)"
proof (cases n)
  case (Suc m)
  with assms obtain c cs where bs: "bs = c # cs" by (cases bs) auto
  have "map (\<lambda>k. CHR '':'' # hex_byte (cs ! k)) [0..<m] = map (\<lambda>c. CHR '':'' # hex_byte c) (take m cs)"
    using assms bs Suc by (auto simp: list_eq_iff_nth_eq)
  then show ?thesis
    by (simp add: Suc bs upt_rec [of 0 "Suc m"] map_Suc_upt [symmetric] comp_def del: map_Suc_upt upt_Suc)
qed simp

lemma says_text_addrs:
  assumes f: "\<And>x y z. f x y z = concat ls @ x @ y @ z"
  shows "says_text (Option.bind (addr_text R h ''IP'' (ifi_addr i)) (\<lambda>x.
      Option.bind (addr_text R h ''broadcast'' (ifi_brdaddr i)) (\<lambda>y.
      Option.bind (addr_text R h ''destination'' (ifi_dstaddr i)) (\<lambda>z. Some (f x y z))))) k
    (says ls (show_addr R nospc h ''IP'' (ifi_addr i)
      (show_addr R nospc h ''broadcast'' (ifi_brdaddr i)
      (show_addr R nospc h ''destination'' (ifi_dstaddr i) k))))"
proof -
  note a = show_addr_says [of R h _ _ _ nospc]
  have "says_text (map_option ((@) (concat ls)) (Option.bind (addr_text R h ''IP'' (ifi_addr i)) (\<lambda>x. map_option ((@) x)
      (Option.bind (addr_text R h ''broadcast'' (ifi_brdaddr i)) (\<lambda>y. map_option ((@) y)
      (addr_text R h ''destination'' (ifi_dstaddr i))))))) k
    (says ls (show_addr R nospc h ''IP'' (ifi_addr i)
      (show_addr R nospc h ''broadcast'' (ifi_brdaddr i)
      (show_addr R nospc h ''destination'' (ifi_dstaddr i) k))))"
    by (rule says_text_says [OF says_text_then [OF a says_text_then [OF a a]] refl])
  then show ?thesis
    by (auto simp: f map_option_case split: Option.bind_splits option.splits)
qed

lemma show_ifi_says: "says_text (node_text R h i) k (show_ifi R nospc h i k)"
proof (cases "terminated (ifi_name i)")
  case name: True
  show ?thesis
  proof (cases "ifi_hlen i \<le> length (ifi_haddr i)")
    case True
    with name show ?thesis
      unfolding node_text_def show_ifi_def with_cstr_def
      by (simp only: if_True simp_thms says_append [symmetric] append.assoc)
         (rule says_text_addrs, simp add: hex_lines)
  next
    case False
    with name show ?thesis
      unfolding node_text_def show_ifi_def with_cstr_def
      by (simp only: if_True if_False simp_thms) (rule says_text_end, simp)
  qed
qed (simp add: node_text_def show_ifi_def with_cstr_def)

lemma show_nodes:
  "m = foldr (\<lambda>(a, i). show_ifi R nospc h i) as (ret ()) \<Longrightarrow>
     (None \<notin> set (texts R h as) \<longrightarrow> (\<exists>ls. m = says ls (ret ()) \<and> concat ls = shown_text R h as)) \<and>
     (None \<in> set (texts R h as) \<longrightarrow> (\<exists>ls z. m = says ls (stop z) \<and> prefix (shown_text R h as) (concat ls) \<and>
        (z = Exit 1 \<or> (\<exists>f. z = Fault f))))"
proof (induction as arbitrary: m)
  case Nil
  then show ?case by (auto intro: exI [where x = "[]"])
next
  case (Cons x as)
  obtain a i where x: "x = (a, i)" by (cases x)
  let ?m = "foldr (\<lambda>(a, i). show_ifi R nospc h i) as (ret ())"
  show ?case
  proof (cases "node_text R h i")
    case None
    with show_ifi_says [of R h i ?m nospc] show ?thesis by (auto simp: x says_text_def Cons.prems)
  next
    case (Some s)
    then obtain ls where ls: "show_ifi R nospc h i ?m = says ls ?m" "concat ls = s"
      using show_ifi_says [of R h i ?m nospc] by (auto simp: says_text_def)
    have more: "says ls (says ms k) = says (ls @ ms) k" "s @ concat ms = concat (ls @ ms)" for ms and k :: "unit io"
      using ls(2) by (simp_all add: says_append)
    show ?thesis
      using Cons.IH [OF refl] by (auto simp: x Some Cons.prems ls(1) more) (metis more(2) same_prefix_prefix more(1))+
  qed
qed

text \<open>
  C35: On a list whose nodes and addresses are blocks of the heap and no two the same, \<open>main\<close> shows the nodes
  in the order of the list, each once and with all its parts, if every one of them can be shown; if not, it
  shows those before the first that cannot, and ends there with status 1 or in undefined behaviour. A node can
  be shown when its name ends and each of its addresses is null or a block with an IPv4 or IPv6 address whose
  text fits. \<open>free_ifi_info\<close> is defined on the list: it gives back the nodes and their addresses and leaves every
  other block as it was.
\<close>

theorem interface_list_shown_and_freed:
  assumes "ifi_list h head as" and "distinct (list_blocks as)"
    and "\<forall>b \<in> set (list_blocks as). block_of h b \<noteq> None"
  shows "(\<exists>r ls. show_list R nospc h (Suc (length (blocks h))) head rs = (r, map Out ls, rs) \<and>
      (if None \<notin> set (texts R h as) then r = Ret () \<and> concat ls = concat (map the (texts R h as))
       else (r = Stop (Exit 1) \<or> (\<exists>f. r = Stop (Fault f))) \<and> prefix (shown_text R h as) (concat ls))) \<and>
    (\<exists>h'. free_ifi_info head h = Some h' \<and> block_of h' = block_of h |` (- set (list_blocks as)))"
proof (intro conjI)
  let ?m = "show_list R nospc h (Suc (length (blocks h))) head"
  have m: "?m = foldr (\<lambda>(a, i). show_ifi R nospc h i) as (ret ())"
    by (rule show_list_all [OF assms(1)]) (rule le_imp_less_Suc [OF list_bound [OF assms(1,2)]])
  have all: "None \<notin> set (texts R h as) \<Longrightarrow> shown_text R h as = concat (map the (texts R h as))"
    unfolding shown_text_def by (subst takeWhile_eq_all_conv [THEN iffD2], auto) (metis not_None_eq)
  note nodes = show_nodes [OF m]
  show "\<exists>r ls. ?m rs = (r, map Out ls, rs) \<and>
      (if None \<notin> set (texts R h as) then r = Ret () \<and> concat ls = concat (map the (texts R h as))
       else (r = Stop (Exit 1) \<or> (\<exists>f. r = Stop (Fault f))) \<and> prefix (shown_text R h as) (concat ls))"
  proof (cases "None \<in> set (texts R h as)")
    case True
    with nodes obtain ls z where "?m = says ls (stop z)" "prefix (shown_text R h as) (concat ls)"
      "z = Exit 1 \<or> (\<exists>f. z = Fault f)" by blast
    with True show ?thesis
      by (intro exI [of _ "Stop z"] exI [of _ ls]) (auto simp: says_run stop_def simp del: show_list.simps)
  next
    case False
    with nodes obtain ls where "?m = says ls (ret ())" "concat ls = shown_text R h as" by blast
    with False all show ?thesis
      by (intro exI [of _ "Ret ()"] exI [of _ ls]) (simp add: says_run ret_def del: show_list.simps)
  qed
  show "\<exists>h'. free_ifi_info head h = Some h' \<and> block_of h' = block_of h |` (- set (list_blocks as))"
    using free_list_ok [OF assms] by (simp add: without_def)
qed

definition lo_node :: "nat \<Rightarrow> nat \<Rightarrow> ifi_info" where
  "lo_node sa next = \<lparr>ifi_name = ''lo'' @ zeros 14, ifi_index = 0, ifi_mtu = 0, ifi_haddr = replicate IFI_HADDR 0,
     ifi_hlen = 0, ifi_flags = 0x49, ifi_myflags = 0x49, ifi_addr = sa, ifi_brdaddr = 0, ifi_dstaddr = 0, ifi_next = next\<rparr>"

text \<open>Two nodes, each with an IPv4 address; \<open>fam\<close> is the family in that of the second.\<close>

definition ipv4_bytes :: "char \<Rightarrow> char \<Rightarrow> char list" where
  "ipv4_bytes fam b = [fam, NUL, NUL, NUL, CHR 0x7F, NUL, NUL, b] @ zeros 8"

definition two_nodes :: "char \<Rightarrow> heap" where
  "two_nodes fam = \<lparr>fresh = 6, blocks = [(1, Ifi (lo_node 2 3)), (2, Bytes (ipv4_bytes (CHR 0x02) (CHR 0x01))),
     (3, Ifi (lo_node 4 0)), (4, Bytes (ipv4_bytes fam (CHR 0x02))), (5, Bytes [])]\<rparr>"

definition lo_text :: "string \<Rightarrow> string" where
  "lo_text a = ''lo: <UP LOOP >'' @ [LF, LF] @ ''AF_INET.'' @ [LF] @ ''   IP addr: '' @ a @ [LF]"

lemma addr_text_ipv4:
  assumes "block_of h p = Some (Bytes (ipv4_bytes fam b))" and "0 < p" and "fam = CHR 0x02 \<or> fam = NUL"
  shows "addr_text R h ''IP'' p =
    (if fam = NUL then None
     else Some (''AF_INET.'' @ [LF] @ ''   IP addr: '' @ dotted [127, 0, 0, of_char b] @ [LF]))"
proof -
  have "length (dotted [127, 0, 0, of_char b]) < INET_ADDRSTRLEN" by (rule dotted_fits) simp
  then show ?thesis
  using assms
  by (auto simp: addr_text_def ipv4_bytes_def short_at_def INET_def INET6_def inet_ntop_def Let_def simp del: dotted.simps)
qed

lemma lo_node_text:
  "node_text R h (lo_node sa next) =
     map_option (\<lambda>s. ''lo: <UP LOOP >'' @ [LF, LF] @ s) (addr_text R h ''IP'' sa)"
  by (cases "addr_text R h ''IP'' sa")
    (simp_all add: node_text_def lo_node_def addr_text_def [of _ _ _ 0] terminated_def cstr_def zeros_eval
      zeros_def ifi_flag_names_def IFF_UP_def IFF_BROADCAST_def IFF_LOOPBACK_def IFF_POINTOPOINT_def IFF_MULTICAST_def)

theorem interface_list_shown_and_freed_witness:
  "(\<exists>ls. show_list no_names ''No space left on device'' (two_nodes (CHR 0x02)) 6 1 [] = (Ret (), map Out ls, []) \<and>
     concat ls = lo_text ''127.0.0.1'' @ lo_text ''127.0.0.2'') \<and>
   (\<exists>h'. free_ifi_info 1 (two_nodes (CHR 0x02)) = Some h' \<and> block_of h' 5 = Some (Bytes []) \<and>
     (\<forall>p \<in> {1, 2, 3, 4}. block_of h' p = None)) \<and>
   (\<exists>r ls. show_list no_names ''No space left on device'' (two_nodes NUL) 6 1 [] = (r, map Out ls, []) \<and>
     r \<noteq> Ret () \<and> prefix (lo_text ''127.0.0.1'') (concat ls))"
proof -
  let ?as = "[(1, lo_node 2 3), (3, lo_node 4 0)]" and ?m = "''No space left on device''"
  have list: "ifi_list (two_nodes f) 1 ?as" and dist: "distinct (list_blocks ?as)"
    and blk: "\<forall>b \<in> set (list_blocks ?as). block_of (two_nodes f) b \<noteq> None" for f
    by (auto simp: two_nodes_def lo_node_def list_blocks_def node_blocks_def)
  have len: "Suc (length (blocks (two_nodes f))) = 6" for f by (simp add: two_nodes_def)
  have set: "set (list_blocks ?as) = {1, 2, 3, 4}" and five: "block_of (two_nodes f) 5 = Some (Bytes [])" for f
    by (auto simp: two_nodes_def lo_node_def list_blocks_def node_blocks_def)
  have texts: "texts no_names (two_nodes (CHR 0x02)) ?as = [Some (lo_text ''127.0.0.1''), Some (lo_text ''127.0.0.2'')]"
    "texts no_names (two_nodes NUL) ?as = [Some (lo_text ''127.0.0.1''), None]"
    by (simp_all add: lo_node_text addr_text_ipv4 lo_text_def two_nodes_def dec.simps digit_run)
  show ?thesis
    using interface_list_shown_and_freed [OF list [of "CHR 0x02"] dist blk, where R = no_names and nospc = ?m and rs = "[]", unfolded len set shown_text_def texts]
      interface_list_shown_and_freed [OF list [of NUL] dist blk, where R = no_names and nospc = ?m and rs = "[]", unfolded len set shown_text_def texts] five
    by auto
qed

text \<open>
  No node survives the walk that made it: whenever \<open>get_ifi_info\<close> is at the head of its loop, there is no
  node in the heap, since the first node is given back together with the block under the walk.
\<close>

theorem no_node_survives:
  assumes "reach (ifi_body 0 family doaliases junk_name) fds0 (\<lparr>fresh = 1, blocks = []\<rparr>, 100 * SIZE_ifreq, 0) fds (h, len, lastlen) t"
  shows "block_of h p \<noteq> Some (Ifi i)"
  using ifi_loop.reach_inv [OF assms] by (auto simp: no_nodes_def)

definition reply_lo6 :: reply where
  "reply_lo6 = (ok 0)\<lparr>num := 40, dat := ''lo'' @ zeros 14 @ [CHR 0x0A, NUL] @ zeros 22\<rparr>"

theorem no_node_survives_witness:
  "case ifi_body 0 INET6 0 (zeros 16) (\<lparr>fresh = 1, blocks = []\<rparr>, 100 * SIZE_ifreq, 0)
       [reply_block 4000, reply_lo6, reply_up, ok 1, ok 1] of
     (r, t, rs) \<Rightarrow> calls (Calloc SIZE_ifi_info) t = 1 \<and>
       (\<exists>h. r = Ret (Inl (h, 28, 0)) \<and> (\<forall>p i. block_of h p \<noteq> Some (Ifi i)))"
proof -
  let ?run = "ifi_body 0 INET6 0 (zeros 16) (\<lparr>fresh = 1, blocks = []\<rparr>, 100 * SIZE_ifreq, 0)
       [reply_block 4000, reply_lo6, reply_up, ok 1, ok 1]"
  obtain h t where r: "?run = (Ret (Inl (h, 28, 0)), t, [])" "conforms {0, 1, 2} t" "calls (Calloc SIZE_ifi_info) t = 1"
    by (simp add: run_simps heap_run ifi_body_def reply_block_def reply_lo6_def reply_up_def SIZE_ifi_info_def
        cong: lazy heap_lazy)
  have "reach (ifi_body 0 INET6 0 (zeros 16)) {0, 1, 2} (\<lparr>fresh = 1, blocks = []\<rparr>, 100 * SIZE_ifreq, 0)
      (fds_run {0, 1, 2} t) (h, 28, 0) t"
    by (rule reach_first [where body = "ifi_body 0 INET6 0 (zeros 16)", OF r(1,2)])
  from no_node_survives [OF this] r show ?thesis by simp
qed

end
