(* ===== verification/Credentials.thy ===== *)
theory Credentials
  imports Unix_Stream
begin

text \<open>
  The echo server that asks who its clients are, \<open>C/unix_stream_credential_server.c\<close>. \<open>read_cred\<close> declares
  its last parameter as \<open>cmsgcreadptr\<close> and uses it as \<open>cmsgcredptr\<close>, so the file does not compile as it is;
  the model reads the two names as one. The structure is that of FreeBSD, with room for 16 groups.
\<close>

definition CRED_BUF_SIZE :: nat where "CRED_BUF_SIZE = 256"
definition CONTROL_LEN :: nat where "CONTROL_LEN = 96"
definition CMGROUP_MAX :: nat where "CMGROUP_MAX = 16"
definition SOL_SOCKET :: int where "SOL_SOCKET = 0xffff"
definition SCM_CREDS :: int where "SCM_CREDS = 3"

subsection \<open>The server\<close>

text \<open>
  \<open>read_cred\<close> goes on as \<open>k\<close> with the count and \<open>errno\<close>, the bytes, and \<open>*cmsgcredptr\<close>. \<open>cred\<close> is what was
  there before; without a control message only the number of groups is set, to 0.
\<close>

definition read_cred :: "int \<Rightarrow> nat \<Rightarrow> cmsgcred \<Rightarrow> (reply \<Rightarrow> cmsgcred \<Rightarrow> 'a io) \<Rightarrow> 'a io" where
  "read_cred fd nbytes cred k =
     sys (Recvmsg fd nbytes) (\<lambda>n.
       if rv n < 0 then perror ''recvmsg'' (k n cred)
       else case control n of
         None \<Rightarrow> k n (cred\<lparr>cmcred_ngroups := 0\<rparr>)
       | Some (len, level, ty, c) \<Rightarrow>
           if len < CONTROL_LEN then printf (''control length = '' @ show_int (int len) @ [LF]) (exit 1)
           else if level \<noteq> SOL_SOCKET then printf (''control level != SOL_SOCKET'' @ [LF]) (exit 1)
           else if ty \<noteq> SCM_CREDS then printf (''control type != SCM_CREDS'' @ [LF]) (exit 1)
           else k n c)"

text \<open>What is printed of the sender; the groups are read from an array of 16.\<close>

definition cred_report :: "cmsgcred \<Rightarrow> string list" where
  "cred_report c =
     (if cmcred_ngroups c = 0 then [''no credentials returned'' @ [LF]]
      else
        [''PID of sender = '' @ show_int (cmcred_pid c) @ [LF],
         ''real user ID = '' @ show_int (cmcred_uid c) @ [LF],
         ''real group ID = '' @ show_int (cmcred_gid c) @ [LF],
         ''effective user ID = '' @ show_int (cmcred_euid c) @ [LF],
         show_int (cmcred_ngroups c - 1) @ '' groups:''] @
        map (\<lambda>i. show_int (cmcred_groups c ! i)) [1..<nat (cmcred_ngroups c)] @ [[LF]])"

definition print_cred :: "cmsgcred \<Rightarrow> 'a io \<Rightarrow> 'a io" where
  "print_cred c k =
     (if cmcred_ngroups c \<noteq> 0 \<and> cmcred_ngroups c > int (length (cmcred_groups c)) then fault Overread
      else says (cred_report c) k)"

definition cred_echo_body :: "int \<Rightarrow> cmsgcred \<Rightarrow> (cmsgcred + unit) io" where
  "cred_echo_body sockfd cred =
     read_cred sockfd CRED_BUF_SIZE cred (\<lambda>n cred'.
       if rv n < 0 then
         (if en n = EINTR then ret (Inl cred') else perror ''read_cred'' (exit 1))
       else print_cred cred' (
         fits (store 0 (dat n) (zeros CRED_BUF_SIZE)) (\<lambda>recvline.
         with_cstr recvline (\<lambda>s.
         fits (put_cstr 0 (response s) (zeros CRED_BUF_SIZE)) (\<lambda>sendline.
         sys (Write sockfd (cstr sendline)) (\<lambda>w.
           if rv w < 0 then perror ''write'' (exit 1) else ret (Inl cred')))))))"

definition cred_str_echo :: "cmsgcred \<Rightarrow> int \<Rightarrow> unit io" where
  "cred_str_echo junk_cred sockfd = loop (cred_echo_body sockfd) junk_cred"

definition cred_srv_body :: "cmsgcred \<Rightarrow> int \<Rightarrow> unit \<Rightarrow> (unit + unit) io" where
  "cred_srv_body junk_cred listenfd _ =
     sys (Accept listenfd) (\<lambda>a.
       if rv a < 0 then
         (if en a = EINTR then ret (Inl ()) else perror ''accept'' (exit 1))
       else sys Fork (\<lambda>pid.
         if rv pid = 0 then sys (Close listenfd) (\<lambda>_. bnd (cred_str_echo junk_cred (rv a)) (\<lambda>_. exit 0))
         else if rv pid > 0 then sys (Close (rv a)) (\<lambda>_. ret (Inl ()))
         else perror ''fork'' (exit 1)))"

definition cred_srv_main :: "cmsgcred \<Rightarrow> unit io" where
  "cred_srv_main junk_cred =
     sys (Socket AF_LOCAL SOCK_STREAM 0) (\<lambda>s.
       if rv s < 0 then perror ''socket'' (exit 1)
       else sys (Unlink UNIX_DOMAIN_PATH) (\<lambda>_.
         sys (Bind (rv s) (Sun UNIX_DOMAIN_PATH)) (\<lambda>b.
           if rv b < 0 then perror ''bind'' (exit 1)
           else sys (Listen (rv s) 5) (\<lambda>_.
             sys (Signal SIGCHLD (Handler ''sig_chld'')) (\<lambda>_.
             loop (cred_srv_body junk_cred (rv s)) ())))))"

subsection \<open>What it does\<close>

interpretation cred_srv: fork_server "\<lambda>_. listenfd" "cred_srv_body junk_cred listenfd" for junk_cred listenfd
  by unfold_locales
    (auto simp: cred_srv_body_def io_simps sys_ok_def intro!: vld_never_back)

text \<open>The messages that came, each with the credentials the kernel attached to it.\<close>

fun mails :: "event list \<Rightarrow> (string \<times> (nat \<times> int \<times> int \<times> cmsgcred) option) list" where
  "mails [] = []"
| "mails (Call (Recvmsg fd n) a # t) = (if 0 \<le> rv a then (dat a, control a) # mails t else mails t)"
| "mails (_ # t) = mails t"

lemma mails_append [simp]: "mails (s @ t) = mails s @ mails t"
  by (induction s rule: mails.induct) auto

lemma mails_says [simp]: "mails (map Out ms) = []" "offered (map Out ms) = []"
  by (induction ms) auto

definition control_ok :: "(nat \<times> int \<times> int \<times> cmsgcred) option \<Rightarrow> bool" where
  "control_ok x = (case x of None \<Rightarrow> True | Some (len, level, ty, c) \<Rightarrow>
     CONTROL_LEN \<le> len \<and> level = SOL_SOCKET \<and> ty = SCM_CREDS)"

definition note_report :: "(nat \<times> int \<times> int \<times> cmsgcred) option \<Rightarrow> string list" where
  "note_report x = (case x of None \<Rightarrow> [''no credentials returned'' @ [LF]] | Some (len, level, ty, c) \<Rightarrow> cred_report c)"

definition reported :: "int \<Rightarrow> event list \<Rightarrow> bool" where
  "reported sockfd t \<longleftrightarrow>
     offered t = map (\<lambda>(m, x). (sockfd, response (cstr m))) (mails t) \<and>
     printed t = concat (map (\<lambda>(m, x). note_report x) (mails t)) \<and> list_all (\<lambda>(m, x). control_ok x) (mails t)"

lemma cred_report_none: "cred_report (c\<lparr>cmcred_ngroups := 0\<rparr>) = [''no credentials returned'' @ [LF]]"
  by (simp add: cred_report_def)

lemma response_put:
  "put_cstr 0 (response (cstr m)) (zeros CRED_BUF_SIZE) = Some sl \<Longrightarrow> cstr sl = response (cstr m)"
  using response_cstr [of "cstr m"] by (auto simp: put_cstr_0 split: if_splits)

lemma cred_turn:
  assumes "reported sockfd h"
  shows "vld fds (cred_echo_body sockfd cred) (\<lambda>r t. \<forall>x. r = Ret x \<longrightarrow> reported sockfd (h @ t))"
  using assms unfolding cred_echo_body_def read_cred_def print_cred_def reported_def
  by (auto simp: io_simps sys_ok_def store_zeros cred_report_none note_report_def control_ok_def response_put
      split: option.split)

interpretation cred_echo: loop_contract "cred_echo_body sockfd" "\<lambda>fds cred h. reported sockfd h" "\<lambda>r t. True" for sockfd
proof (unfold_locales, goal_cases)
  case (1 fds s h)
  show ?case by (rule vld_mono [OF cred_turn [OF 1]]) (simp split: result.split sum.split)
qed simp

subsection \<open>Properties\<close>

text \<open>
  C38: Whoever sends a message is answered and reported. At the head of the loop, every message so far has
  been answered behind \<open>[response] \<close>, in order; what was printed is, message by message, the report of the
  credentials that came with this very message (none are carried over from the message before); and no
  message had a control message of another kind or one that was cut.
\<close>

theorem senders_reported:
  assumes "reach (cred_echo_body sockfd) fds0 junk_cred fds cred t"
  shows "offered t = map (\<lambda>(m, x). (sockfd, response (cstr m))) (mails t) \<and>
    printed t = concat (map (\<lambda>(m, x). note_report x) (mails t)) \<and> list_all (\<lambda>(m, x). control_ok x) (mails t)"
  using cred_echo.reach_inv [OF assms] by (simp add: reported_def)

definition client_7 :: cmsgcred where
  "client_7 = \<lparr>cmcred_pid = 7, cmcred_uid = 5, cmcred_euid = 0, cmcred_gid = 4, cmcred_ngroups = 2,
     cmcred_groups = [4, 6] @ replicate 14 0\<rparr>"

definition mail_7 :: reply where
  "mail_7 = (got ''hi'')\<lparr>num := - 1, control := Some (CONTROL_LEN, SOL_SOCKET, SCM_CREDS, client_7)\<rparr>"

theorem senders_reported_witness:
  "case turns (cred_echo_body 4) client_7 [[mail_7, ok 13], [(got ''ho'')\<lparr>num := - 1\<rparr>, ok 13]] of
     Some (c, t) \<Rightarrow> offered t = [(4, ''[response] hi''), (4, ''[response] ho'')] \<and>
       printed t = [''PID of sender = 7'' @ [LF], ''real user ID = 5'' @ [LF], ''real group ID = 4'' @ [LF],
         ''effective user ID = 0'' @ [LF], ''1 groups:'', ''6'', [LF], ''no credentials returned'' @ [LF]]
   | None \<Rightarrow> False"
proof -
  have u: "[Suc 0..<2] = [Suc 0]" by (simp add: upt_rec)
  have lazy_says: "ms = ms' \<Longrightarrow> says ms k = says ms' k" for ms ms' and k :: "(cmsgcred + unit) io" by simp
  note defs = u run_simps cred_echo_body_def read_cred_def print_cred_def CRED_BUF_SIZE_def mail_7_def CONTROL_LEN_def
    SOL_SOCKET_def SCM_CREDS_def response_def client_7_def cred_report_def
  obtain c t where r: "turns (cred_echo_body 4) client_7 [[mail_7, ok 13], [(got ''ho'')\<lparr>num := - 1\<rparr>, ok 13]] = Some (c, t)"
      "conforms {0, 1, 2, 4} t"
    and m: "mails t = [(''hi'', control mail_7), (''ho'', None)]"
    by (simp add: defs cong: lazy lazy_says)
  have "reach (cred_echo_body 4) {0, 1, 2, 4} client_7 (fds_run {0, 1, 2, 4} t) c t"
    by (rule turns_reach [OF r])
  from senders_reported [OF this] m r(1) show ?thesis
    by (simp add: u note_report_def mail_7_def cred_report_def client_7_def response_def show_int_def dec.simps digit_run cstr_id)
qed

end
