(* ===== verification/No_Spin.thy ===== *)
theory No_Spin
  imports Nonblock_Client Select_Better Ameba_Select Select_Server Http_Client Heartbeat_Router
    Epoll_Server Daemon Daytime_Small Echo_Stream Unix_Stream Multi_Conn Tcp_Udp_Server Datagram
    Simple_Clients Lookup Timeouts Fd_Passing Interfaces Credentials
begin

text \<open>
  The model's loops are adequate. The combinator \<open>loop\<close> has one result that stands for no behaviour of C,
  \<open>Diverge\<close>: a turn that makes no call of the system and goes round again. Here no program ever has it, so that
  every run of a model is one of the program: it ends, does something undefined, or waits for the next reply. This
  says nothing of how many turns a loop makes; where the number is bounded, the theory of the program says so (for
  example \<open>http_client_ends\<close>).

  The locale \<open>busy_loop\<close> is interpreted on the loops that the other theories did not need it for, and with it
  every \<open>main\<close> is \<open>steady\<close>, whatever the kernel replies.
\<close>

subsection \<open>The walks over addresses\<close>

lemma busy_listen_body:
  assumes "\<And>s m. steady m \<Longrightarrow> steady (complain s m)"
  shows "busy_when (\<lambda>x. \<exists>s'. x = Inl s') (listen_body complain s)"
  unfolding listen_body_def
  by (cases s; cases "fst s"; simp; intro busy_intros steady_intros assms; simp)

interpretation listen_perror: busy_loop "listen_body perror"
  by unfold_locales (intro busy_listen_body steady_print)

interpretation listen_syslog: busy_loop "listen_body syslog"
  by unfold_locales (intro busy_listen_body steady_print)

interpretation connect_busy: busy_loop connect_body
  unfolding connect_body_def
  by (unfold_locales; clarsimp split: list.split; intro conjI allI impI busy_intros steady_intros; simp)

interpretation udp_bind_busy: busy_loop udp_bind_body
  unfolding udp_bind_body_def
  by (unfold_locales; clarsimp split: list.split; intro conjI allI impI busy_intros steady_intros; simp)

lemma steady_walks [steady_intros]:
  "steady (udp_client_walk ws fd)" "steady (bind_walk ws fd)"
  by (induction ws arbitrary: fd) (auto intro!: steady_intros)

lemma steady_tcp_listen [steady_intros]:
  "steady (tcp_listen perror perror junk host serv)" "steady (tcp_listen syslog syslog junk host serv)"
  unfolding tcp_listen_def case_prod_unfold
  by (intro steady_intros listen_perror.loop_steady listen_syslog.loop_steady; simp)+

lemma steady_lookups [steady_intros]:
  "steady (tcp_connect gai n junk host serv)" "steady (udp_server gai junk host' serv)"
  "steady (create_and_bind gai junk serv)"
  unfolding tcp_connect_def udp_server_def create_and_bind_def case_prod_unfold
  by (intro steady_intros connect_busy.loop_steady udp_bind_busy.loop_steady; simp)+

lemma steady_udp_client [steady_intros]: "steady (udp_client gai junk host serv)"
  unfolding udp_client_def
  by (intro steady_intros; clarsimp split: list.split; intro conjI allI impI steady_intros; simp)

subsection \<open>The daytime programs\<close>

lemma steady_answers [steady_intros]:
  "steady (tcp_answer fd b)" "steady (log_answer fd b)" "steady (udp_exchange fd sa b)"
  "steady (print_connection_info strerror sa)" "steady (inetd_serve strerror)"
  unfolding tcp_answer_def log_answer_def udp_exchange_def print_connection_info_def inetd_serve_def Let_def
  by (intro steady_intros; simp)+

interpretation tcpd_busy: busy_loop "tcpd_body listenfd" for listenfd
  by unfold_locales (unfold tcpd_body_def, intro busy_intros steady_intros; simp)

interpretation daemon_busy: busy_loop "daemon_body listenfd" for listenfd
  by unfold_locales (unfold daemon_body_def, intro busy_intros steady_intros; simp)

interpretation ds_busy: busy_loop "ds_body listenfd" for listenfd
  by unfold_locales (unfold ds_body_def Let_def, intro busy_intros steady_intros; simp)

lemma steady_close_all [steady_intros]: "steady m \<Longrightarrow> steady (close_all is m)"
  by (induction "is") (auto intro: steady_intros)

lemma steady_daemon_init [steady_intros]: "steady (daemon_init ident facility)"
  unfolding daemon_init_def by (intro steady_intros; simp)

lemma steady_daytime:
  "steady (daytime_tcp_server junk argv)" "steady (daytime_tcp_client gai junk_n junk argv)"
  "steady (daytime_udp_server gai junk junk_buf argv)" "steady (daytime_udp_client gai junk junk_buf argv)"
  "steady (daemon_main junk argv)" "steady (inetd_main strerror argv)" "steady (ds_main junk_buf)"
  "steady (dc_main junk_buf argv)"
  unfolding daytime_tcp_server_def daytime_tcp_client_def daytime_udp_server_def daytime_udp_client_def
    daemon_main_def daemon_serve_def daemon_tcp_listen_def inetd_main_def ds_main_def dc_main_def Let_def case_prod_unfold
  by (intro steady_intros tcpd_busy.loop_steady tcpc_busy.loop_steady udpd_busy.loop_steady
      daemon_busy.loop_steady ds_busy.loop_steady dc_busy.loop_steady; simp)+

subsection \<open>The servers with \<open>select\<close> and \<open>epoll\<close>\<close>

lemma steady_sel [steady_intros]:
  "steady (sel_client i fd st)" "steady (sel_admit fd pa st)" "steady (sel_refuse fd pa st)"
  unfolding sel_client_def sel_drop_def sel_echo_def sel_admit_def sel_refuse_def Let_def
  by (intro steady_intros; simp)+

lemma steady_sel_serve [steady_intros]: "steady (sel_serve R is st)"
  by (induction "is" arbitrary: st) (auto intro!: steady_intros)

interpretation sel_busy: busy_loop "sel_body master" for master
  by unfold_locales (unfold sel_body_def sel_clients_def, intro busy_intros steady_intros; simp)

lemma steady_nonblocking [steady_intros]: "steady (make_socket_non_blocking fd)"
  unfolding make_socket_non_blocking_def by (intro steady_intros)

interpretation accept_busy: busy_loop "accept_body sfd efd" for sfd efd
  by unfold_locales (unfold accept_body_def, intro busy_intros steady_intros; simp)

interpretation drain_busy: busy_loop "drain_body fd" for fd
  by unfold_locales (unfold drain_body_def, intro busy_intros steady_intros; simp)

lemma steady_ep_events [steady_intros]: "steady (ep_events sfd efd es)"
  by (induction es)
     (auto simp: ep_event_def intro!: steady_intros accept_busy.loop_steady drain_busy.loop_steady)

interpretation epoll_busy: busy_loop "epoll_body sfd efd" for sfd efd
  by unfold_locales (unfold epoll_body_def, intro busy_intros steady_intros)

lemma steady_waiting_servers:
  "steady (sel_main opt junk)" "steady (better_main junk)" "steady (ameba_main status junk)"
  "steady (epoll_main gai fd argv)"
  unfolding sel_main_def better_main_def ameba_main_def epoll_main_def
  by (intro steady_intros sel_busy.loop_steady better_busy.loop_steady ameba_busy.loop_steady
      epoll_busy.loop_steady; simp)+

subsection \<open>The servers with a process per connection, and the echo clients\<close>

lemma steady_reap [steady_intros]: "steady (reap say)"
  unfolding reap_def by (rule reap_busy.loop_steady)

interpretation tcp_echo_busy: busy_loop "tcp_echo_body fd" for fd
  by unfold_locales (unfold tcp_echo_body_def, intro busy_intros steady_intros; simp)

interpretation tcp_cli_busy: busy_loop "tcp_cli_body fd" for fd
  by unfold_locales (unfold tcp_cli_body_def, intro busy_intros steady_intros; simp)

interpretation unix_cli_busy: busy_loop "unix_cli_body fd" for fd
  unfolding unix_cli_body_def case_prod_unfold by (unfold_locales; intro busy_intros steady_intros; simp)

interpretation tu_process_busy: busy_loop "tu_process_body fd" for fd
  by unfold_locales (unfold tu_process_body_def, intro busy_intros steady_intros; simp)

lemma steady_read_cred:
  "(\<And>n c. steady (k n c)) \<Longrightarrow> steady (read_cred fd n c k)"
  "(\<And>n c. steady (k n c)) \<Longrightarrow> busy_when P (read_cred fd n c k)"
  unfolding read_cred_def
  by (intro steady_intros busy_sys; clarsimp split: option.split; intro conjI allI impI steady_intros; simp)+

interpretation cred_echo_busy: busy_loop "cred_echo_body fd" for fd
  by unfold_locales
     (unfold cred_echo_body_def print_cred_def, intro steady_read_cred steady_intros; simp)

lemma steady_children [steady_intros]:
  "steady (tcp_str_echo fd)" "steady (unix_str_echo fd)" "steady (cred_str_echo c fd)" "steady (tu_process fd)"
  "steady (mc_process fd)"
  unfolding tcp_str_echo_def unix_str_echo_def cred_str_echo_def tu_process_def mc_process_def
  by (intro steady_intros tcp_echo_busy.loop_steady unix_echo_busy.loop_steady cred_echo_busy.loop_steady
      tu_process_busy.loop_steady; simp)+

interpretation tcp_srv_busy: busy_loop "tcp_srv_body fd" for fd
  by unfold_locales (unfold tcp_srv_body_def, intro busy_intros steady_intros; simp)

interpretation unix_srv_busy: busy_loop "unix_srv_body fd" for fd
  by unfold_locales (unfold unix_srv_body_def, intro busy_intros steady_intros; simp)

interpretation cred_srv_busy: busy_loop "cred_srv_body c fd" for c fd
  by unfold_locales (unfold cred_srv_body_def, intro busy_intros steady_intros; simp)

interpretation mc_busy: busy_loop mc_body
  by unfold_locales (unfold mc_body_def Let_def, intro busy_intros steady_intros; simp)

lemma steady_tu [steady_intros]: "steady (tu_accept fd st)" "steady (tu_datagram fd st)"
  unfolding tu_accept_def tu_datagram_def by (intro steady_intros; simp)+

interpretation tu_busy: busy_loop "tu_body l u" for l u
  by unfold_locales (unfold tu_body_def Let_def, intro busy_intros steady_intros; simp)

lemma steady_forking:
  "steady (tcp_srv_main on)" "steady (unix_srv_main)" "steady (cred_srv_main c)" "steady mc_main" "steady (tu_main opt S)"
  "steady (tcp_cli_main junk argv)" "steady unix_cli_main"
  unfolding tcp_srv_main_def unix_srv_main_def cred_srv_main_def mc_main_def tu_main_def tcp_cli_main_def
    tcp_str_cli_def unix_cli_main_def unix_str_cli_def
  by (intro steady_intros tcp_srv_busy.loop_steady unix_srv_busy.loop_steady cred_srv_busy.loop_steady mc_busy.loop_steady
      tu_busy.loop_steady tcp_cli_busy.loop_steady unix_cli_busy.loop_steady; simp)+

subsection \<open>Datagrams\<close>

interpretation udp_cli_busy: busy_loop "udp_cli_body fd" for fd
  by unfold_locales (unfold udp_cli_body_def, intro busy_intros steady_intros; simp)

interpretation dgram_cli_busy: busy_loop "dgram_cli_body fd" for fd
  by unfold_locales (unfold dgram_cli_body_def, intro busy_intros steady_intros; simp)

interpretation board_recv_busy: busy_loop "board_recv_body fd" for fd
  by unfold_locales (unfold board_recv_body_def, intro busy_intros steady_intros; simp)

interpretation board_send_busy: busy_loop "board_send_body fd" for fd
  by unfold_locales (unfold board_send_body_def, intro busy_intros steady_intros)

lemma steady_dgram_cli_main: "steady (dgram_cli_main tmp)"
  unfolding dgram_cli_main_def dgram_dg_cli_def
  by (cases tmp) (auto intro!: steady_intros dgram_cli_busy.loop_steady)

lemma steady_datagrams:
  "steady udp_srv_main" "steady (udp_cli_main junk argv)" "steady (dgram_srv_main fam path)"
  "steady board_srv_main" "steady board_cli_main"
  unfolding udp_srv_main_def udp_cli_main_def dgram_srv_main_def board_srv_main_def board_cli_main_def
    udp_dg_echo_def udp_dg_cli_def dgram_dg_echo_def
  by (intro steady_intros udp_echo.waiting.loop_steady un_echo.waiting.loop_steady udp_cli_busy.loop_steady
      board_recv_busy.loop_steady board_send_busy.loop_steady; simp)+

subsection \<open>The heartbeat\<close>

lemma steady_expire_tick [steady_intros]: "steady (expire_tick printf n st)" "steady (expire_tick syslog n st)"
  unfolding expire_tick_def by (intro steady_intros; simp)+

interpretation hb_srv_busy: busy_loop "srv_turn fd" for fd
  by unfold_locales
     (auto simp: srv_turn_def srv_accept_def srv_receive_def Let_def split: prod.split
       intro!: busy_bnd_first busy_intros steady_intros)

interpretation hb_cli_busy: busy_loop "cli_turn ip port" for ip port
  by unfold_locales
     (auto simp: cli_turn_def cli_defs expire_tick_def Let_def split: prod.split
       intro!: busy_bnd_first busy_intros steady_intros)

interpretation hb_and_busy: busy_loop "and_turn strerror" for strerror
  by unfold_locales
     (auto simp: and_turn_def and_defs expire_tick_def Let_def split: prod.split
       intro!: busy_bnd_first busy_intros steady_intros)

lemma steady_servlet [steady_intros]: "steady (servlet st)"
  unfolding servlet_def Let_def by (intro steady_intros; simp)

interpretation router_busy: busy_loop "\<lambda>st. bnd (router_turn fd st) (\<lambda>st'. ret (Inl st'))" for fd
  by unfold_locales
     (auto simp: router_turn_def Let_def split: prod.split intro!: busy_bnd_first busy_intros steady_intros)

lemma steady_heartbeat:
  "steady (srv_main argv)" "steady (hb_cli_main argv)" "steady (and_main strerror)" "steady router_main"
  unfolding srv_main_def hb_cli_main_def and_main_def router_main_def Let_def
  by (intro steady_intros hb_srv_busy.loop_steady hb_cli_busy.loop_steady hb_and_busy.loop_steady
      router_busy.loop_steady; simp)+

subsection \<open>The other clients and programs\<close>

interpretation fork_child_busy: busy_loop "fork_child_body fd" for fd
  by unfold_locales (unfold fork_child_body_def, intro busy_intros steady_intros; simp)

interpretation fork_parent_busy: busy_loop "fork_parent_body fd" for fd
  by unfold_locales (unfold fork_parent_body_def, intro busy_intros steady_intros)

lemma steady_relay: "steady (nonblock_main junk argv)" "steady (str_cli to0 fr0 fd)"
  unfolding nonblock_main_def fork_str_cli_def str_cli_def
  by (intro steady_intros fork_child_busy.loop_steady fork_parent_busy.loop_steady cli_busy.loop_steady; simp)+

interpretation exchange_busy: busy_loop "exchange_body fd" for fd
  by unfold_locales (unfold exchange_body_def, intro busy_intros steady_intros; simp)

lemma steady_board_exit [steady_intros]: "steady (board_exit fd)"
  unfolding board_exit_def by (intro steady_intros)

interpretation board_tcp_busy: busy_loop board_tcp_body
  by unfold_locales (unfold board_tcp_body_def, intro busy_intros steady_intros)

lemma steady_simple:
  "steady (bc_main argv)" "steady (sc_main argv)" "steady bs_main" "steady exchange_main" "steady board_tcp_main"
  unfolding bc_main_def sc_main_def cli_connect_def bs_main_def bs_serve_def exchange_main_def send_exchange_data_def
    sock_init_def board_tcp_main_def
  by (intro steady_intros bc_busy.loop_steady sc_busy.loop_steady exchange_busy.loop_steady board_tcp_busy.loop_steady; simp)+

lemma steady_lookup_walks [steady_intros]: "steady (gs_walk R port as)" "steady (dns_walk R ipstr ws)"
proof -
  show "steady (gs_walk R port as)" by (induction "as") (auto intro!: steady_intros)
  show "steady (dns_walk R ipstr ws)" by (induction ws arbitrary: ipstr) (auto simp: Let_def intro!: steady_intros)
qed

lemma steady_gs_serve [steady_intros]: "steady (gs_serve R service addrs)"
  unfolding gs_serve_def by (auto split: option.split intro!: steady_intros)

lemma steady_names:
  "steady (gh_main R argv)" "steady (gs_main R argv)" "steady (dns_main R gai ipstr argv)" "steady (endian_main bytes)"
  unfolding gh_main_def gs_main_def dns_main_def endian_main_def Let_def
  by (auto split: option.split intro!: steady_intros)

interpretation cat_busy: busy_loop "cat_body fd" for fd
  by unfold_locales (unfold cat_body_def, intro busy_intros steady_intros; simp)

lemma steady_my_open [steady_intros]: "steady (my_open fd path mode)"
  unfolding my_open_def read_fd_def Let_def case_prod_unfold by (intro steady_intros; simp)

lemma steady_passing: "steady (openfile_main num_of argv)" "steady (mycat_main fd b argv)" "steady (unixbind_main argv)"
  unfolding openfile_main_def write_fd_def mycat_main_def unixbind_main_def case_prod_unfold
  by (intro steady_intros cat_busy.loop_steady; simp)+

lemma steady_readable_timeout [steady_intros]: "steady (readable_timeout fd sec)"
  unfolding readable_timeout_def by (intro steady_intros)

interpretation adv_busy: busy_loop "adv_dg_body use_select fd sa" for use_select fd sa
  unfolding adv_dg_body_def adv_dg_wait_def case_prod_unfold
  by (unfold_locales; intro busy_intros steady_intros; simp)

lemma steady_adv: "steady (adv_dg_cli use_select fd sa)"
  unfolding adv_dg_cli_def by (rule adv_busy.loop_steady)

subsection \<open>The list of interfaces\<close>

text \<open>
  The walk over the list that \<open>get_ifi_info\<close> returns would spin on a list that runs in a circle; but
  \<open>get_ifi_info\<close> never returns.
\<close>

definition returns :: "('a \<Rightarrow> bool) \<Rightarrow> 'a io \<Rightarrow> bool" where
  "returns P m \<longleftrightarrow> (\<forall>rs x t rs'. m rs = (Ret x, t, rs') \<longrightarrow> P x)"

lemma returns_intros:
  "P x \<Longrightarrow> returns P (ret x)" "returns P (stop z)"
  "(\<And>a. returns P (k a)) \<Longrightarrow> returns P (sys c k)"
  "returns P m \<Longrightarrow> returns P (perror s m)"
  "(\<And>y. returns P (f y)) \<Longrightarrow> returns P (bnd m' f)"
  "(b \<Longrightarrow> returns P m1) \<Longrightarrow> (\<not> b \<Longrightarrow> returns P m2) \<Longrightarrow> returns P (if b then m1 else m2)"
  "(\<And>h'. returns P (k2 h')) \<Longrightarrow> returns P (frees p h k2)"
  by (fastforce simp: returns_def io_defs frees_def split: list.splits prod.splits result.splits option.splits)+

lemma ifi_body_goes_round: "returns (\<lambda>x. \<exists>s'. x = Inl s') (ifi_body fd family doaliases junk s)"
  unfolding ifi_body_def alloc_def Let_def case_prod_unfold prod.case
  by (intro returns_intros; simp)

lemma loop_never_returns:
  assumes "\<And>s. returns (\<lambda>x. \<exists>s'. x = Inl s') (body s)"
  shows "returns (\<lambda>_. False) (loop body s)"
proof -
  have "r \<noteq> Ret x" if "loop body s rs = (r, t, rs')" for rs r x t rs'
    using that
  proof (induction "length rs" arbitrary: s rs r t rs' rule: less_induct)
    case less
    obtain r1 t1 rs1 where b: "body s rs = (r1, t1, rs1)" by (cases "body s rs") auto
    have "\<exists>s'. y = Inl s'" if "r1 = Ret y" for y
      using assms [of s] b that unfolding returns_def by blast
    with b less.prems less.hyps show ?case
      by (cases r1) (fastforce simp: loop.simps [of body s rs] split: if_splits prod.splits)+
  qed
  then show ?thesis unfolding returns_def by blast
qed

lemma get_ifi_info_never_returns: "returns (\<lambda>_. False) (get_ifi_info family doaliases junk h)"
  unfolding get_ifi_info_def Let_def
  by (intro returns_intros loop_never_returns ifi_body_goes_round)

lemma steady_bnd_never:
  assumes "steady m" and "returns (\<lambda>_. False) m"
  shows "steady (bnd m f)"
  using assms by (fastforce simp: steady_def returns_def bnd_def split: prod.splits result.splits)

lemma steady_ifi: "steady (ifi_main R nospc junk argv)"
  unfolding ifi_main_def Let_def
  by (intro steady_intros steady_bnd_never get_ifi_info_never_returns;
      simp add: get_ifi_info_def Let_def; intro steady_intros ifi_busy.loop_steady; simp)

subsection \<open>All programs\<close>

text \<open>
  What the programs find around them: their arguments, the functions of libraries that are not in the
  repository, and what their uninitialised variables hold.
\<close>

record surroundings =
  args :: "string list"
  gai_text :: "int \<Rightarrow> string"
  errno_text :: "errno \<Rightarrow> string"
  errno_num :: "errno \<Rightarrow> int"
  names :: resolver
  new_block :: "nat \<Rightarrow> buf option"
  short_bytes :: "16 word \<Rightarrow> byte list"
  tmp_name :: "string option"
  junk_int :: int
  junk_chars :: buf
  junk_peer :: sockaddr
  junk_fds :: "int set"
  junk_cred :: cmsgcred

text \<open>The programs, and the two functions that no program calls: \<open>str_cli\<close> of the relay and \<open>dg_cli\<close> of \<open>C/advio.c\<close>.\<close>

definition programs :: "surroundings \<Rightarrow> unit io list" where
  "programs w =
     [nonblock_main (junk_chars w) (args w), str_cli (junk_chars w) (junk_chars w) (junk_int w),
      better_main (junk_peer w), ameba_main (junk_int w) (junk_peer w), sel_main (junk_int w) (junk_peer w),
      epoll_main (gai_text w) (junk_int w) (args w), http_main (new_block w) (args w),
      srv_main (args w), hb_cli_main (args w), and_main (errno_text w), router_main,
      daytime_tcp_server (junk_int w) (args w), daytime_tcp_client (gai_text w) (junk_int w) (junk_int w) (args w),
      daytime_udp_server (gai_text w) (junk_int w) (junk_chars w) (args w),
      daytime_udp_client (gai_text w) (junk_int w) (junk_chars w) (args w),
      daemon_main (junk_int w) (args w), inetd_main (errno_text w) (args w), ds_main (junk_chars w),
      dc_main (junk_chars w) (args w),
      tcp_srv_main (junk_int w), tcp_cli_main (junk_chars w) (args w), unix_srv_main, unix_cli_main,
      cred_srv_main (junk_cred w), mc_main, tu_main (junk_int w) (junk_fds w),
      udp_srv_main, udp_cli_main (junk_chars w) (args w), dgram_srv_main (sa_family (junk_peer w)) (junk_chars w),
      dgram_cli_main (tmp_name w), board_srv_main, board_cli_main,
      bc_main (args w), sc_main (args w), bs_main, exchange_main, board_tcp_main,
      gh_main (names w) (args w), gs_main (names w) (args w), dns_main (names w) (gai_text w) (junk_chars w) (args w),
      endian_main (short_bytes w), openfile_main (errno_num w) (args w), mycat_main (junk_int w) (junk_chars w) (args w),
      unixbind_main (args w), ifi_main (names w) (errno_text w (EOTHER 28)) (junk_chars w) (args w),
      adv_dg_cli False (junk_int w) (junk_peer w), adv_dg_cli True (junk_int w) (junk_peer w)]"

text \<open>
  The result \<open>Diverge\<close> of the loop combinator never arises: for every list of replies, a run of a program of the
  repository ends, does something undefined, or goes from one call of the system to the next.
\<close>

theorem programs_never_diverge:
  assumes "m \<in> set (programs w)" and "m rs = (r, t, rs')"
  shows "r \<noteq> Stop Diverge"
proof -
  have "list_all steady (programs w)"
    by (simp add: programs_def steady_daytime steady_waiting_servers steady_forking steady_dgram_cli_main
        steady_datagrams steady_heartbeat http_steady steady_relay steady_simple steady_names steady_passing
        steady_adv steady_ifi)
  with assms show ?thesis by (auto simp: list_all_iff steady_def)
qed

definition some_surroundings :: surroundings where
  "some_surroundings = \<lparr>args = [], gai_text = (\<lambda>_. []), errno_text = (\<lambda>_. []), errno_num = (\<lambda>_. 1), names = no_names,
     new_block = (\<lambda>_. None), short_bytes = (\<lambda>_. [2, 1]), tmp_name = None, junk_int = 0, junk_chars = [],
     junk_peer = Sa_other 0, junk_fds = {},
     junk_cred = \<lparr>cmcred_pid = 0, cmcred_uid = 0, cmcred_euid = 0, cmcred_gid = 0, cmcred_ngroups = 0, cmcred_groups = []\<rparr>\<rparr>"

theorem programs_never_diverge_witness:
  "case board_cli_main [ok 3, ok 16, ok 0, ok 16] of (r, t, rs) \<Rightarrow>
     conforms {0, 1, 2} t \<and> r \<noteq> Stop Diverge \<and> length (sent_to t) = 2"
proof -
  obtain r t rs where run: "board_cli_main [ok 3, ok 16, ok 0, ok 16] = (r, t, rs)" by (rule prod_cases3)
  have "case board_cli_main [ok 3, ok 16, ok 0, ok 16] of (r, t, rs) \<Rightarrow> conforms {0, 1, 2} t \<and> length (sent_to t) = 2"
    by (simp add: run_simps board_cli_main_def board_send_body_def BOARD_MSG_def cong: lazy)
  with run have "conforms {0, 1, 2} t" "length (sent_to t) = 2" by simp_all
  moreover have "board_cli_main \<in> set (programs some_surroundings)" by (simp add: programs_def)
  ultimately show ?thesis using programs_never_diverge run by fastforce
qed

end
