(* ===== verification/Board_Server.thy ===== *)
theory Board_Server
  imports Select_Better Ameba_Select Same_Calls
begin

text \<open>
  The server of the board and the server of \<open>C/select_srv_better.c\<close> compared. They are copies; the one for the
  board leaves out messages and \<open>getpeername\<close>. A relation between programs says that one makes the calls of
  the other and, besides, calls of a given kind; the combinators keep it, and so do loops.
\<close>

subsection \<open>A program with more calls\<close>

fun kept :: "(call \<Rightarrow> bool) \<Rightarrow> event list \<Rightarrow> event list" where
  "kept E [] = []"
| "kept E (Call c a # t) = (if E c then kept E t else Call c a # kept E t)"
| "kept E (_ # t) = kept E t"

fun replies :: "event list \<Rightarrow> reply list" where
  "replies [] = []"
| "replies (Call c a # t) = a # replies t"
| "replies (_ # t) = replies t"

lemma kept_append [simp]: "kept E (s @ t) = kept E s @ kept E t"
  by (induction E s rule: kept.induct) auto

lemma replies_append [simp]: "replies (s @ t) = replies s @ replies t"
  by (induction s rule: replies.induct) auto

text \<open>The end of a run with another exit status.\<close>

fun with_status :: "int \<Rightarrow> stop \<Rightarrow> stop" where
  "with_status ex (Exit n) = Exit ex"
| "with_status ex z = z"

fun like :: "int \<Rightarrow> ('a \<Rightarrow> 'b \<Rightarrow> bool) \<Rightarrow> 'a result \<Rightarrow> 'b result \<Rightarrow> bool" where
  "like ex Q (Ret x) (Ret y) = Q x y"
| "like ex Q (Stop z) (Stop z') = (z' = with_status ex z)"
| "like ex Q _ _ = False"

text \<open>
  \<open>more ex E Q m m'\<close>: whatever \<open>m\<close> does, \<open>m'\<close> does from the same replies, those to the calls in \<open>E\<close> left out; it
  makes the same calls but these, and their results are related by \<open>Q\<close>; where \<open>m\<close> exits, \<open>m'\<close> exits with the
  status \<open>ex\<close>. A program that stopped as \<open>Blocked\<close>
  has used all its replies; any other leaves those that follow.
\<close>

definition more :: "int \<Rightarrow> (call \<Rightarrow> bool) \<Rightarrow> ('a \<Rightarrow> 'b \<Rightarrow> bool) \<Rightarrow> 'a io \<Rightarrow> 'b io \<Rightarrow> bool" where
  "more ex E Q m m' \<longleftrightarrow> (\<forall>rs r t rs'. m rs = (r, t, rs') \<longrightarrow>
     (\<exists>r' t'. like ex Q r r' \<and> sys_calls t' = kept E t \<and>
       (if r = Stop Blocked then rs' = [] \<and> m' (replies (kept E t)) = (r', t', [])
        else \<forall>tail. m' (replies (kept E t) @ tail) = (r', t', tail))))"

named_theorems more_intros "programs that make the calls of another and some more"

lemma moreI:
  assumes "\<And>rs r t rs'. m rs = (r, t, rs') \<Longrightarrow> \<exists>r' t'. like ex Q r r' \<and> sys_calls t' = kept E t \<and>
       (if r = Stop Blocked then rs' = [] \<and> m' (replies (kept E t)) = (r', t', [])
        else \<forall>tail. m' (replies (kept E t) @ tail) = (r', t', tail))"
  shows "more ex E Q m m'"
  using assms unfolding more_def by blast

lemma moreE:
  assumes "more ex E Q m m'" and "m rs = (r, t, rs')"
  obtains r' t' where "like ex Q r r'" "sys_calls t' = kept E t"
    "r = Stop Blocked \<Longrightarrow> rs' = [] \<and> m' (replies (kept E t)) = (r', t', [])"
    "\<And>tail. r \<noteq> Stop Blocked \<Longrightarrow> m' (replies (kept E t) @ tail) = (r', t', tail)"
  using assms unfolding more_def by (metis (full_types))

lemma more_ret [more_intros]: "Q x y \<Longrightarrow> more ex E Q (ret x) (ret y)"
  by (auto simp: more_def ret_def)

lemma more_end: "z \<noteq> Blocked \<Longrightarrow> more ex E Q (stop z) (stop (with_status ex z))"
  by (auto simp: more_def stop_def intro!: exI [where x = "Stop (with_status ex z)"])

lemma more_stop [more_intros]: "more ex E Q (exit n) (exit ex)" "more ex E Q (fault f) (fault f)"
  using more_end [of "Exit n"] more_end [of "Fault f"] by simp_all

lemma more_sys [more_intros]:
  assumes "\<And>a. more ex E Q (k a) (k' a)" and "\<not> E c"
  shows "more ex E Q (sys c k) (sys c k')"
proof (rule moreI)
  fix rs r t rs' assume run: "sys c k rs = (r, t, rs')"
  show "\<exists>r' t'. like ex Q r r' \<and> sys_calls t' = kept E t \<and>
       (if r = Stop Blocked then rs' = [] \<and> sys c k' (replies (kept E t)) = (r', t', [])
        else \<forall>tail. sys c k' (replies (kept E t) @ tail) = (r', t', tail))"
  proof (cases rs)
    case Nil
    with run show ?thesis by (auto simp: sys_def intro!: exI [where x = "Stop Blocked"] exI [where x = "[]"])
  next
    case (Cons a rs1)
    with run obtain t1 where k: "k a rs1 = (r, t1, rs')" and t: "t = Call c a # t1"
      by (auto simp: sys_def split: prod.splits)
    from moreE [OF assms(1) k] obtain r' t' where "like ex Q r r'" "sys_calls t' = kept E t1"
      "r = Stop Blocked \<Longrightarrow> rs' = [] \<and> k' a (replies (kept E t1)) = (r', t', [])"
      "\<And>tail. r \<noteq> Stop Blocked \<Longrightarrow> k' a (replies (kept E t1) @ tail) = (r', t', tail)" by blast
    with t assms(2) show ?thesis
      by (intro exI [where x = r'] exI [where x = "Call c a # t'"]) (auto simp: sys_def)
  qed
qed

text \<open>The call that only the first program makes: the second is about to make its next one.\<close>

lemma more_extra:
  assumes "\<And>a. more ex E Q (k a) m'" and "E c" and "m' [] = (Stop Blocked, [], [])"
  shows "more ex E Q (sys c k) m'"
proof (rule moreI)
  fix rs r t rs' assume run: "sys c k rs = (r, t, rs')"
  show "\<exists>r' t'. like ex Q r r' \<and> sys_calls t' = kept E t \<and>
       (if r = Stop Blocked then rs' = [] \<and> m' (replies (kept E t)) = (r', t', [])
        else \<forall>tail. m' (replies (kept E t) @ tail) = (r', t', tail))"
  proof (cases rs)
    case Nil
    with run assms(3) show ?thesis by (auto simp: sys_def intro!: exI [where x = "Stop Blocked"] exI [where x = "[]"])
  next
    case (Cons a rs1)
    with run obtain t1 where k: "k a rs1 = (r, t1, rs')" and t: "t = Call c a # t1"
      by (auto simp: sys_def split: prod.splits)
    from moreE [OF assms(1) k] t assms(2) show ?thesis by (metis (full_types) kept.simps(2))
  qed
qed

lemma more_tell: "more ex E Q m m' \<Longrightarrow> (\<And>c a. e \<noteq> Call c a) \<Longrightarrow> more ex E Q (tell e m) m'"
  by (cases e) (fastforce simp: more_def tell_def split: prod.splits)+

lemma more_tell_right:
  assumes "more ex E Q m m'" and "\<And>c a. e \<noteq> Call c a"
  shows "more ex E Q m (tell e m')"
proof (rule moreI)
  fix rs r t rs' assume run: "m rs = (r, t, rs')"
  from moreE [OF assms(1) run] obtain r' t' where "like ex Q r r'" "sys_calls t' = kept E t"
    "r = Stop Blocked \<Longrightarrow> rs' = [] \<and> m' (replies (kept E t)) = (r', t', [])"
    "\<And>tail. r \<noteq> Stop Blocked \<Longrightarrow> m' (replies (kept E t) @ tail) = (r', t', tail)" by blast
  with assms(2) show "\<exists>r' t'. like ex Q r r' \<and> sys_calls t' = kept E t \<and>
       (if r = Stop Blocked then rs' = [] \<and> tell e m' (replies (kept E t)) = (r', t', [])
        else \<forall>tail. tell e m' (replies (kept E t) @ tail) = (r', t', tail))"
    by (cases e) (intro exI [where x = r'] exI [where x = "e # t'"]; auto simp: tell_def)+
qed

lemma more_printf [more_intros]:
  "more ex E Q m m' \<Longrightarrow> more ex E Q (printf s m) m'" "more ex E Q m m' \<Longrightarrow> more ex E Q m (printf s m')"
  by (simp_all add: printf_def more_tell more_tell_right)

lemma more_says [more_intros]: "more ex E Q m m' \<Longrightarrow> more ex E Q (says ms m) m'"
  by (induction ms) (simp_all add: more_printf)

lemma more_if [more_intros]:
  "(b \<Longrightarrow> more ex E Q m m') \<Longrightarrow> (\<not> b \<Longrightarrow> more ex E Q n n') \<Longrightarrow> more ex E Q (if b then m else n) (if b then m' else n')"
  by simp

lemma more_helpers [more_intros]:
  "(\<And>b. more ex E Q (k1 b) (k1' b)) \<Longrightarrow> more ex E Q (fits x k1) (fits x k1')"
  "(\<And>s. more ex E Q (k2 s) (k2' s)) \<Longrightarrow> more ex E Q (with_cstr b k2) (with_cstr b k2')"
  "(\<And>S'. more ex E Q (k3 S') (k3' S')) \<Longrightarrow> more ex E Q (fd_set fd S k3) (fd_set fd S k3')"
  "(\<And>S'. more ex E Q (k3 S') (k3' S')) \<Longrightarrow> more ex E Q (fd_clr fd S k3) (fd_clr fd S k3')"
  "(\<And>y. more ex E Q (k4 y) (k4' y)) \<Longrightarrow> more ex E Q (fd_isset fd S k4) (fd_isset fd S k4')"
  "(\<And>y. more ex E Q (k5 y) (k5' y)) \<Longrightarrow> more ex E Q (arr_get xs i k5) (arr_get xs i k5')"
  "(\<And>y. more ex E Q (k6 y) (k6' y)) \<Longrightarrow> more ex E Q (arr_set xs i v k6) (arr_set xs i v k6')"
  by (auto simp: fits_def with_cstr_def fd_set_def fd_clr_def fd_isset_def arr_get_def arr_set_def
      intro: more_stop split: option.split)

lemma more_bnd:
  assumes m: "more ex E P m m'" and f: "\<And>x y. P x y \<Longrightarrow> more ex E Q (f x) (f' y)"
  shows "more ex E Q (bnd m f) (bnd m' f')"
proof (rule moreI)
  fix rs r t rs' assume run: "bnd m f rs = (r, t, rs')"
  obtain r1 t1 rs1 where m1: "m rs = (r1, t1, rs1)" by (cases "m rs") auto
  from moreE [OF m m1] obtain r1' t1' where 1: "like ex P r1 r1'" "sys_calls t1' = kept E t1"
    "r1 = Stop Blocked \<Longrightarrow> rs1 = [] \<and> m' (replies (kept E t1)) = (r1', t1', [])"
    "\<And>tail. r1 \<noteq> Stop Blocked \<Longrightarrow> m' (replies (kept E t1) @ tail) = (r1', t1', tail)" by blast
  show "\<exists>r' t'. like ex Q r r' \<and> sys_calls t' = kept E t \<and>
       (if r = Stop Blocked then rs' = [] \<and> bnd m' f' (replies (kept E t)) = (r', t', [])
        else \<forall>tail. bnd m' f' (replies (kept E t) @ tail) = (r', t', tail))"
  proof (cases r1)
    case (Stop z)
    with 1(1) have "r1' = Stop (with_status ex z)" by (cases r1') auto
    with Stop run m1 1 show ?thesis
      by (intro exI [where x = "Stop (with_status ex z)"] exI [where x = t1']) (auto simp: bnd_def)
  next
    case (Ret x)
    with 1(1) obtain y where y: "r1' = Ret y" "P x y" by (cases r1') auto
    obtain r2 t2 rs2 where f1: "f x rs1 = (r2, t2, rs2)" by (cases "f x rs1") auto
    from moreE [OF f [OF y(2)] f1] obtain r2' t2' where 2: "like ex Q r2 r2'" "sys_calls t2' = kept E t2"
      "r2 = Stop Blocked \<Longrightarrow> rs2 = [] \<and> f' y (replies (kept E t2)) = (r2', t2', [])"
      "\<And>tail. r2 \<noteq> Stop Blocked \<Longrightarrow> f' y (replies (kept E t2) @ tail) = (r2', t2', tail)" by blast
    have "r = r2" "t = t1 @ t2" "rs' = rs2" using run m1 f1 Ret by (auto simp: bnd_def)
    with Ret 1 2 y show ?thesis
      by (intro exI [where x = r2'] exI [where x = "t1' @ t2'"]) (auto simp: bnd_def)
  qed
qed

text \<open>The turns of two loops, from states related by \<open>P\<close>.\<close>

fun next_like :: "('s \<Rightarrow> 't \<Rightarrow> bool) \<Rightarrow> ('a \<Rightarrow> 'b \<Rightarrow> bool) \<Rightarrow> 's + 'a \<Rightarrow> 't + 'b \<Rightarrow> bool" where
  "next_like P Q (Inl s) (Inl s') = P s s'"
| "next_like P Q (Inr x) (Inr y) = Q x y"
| "next_like P Q _ _ = False"

lemma more_loop:
  assumes body: "\<And>s s'. P s s' \<Longrightarrow> more ex E (next_like P Q) (body s) (body' s')"
    and busy: "\<And>s. busy_when (\<lambda>x. \<exists>s'. x = Inl s') (body s)"
    and busy': "\<And>s. busy_when (\<lambda>x. \<exists>s'. x = Inl s') (body' s)"
    and start: "P s s'"
  shows "more ex E Q (loop body s) (loop body' s')"
proof (rule moreI)
  fix rs r t rs' assume "loop body s rs = (r, t, rs')"
  then show "\<exists>r' t'. like ex Q r r' \<and> sys_calls t' = kept E t \<and>
       (if r = Stop Blocked then rs' = [] \<and> loop body' s' (replies (kept E t)) = (r', t', [])
        else \<forall>tail. loop body' s' (replies (kept E t) @ tail) = (r', t', tail))"
    using start
  proof (induction "length rs" arbitrary: s s' rs r t rs' rule: less_induct)
    case less
    obtain r1 t1 rs1 where b: "body s rs = (r1, t1, rs1)" by (cases "body s rs") auto
    from moreE [OF body [OF less.prems(2)] b] obtain r1' t1' where 1: "like ex (next_like P Q) r1 r1'"
      "sys_calls t1' = kept E t1" "r1 = Stop Blocked \<Longrightarrow> rs1 = [] \<and> body' s' (replies (kept E t1)) = (r1', t1', [])"
      "\<And>tail. r1 \<noteq> Stop Blocked \<Longrightarrow> body' s' (replies (kept E t1) @ tail) = (r1', t1', tail)" by blast
    consider (stop) z where "r1 = Stop z" | (leave) x where "r1 = Ret (Inr x)" | (round) u where "r1 = Ret (Inl u)"
      by (metis result.exhaust sum.exhaust)
    then show ?case
    proof cases
      case stop
      with 1(1) have "r1' = Stop (with_status ex z)" by (cases r1') auto
      moreover have "r = Stop z" "t = t1" "rs' = rs1"
        using less.prems(1) b stop by (auto simp: loop.simps [of body s rs])
      ultimately show ?thesis
        using 1 stop by (intro exI [where x = "Stop (with_status ex z)"] exI [where x = t1']) (auto simp: loop.simps [of body' s'])
    next
      case leave
      with 1(1) obtain y where "r1' = Ret (Inr y)" "Q x y"
        by (cases r1') (auto elim: next_like.elims)
      moreover have "r = Ret x" "t = t1" "rs' = rs1"
        using less.prems(1) b leave by (auto simp: loop.simps [of body s rs])
      ultimately show ?thesis
        using 1 leave by (intro exI [where x = "Ret y"] exI [where x = t1']) (auto simp: loop.simps [of body' s'])
    next
      case round
      with 1(1) obtain u' where u': "r1' = Ret (Inl u')" "P u u'"
        by (cases r1') (auto elim: next_like.elims)
      from busy [of s] b round have lt: "length rs1 < length rs" by (auto simp: busy_when_def)
      obtain r2 t2 rs2 where l: "loop body u rs1 = (r2, t2, rs2)" by (cases "loop body u rs1") auto
      have rt: "r = r2" "t = t1 @ t2" "rs' = rs2"
        using less.prems(1) b round lt l by (auto simp: loop.simps [of body s rs])
      from less.hyps [OF lt l u'(2)] obtain r2' t2' where 2: "like ex Q r2 r2'" "sys_calls t2' = kept E t2"
        "r2 = Stop Blocked \<Longrightarrow> rs2 = [] \<and> loop body' u' (replies (kept E t2)) = (r2', t2', [])"
        "\<And>tail. r2 \<noteq> Stop Blocked \<Longrightarrow> loop body' u' (replies (kept E t2) @ tail) = (r2', t2', tail)"
        by (metis (full_types))
      have "replies (kept E t1) \<noteq> []"
        using busy' [of s'] 1(4) [of "[]"] u'(1) round by (fastforce simp: busy_when_def)
      then have step: "loop body' s' (replies (kept E t1) @ w) =
          (case loop body' u' w of (r', t', w') \<Rightarrow> (r', t1' @ t', w'))" for w
        using 1(4) [of w] u'(1) round by (simp add: loop.simps [of body' s'])
      with rt 1(2) 2 show ?thesis
        by (intro exI [where x = r2'] exI [where x = "t1' @ t2'"]) (auto simp: step)
    qed
  qed
qed

subsection \<open>The two servers\<close>

fun asks_peer :: "call \<Rightarrow> bool" where
  "asks_peer (On fd op) = (op = GETPEERNAME)"
| "asks_peer _ = False"

text \<open>The states agree but for the address of the last client, which the board does not keep.\<close>

definition same_pool :: "pool \<Rightarrow> pool \<Rightarrow> bool" where
  "same_pool st st' \<longleftrightarrow> cli_socks st' = cli_socks st \<and> active_fds st' = active_fds st \<and>
     max_sd st' = max_sd st \<and> maxi st' = maxi st"

lemma client_more:
  assumes "same_pool st st'"
  shows "more ex asks_peer same_pool (better_client i fd st) (ameba_client i fd st')"
  using assms unfolding better_client_def ameba_client_def Let_def same_pool_def
  by (auto intro!: more_intros more_extra simp: sys_def)

lemma serve_more:
  "same_pool st st' \<Longrightarrow> more ex asks_peer same_pool (better_serve R is st n) (ameba_serve R is st' n)"
proof (induction "is" arbitrary: st st' n)
  case Nil
  then show ?case by (simp add: more_ret)
next
  case (Cons i "is")
  have "more ex asks_peer same_pool
      (bnd (better_client i fd st) (\<lambda>st'. if n - 1 \<le> 0 then ret st' else better_serve R is st' (n - 1)))
      (bnd (ameba_client i fd st') (\<lambda>st'. if n - 1 \<le> 0 then ret st' else ameba_serve R is st' (n - 1)))" for fd
    by (rule more_bnd [OF client_more [OF Cons.prems]]) (intro more_intros Cons.IH; simp)
  moreover have "cli_socks st' = cli_socks st" using Cons.prems by (simp add: same_pool_def)
  ultimately show ?case using Cons.IH [OF Cons.prems] by (auto intro!: more_intros)
qed

lemma serve_round_more:
  assumes "same_pool st st'"
  shows "more ex asks_peer (next_like same_pool Q) (bnd (better_serve R is st n) (\<lambda>u. ret (Inl u)))
    (bnd (ameba_serve R is st' n) (\<lambda>u. ret (Inl u)))"
  by (rule more_bnd [OF serve_more [OF assms]]) (simp add: more_ret)

lemma admit_more:
  assumes "same_pool st st'"
  shows "more ex asks_peer (next_like same_pool Q) (better_admit R n b st) (ameba_admit R n b st')"
  using assms unfolding better_admit_def ameba_admit_def Let_def
  by (auto simp: same_pool_def intro!: more_intros serve_round_more)

lemma body_more:
  assumes "same_pool st st'"
  shows "more ex asks_peer (next_like same_pool Q) (better_body master st) (ameba_body master st')"
  using assms unfolding better_body_def ameba_body_def
  by (auto simp: same_pool_def intro!: more_intros serve_round_more admit_more)

lemma main_more: "more ex asks_peer (=) (better_main junk) (ameba_main ex junk')"
proof -
  have "same_pool (start_pool master junk) (start_pool master junk')" for master
    by (simp add: same_pool_def start_pool_def)
  then show ?thesis
    unfolding better_main_def ameba_main_def
    by (auto intro!: more_intros more_loop [OF body_more better_busy.busy ameba_busy.busy])
qed

subsection \<open>Properties\<close>

text \<open>
  C13: The board serves as the other server does. Leave out of any run of the server the calls of
  \<open>getpeername\<close> and their replies: on the replies that remain the server of the board makes the calls that
  remain, in the same order, and ends in the same way, but for the status of a process that exits because it
  could not start: \<open>main\<close> of the board is \<open>void\<close>, so that the status may be any number.
\<close>

theorem board_serves_the_same:
  assumes "better_main junk rs = (r, t, rs')"
  shows "\<exists>r' t'. ameba_main status junk' (replies (kept asks_peer t) @ rs') = (r', t', rs') \<and>
    sys_calls t' = kept asks_peer t \<and> r' = (case r of Stop (Exit n) \<Rightarrow> Stop (Exit status) | _ \<Rightarrow> r)"
proof -
  from moreE [OF main_more assms, of status junk'] obtain r' t' where 1: "like status (=) r r'" "sys_calls t' = kept asks_peer t"
    "r = Stop Blocked \<Longrightarrow> rs' = [] \<and> ameba_main status junk' (replies (kept asks_peer t)) = (r', t', [])"
    "r \<noteq> Stop Blocked \<Longrightarrow> ameba_main status junk' (replies (kept asks_peer t) @ rs') = (r', t', rs')" by metis
  have "r' = (case r of Stop (Exit n) \<Rightarrow> Stop (Exit status) | _ \<Rightarrow> r)"
    using 1(1) by (cases r; cases r') (auto split: stop.splits)
  with 1 show ?thesis by (cases "r = Stop Blocked") auto
qed

text \<open>A client comes and goes.\<close>

definition comes_and_goes :: "reply list" where
  "comes_and_goes = [ok 3, ok 0, ok 0, ok 0, ready {3} {}, client_5, ready {5} {}, got '''', client_5, ok 0]"

theorem board_serves_the_same_witness:
  "case better_main (Sa_other 0) comes_and_goes of (r, t, rs) \<Rightarrow> conforms {0, 1, 2} t \<and> length (sys_calls t) = 10 \<and>
     (\<exists>t'. ameba_main 7 (Sa_other 0) (replies (kept asks_peer t)) = (Stop Blocked, t', []) \<and> length (sys_calls t') = 9)"
proof -
  obtain r t rs where run: "better_main (Sa_other 0) comes_and_goes = (r, t, rs)" by (rule prod_cases3)
  have "case better_main (Sa_other 0) comes_and_goes of (r, t, rs) \<Rightarrow> r = Stop Blocked \<and> rs = [] \<and>
      conforms {0, 1, 2} t \<and> length (sys_calls t) = 10 \<and> length (kept asks_peer t) = 9"
    by (simp add: run_simps better_defs comes_and_goes_def client_5_def upto.simps reply_simps cong: lazy)
  with run have "r = Stop Blocked" "rs = []" "conforms {0, 1, 2} t" "length (sys_calls t) = 10"
    "length (kept asks_peer t) = 9" by simp_all
  with board_serves_the_same [OF run, of 7 "Sa_other 0"] run show ?thesis by auto
qed

end
