(* ===== verification/Datagram_Pair.thy ===== *)
theory Datagram_Pair
  imports Datagram
begin

text \<open>
  Client and server of the echo by datagrams together, over UDP and in the local domain. A network of
  datagrams may lose them, and these clients wait for one answer per line; the theorems say what a user
  sees whatever is lost.
\<close>

subsection \<open>A client that asks line by line\<close>

text \<open>The lines that were typed, each up to its first NUL.\<close>

fun lines_typed :: "event list \<Rightarrow> string list" where
  "lines_typed [] = []"
| "lines_typed (Call (File (FGETS n)) a # t) = (if rv a = 0 then lines_typed t else cstr (dat a) # lines_typed t)"
| "lines_typed (_ # t) = lines_typed t"

lemma lines_typed_append [simp]: "lines_typed (s @ t) = lines_typed s @ lines_typed t"
  by (induction s rule: lines_typed.induct) auto

lemma lines_typed_NUL: "l \<in> set (lines_typed t) \<Longrightarrow> NUL \<notin> set l"
  by (induction t rule: lines_typed.induct) (auto split: if_splits)

text \<open>
  What a client promises: what it sends are the lines that were typed, and the answers it shows are the
  first of those it got. \<open>out\<close> and \<open>inp\<close> are the datagrams it offered and got, \<open>shown\<close> the
  answers it printed, and \<open>view\<close> is how it prints one.
\<close>

definition asks_lines ::
  "(event list \<Rightarrow> string list) \<Rightarrow> (event list \<Rightarrow> string list) \<Rightarrow> (event list \<Rightarrow> string list) \<Rightarrow> (string \<Rightarrow> string) \<Rightarrow>
    bool \<Rightarrow> event list \<Rightarrow> bool" where
  "asks_lines out inp shown view going t \<longleftrightarrow>
     prefix (out t) (lines_typed t) \<and> prefix (shown t) (map (\<lambda>m. view (cstr m)) (inp t)) \<and>
     (going \<longrightarrow> out t = lines_typed t \<and> shown t = map (\<lambda>m. view (cstr m)) (inp t))"

locale asks_dgrams =
  fixes body :: "buf \<Rightarrow> (buf + unit) io"
    and out inp shown :: "event list \<Rightarrow> string list" and view :: "string \<Rightarrow> string"
  assumes ask: "vld fds (body b) (\<lambda>r t. asks_lines out inp shown view (\<exists>x. r = Ret x) t)"
    and out_append: "out (s @ t) = out s @ out t"
    and inp_append: "inp (s @ t) = inp s @ inp t"
    and shown_append: "shown (s @ t) = shown s @ shown t"
begin

lemma nothing [simp]: "out [] = []" "inp [] = []" "shown [] = []"
  using out_append [of "[]" "[]"] inp_append [of "[]" "[]"] shown_append [of "[]" "[]"] by simp_all

lemma run_append:
  "asks_lines out inp shown view True s \<Longrightarrow> asks_lines out inp shown view g t \<Longrightarrow> asks_lines out inp shown view g (s @ t)"
  by (auto simp: asks_lines_def out_append inp_append shown_append)

end

sublocale asks_dgrams \<subseteq> asking: loop_contract body
    "\<lambda>fds b h. asks_lines out inp shown view True h" "\<lambda>r h. asks_lines out inp shown view False h"
proof (unfold_locales, goal_cases)
  case (1 fds s h)
  note add = run_append [OF 1]
  have weaken: "asks_lines out inp shown view g t \<Longrightarrow> asks_lines out inp shown view False t" for g t
    by (simp add: asks_lines_def)
  show ?case
    by (rule vld_mono [OF ask]) (auto intro: add weaken split: result.split sum.split)
qed (simp add: asks_lines_def)

context asks_dgrams begin

lemma ask_run:
  assumes "loop body b rs = (r, t, rs')" and "conforms fds t"
  shows "prefix (out t) (lines_typed t) \<and> prefix (shown t) (map (\<lambda>m. view (cstr m)) (inp t))"
  using vldD [OF asking.loop_post assms] by (simp add: asks_lines_def)

end

text \<open>The client over UDP.\<close>

fun udp_got :: "event list \<Rightarrow> string list" where
  "udp_got [] = []"
| "udp_got (Call (Transfer fd (READ n)) a # t) = (if 0 \<le> rv a then dat a # udp_got t else udp_got t)"
| "udp_got (_ # t) = udp_got t"

lemma udp_got_append [simp]: "udp_got (s @ t) = udp_got s @ udp_got t"
  by (induction s rule: udp_got.induct) auto

definition udp_view :: "string \<Rightarrow> string" where
  "udp_view s = ''[client] recv_msg = '' @ s @ ''.'' @ [LF]"

definition udp_shown :: "event list \<Rightarrow> string list" where
  "udp_shown t = filter (prefix ''[client] recv_msg = '') (printed t)"

interpretation udp_asks: asks_dgrams "udp_cli_body sockfd" "\<lambda>t. map snd (offered t)" udp_got udp_shown udp_view for sockfd
proof
  fix fds b
  show "vld fds (udp_cli_body sockfd b)
      (\<lambda>r t. asks_lines (\<lambda>t. map snd (offered t)) udp_got udp_shown udp_view (\<exists>x. r = Ret x) t)"
    unfolding udp_cli_body_def asks_lines_def udp_shown_def udp_view_def
    by (auto simp: io_simps sys_ok_def store_zeros put_cstr_0 cstr_put)
qed (simp_all add: udp_shown_def)

text \<open>The client of the local domain.\<close>

interpretation un_asks: asks_dgrams "dgram_cli_body sockfd" "\<lambda>t. map fst (sent_to t)" "\<lambda>t. map fst (datagrams t)"
    printed "\<lambda>s. s @ ''.'' @ [LF]" for sockfd
proof
  fix fds b
  show "vld fds (dgram_cli_body sockfd b)
      (\<lambda>r t. asks_lines (\<lambda>t. map fst (sent_to t)) (\<lambda>t. map fst (datagrams t)) printed (\<lambda>s. s @ ''.'' @ [LF]) (\<exists>x. r = Ret x) t)"
    unfolding dgram_cli_body_def asks_lines_def
    by (auto simp: io_simps sys_ok_def store_zeros put_cstr_0 cstr_put)
qed simp_all

subsection \<open>Both together\<close>

text \<open>
  What the network does between a client known as \<open>me\<close> and a server: of the datagrams that were offered
  (\<open>out\<close> by the client, \<open>answers\<close> by the server) it delivers some, in their order; or, if it is reliable, the
  first ones. Datagrams of other clients come in between.
\<close>

definition to_me :: "sockaddr \<Rightarrow> (string \<times> sockaddr) list \<Rightarrow> string list" where
  "to_me me ds = map fst (filter (\<lambda>d. snd d = me) ds)"

definition lossy :: "sockaddr \<Rightarrow> string list \<Rightarrow> (string \<times> sockaddr) list \<Rightarrow> (string \<times> sockaddr) list \<Rightarrow> string list \<Rightarrow> bool" where
  "lossy me out arrived answers inp \<longleftrightarrow> subseq (to_me me arrived) out \<and> subseq inp (to_me me answers)"

definition reliable :: "sockaddr \<Rightarrow> string list \<Rightarrow> (string \<times> sockaddr) list \<Rightarrow> (string \<times> sockaddr) list \<Rightarrow> string list \<Rightarrow> bool" where
  "reliable me out arrived answers inp \<longleftrightarrow> prefix (to_me me arrived) out \<and> prefix inp (to_me me answers)"

lemma prefix_filter: "prefix xs ys \<Longrightarrow> prefix (filter P xs) (filter P ys)"
  by (auto simp: prefix_def)

lemma subseq_map: "subseq xs ys \<Longrightarrow> subseq (map f xs) (map f ys)"
  by (induction rule: list_emb.induct) auto

lemma subseq_map_rev: "subseq xs (map f ys) \<Longrightarrow> \<exists>zs. subseq zs ys \<and> xs = map f zs"
proof (induction ys arbitrary: xs)
  case (Cons y ys)
  show ?case
  proof (cases "subseq xs (map f ys)")
    case True
    with Cons.IH obtain zs where "subseq zs ys" "xs = map f zs" by blast
    then show ?thesis by (blast intro: list_emb_Cons)
  next
    case False
    with Cons.prems obtain xs' where x: "xs = f y # xs'" "subseq xs' (map f ys)"
      by (cases xs) (auto split: if_splits)
    with Cons.IH obtain zs where "subseq zs ys" "xs' = map f zs" by blast
    with x(1) show ?thesis by (intro exI [of _ "y # zs"]) simp
  qed
qed auto

lemma answers_to_me:
  assumes "prefix answers (map answer ds)"
  shows "prefix (to_me me answers) (map (\<lambda>m. echo_back (cstr m)) (to_me me ds))"
proof -
  have "to_me me (map answer ds) = map (\<lambda>m. echo_back (cstr m)) (to_me me ds)"
    by (induction ds) (auto simp: to_me_def answer_def echo_of_def)
  moreover have "prefix (to_me me answers) (to_me me (map answer ds))"
    unfolding to_me_def by (rule map_mono_prefix [OF prefix_filter [OF assms]])
  ultimately show ?thesis by simp
qed

lemma prefix_echo_back: "prefix (map echo_back xs) (map echo_back ys) \<Longrightarrow> prefix xs ys"
proof (induction xs arbitrary: ys)
  case (Cons x xs)
  then show ?case by (cases ys) (auto simp: echo_back_def)
qed simp

lemma pair_law:
  assumes client: "prefix out lines" "prefix shown (map (\<lambda>m. view (cstr m)) inp)" "\<forall>l \<in> set lines. NUL \<notin> set l"
    and server: "prefix answers (map answer ds)" and net: "lossy me out ds answers inp"
  shows "\<exists>ls. subseq ls lines \<and> (reliable me out ds answers inp \<longrightarrow> prefix ls lines) \<and>
    prefix shown (map (\<lambda>l. view (echo_back l)) ls)"
proof -
  let ?echo = "map (\<lambda>m. echo_back (cstr m))"
  note sv = answers_to_me [OF server, of me]
  have lines: "?echo lines = map echo_back lines" using client(3) by (auto simp: cstr_id)
  have "subseq inp (?echo (to_me me ds))"
    using net sv by (meson lossy_def prefix_imp_subseq subseq_order.trans)
  moreover have "subseq (?echo (to_me me ds)) (?echo lines)"
    using net client(1) by (meson lossy_def prefix_imp_subseq subseq_order.trans subseq_map)
  ultimately have "subseq inp (map echo_back lines)" unfolding lines by (rule subseq_order.trans)
  then obtain ls where ls: "subseq ls lines" "inp = map echo_back ls" using subseq_map_rev by blast
  have "prefix inp (?echo lines)" if "reliable me out ds answers inp"
    using that sv client(1) by (meson reliable_def prefix_order.trans map_mono_prefix)
  then have first: "reliable me out ds answers inp \<longrightarrow> prefix ls lines"
    unfolding lines by (auto simp: ls(2) intro: prefix_echo_back)
  have "cstr (echo_back l) = echo_back l" if "l \<in> set ls" for l
  proof -
    from ls(1) that obtain l' where "l' \<in> set lines" "l = l'" by (rule list_emb_set)
    with client(3) show ?thesis using echo_back_simps(2) [of l] by (simp add: cstr_id)
  qed
  then have "map (\<lambda>m. view (cstr m)) inp = map (\<lambda>l. view (echo_back l)) ls" by (simp add: ls(2))
  with client(2) ls(1) first show ?thesis by auto
qed

subsection \<open>Properties\<close>

text \<open>
  C3: What a user of the echo service over UDP sees. Take any run of the client, connected to the server, any
  run of the server, and a network between them that may lose datagrams but neither makes them up nor
  changes or overtakes them; other clients may use the server at the same time. The answers that were
  printed are the text behind \<open>ECHO BACK : \<close> of lines that were typed, in the order in which they were typed;
  and when nothing is lost, of the first lines, none left out.
\<close>

theorem udp_users_see_their_lines:
  assumes client: "udp_dg_cli junk c sa rs1 = (r1, t1, rs1')" "conforms fds1 t1"
    and server: "udp_dg_echo s rs2 = (r2, t2, rs2')" "conforms fds2 t2"
    and network: "lossy me (map snd (offered t1)) (datagrams t2) (sent_to t2) (udp_got t1)"
  shows "\<exists>ls. subseq ls (lines_typed t1) \<and>
    (reliable me (map snd (offered t1)) (datagrams t2) (sent_to t2) (udp_got t1) \<longrightarrow> prefix ls (lines_typed t1)) \<and>
    prefix (filter (prefix ''[client] recv_msg = '') (printed t1))
      (map (\<lambda>l. ''[client] recv_msg = ECHO BACK : '' @ l @ ''.'' @ [LF]) ls)"
proof -
  have "vld fds1 (udp_dg_cli junk c sa) (\<lambda>r t. prefix (map snd (offered t)) (lines_typed t) \<and>
      prefix (udp_shown t) (map (\<lambda>m. udp_view (cstr m)) (udp_got t)))"
    by (auto simp: udp_dg_cli_def io_simps udp_shown_def [symmetric] intro!: vldI dest!: udp_asks.ask_run) (auto simp: udp_shown_def)
  from vldD [OF this client] have cl: "prefix (map snd (offered t1)) (lines_typed t1)"
    "prefix (udp_shown t1) (map (\<lambda>m. udp_view (cstr m)) (udp_got t1))" by auto
  have sv: "prefix (sent_to t2) (map answer (datagrams t2))"
    using vldD [OF udp_to.loop_post, OF _ server(1) [unfolded udp_dg_echo_def] server(2)] by simp
  from pair_law [OF cl _ sv network] show ?thesis
    by (simp add: lines_typed_NUL udp_shown_def udp_view_def echo_back_def)
qed

definition typed_line :: "string \<Rightarrow> reply" where
  "typed_line l = (ok 1)\<lparr>dat := l\<rparr>"

theorem udp_users_see_their_lines_witness:
  "case (udp_dg_cli (zeros 256) 4 (Sin [39, 17] [127, 0, 0, 1])
       [ok 0, typed_line ''hi'', ok 2, got ''ECHO BACK : hi'', typed_line ''ho'', ok 2],
     udp_dg_echo 3 [from_sin ''hi'', ok 14, from_sin ''ho'', ok 14]) of
     ((r1, t1, _), (r2, t2, _)) \<Rightarrow> lines_typed t1 = [''hi'', ''ho''] \<and> length (sent_to t2) = 2 \<and>
       (\<exists>ls. prefix ls [''hi'', ''ho''] \<and> prefix [''[client] recv_msg = ECHO BACK : hi.'' @ [LF]]
          (map (\<lambda>l. ''[client] recv_msg = ECHO BACK : '' @ l @ ''.'' @ [LF]) ls))"
proof -
  let ?c = "udp_dg_cli (zeros 256) 4 (Sin [39, 17] [127, 0, 0, 1])
      [ok 0, typed_line ''hi'', ok 2, got ''ECHO BACK : hi'', typed_line ''ho'', ok 2]"
  let ?s = "udp_dg_echo 3 [from_sin ''hi'', ok 14, from_sin ''ho'', ok 14]"
  let ?me = "Sin [1, 2] [127, 0, 0, 1]"
  obtain t1 where c: "?c = (Stop Blocked, t1, [])" "conforms {0, 1, 2, 4} t1"
    and c2: "lines_typed t1 = [''hi'', ''ho'']" "map snd (offered t1) = [''hi'', ''ho'']" "udp_got t1 = [''ECHO BACK : hi'']"
      "filter (prefix ''[client] recv_msg = '') (printed t1) = [''[client] recv_msg = ECHO BACK : hi.'' @ [LF]]"
    by (simp add: run_simps udp_dg_cli_def udp_cli_body_def typed_line_def DG_BUF_SIZE_def cong: lazy)
  obtain t2 where s: "?s = (Stop Blocked, t2, [])" "conforms {0, 1, 2, 3} t2"
    and s2: "datagrams t2 = [(''hi'', ?me), (''ho'', ?me)]" "sent_to t2 = [(''ECHO BACK : hi'', ?me), (''ECHO BACK : ho'', ?me)]"
    by (simp add: run_simps udp_dg_echo_def udp_echo_body_def from_sin_def DG_BUF_SIZE_def echo_back_def cong: lazy)
  have net: "lossy ?me (map snd (offered t1)) (datagrams t2) (sent_to t2) (udp_got t1)"
    "reliable ?me (map snd (offered t1)) (datagrams t2) (sent_to t2) (udp_got t1)"
    by (simp_all add: lossy_def reliable_def to_me_def c2 s2)
  from udp_users_see_their_lines [OF c s net(1)] net(2) show ?thesis unfolding c(1) s(1) c2 by (auto simp: c2 s2)
qed

text \<open>
  C26: The same in the local domain, as long as the names of the clients that send to the server do not get
  longer from one datagram to the next.
\<close>

theorem local_users_see_their_lines:
  assumes client: "dgram_dg_cli c rs1 = (r1, t1, rs1')" "conforms fds1 t1"
    and server: "dgram_dg_echo s junk_family junk_path rs2 = (r2, t2, rs2')" "conforms fds2 t2"
      "length junk_path = SUN_SIZE - 2" "no_longer (datagrams t2)"
    and network: "lossy me (map fst (sent_to t1)) (datagrams t2) (sent_to t2) (map fst (datagrams t1))"
  shows "\<exists>ls. subseq ls (lines_typed t1) \<and>
    (reliable me (map fst (sent_to t1)) (datagrams t2) (sent_to t2) (map fst (datagrams t1)) \<longrightarrow> prefix ls (lines_typed t1)) \<and>
    prefix (printed t1) (map (\<lambda>l. ''ECHO BACK : '' @ l @ ''.'' @ [LF]) ls)"
proof -
  note cl = un_asks.ask_run [OF client(1) [unfolded dgram_dg_cli_def] client(2)]
  have "answered_to (datagrams t2) (sent_to t2)"
    by (rule vldD [OF un_to.loop_post server(1) [unfolded dgram_dg_echo_def] server(2)]) (simp add: named_def server(3))
  with server(4) have sv: "prefix (sent_to t2) (map answer (datagrams t2))" by (simp add: answered_to_def)
  from pair_law [OF conjunct1 [OF cl] conjunct2 [OF cl] _ sv network] show ?thesis
    by (simp add: lines_typed_NUL echo_back_def)
qed

theorem local_users_see_their_lines_witness:
  "case (dgram_dg_cli 4 [typed_line ''hi'', ok 2, from_sun ''/tmp/s'' ''ECHO BACK : hi'', typed_line ''ho'', fail EINTR],
     dgram_dg_echo 3 AF_UNSPEC (zeros 108) [from_sun ''/tmp/a'' ''hi'', ok 14]) of
     ((r1, t1, _), (r2, t2, _)) \<Rightarrow> lines_typed t1 = [''hi'', ''ho''] \<and> length (sent_to t2) = 1 \<and>
       (\<exists>ls. prefix ls [''hi'', ''ho''] \<and> prefix [''ECHO BACK : hi.'' @ [LF]] (map (\<lambda>l. ''ECHO BACK : '' @ l @ ''.'' @ [LF]) ls))"
proof -
  let ?c = "dgram_dg_cli 4 [typed_line ''hi'', ok 2, from_sun ''/tmp/s'' ''ECHO BACK : hi'', typed_line ''ho'', fail EINTR]"
  let ?s = "dgram_dg_echo 3 AF_UNSPEC (zeros 108) [from_sun ''/tmp/a'' ''hi'', ok 14]"
  let ?me = "Sun ''/tmp/a''"
  obtain t1 where c: "?c = (Stop Blocked, t1, [])" "conforms {0, 1, 2, 4} t1"
    and c2: "lines_typed t1 = [''hi'', ''ho'']" "map fst (sent_to t1) = [''hi'', ''ho'']"
      "map fst (datagrams t1) = [''ECHO BACK : hi'']" "printed t1 = [''ECHO BACK : hi.'' @ [LF]]"
    by (simp add: run_simps dgram_dg_cli_def dgram_cli_body_def typed_line_def from_sun_def DG_BUF_SIZE_def cong: lazy)
  obtain t2 where s: "?s = (Stop Blocked, t2, [])" "conforms {0, 1, 2, 3} t2"
    and s2: "datagrams t2 = [(''hi'', ?me)]" "sent_to t2 = [(''ECHO BACK : hi'', ?me)]"
    by (simp add: run_simps dgram_dg_echo_def dgram_echo_body_def from_sun_def DG_BUF_SIZE_def SUN_SIZE_def
        echo_back_def take_name_def give_name_def cong: lazy)
  have net: "lossy ?me (map fst (sent_to t1)) (datagrams t2) (sent_to t2) (map fst (datagrams t1))"
    "reliable ?me (map fst (sent_to t1)) (datagrams t2) (sent_to t2) (map fst (datagrams t1))"
    by (simp_all add: lossy_def reliable_def to_me_def c2 s2)
  have name: "length (zeros 108) = SUN_SIZE - 2" "no_longer (datagrams t2)"
    by (simp_all add: SUN_SIZE_def s2 no_longer_def)
  from local_users_see_their_lines [OF c s name net(1)] net(2) show ?thesis unfolding c(1) s(1) c2 by (auto simp: c2 s2)
qed

end
