(* ===== verification/Unix_Pair.thy ===== *)
theory Unix_Pair
  imports Unix_Stream Echo_Stream
begin

text \<open>
  The client and the echo server of the local domain, run against each other over a stream. The stream does
  not keep the bounds of the messages: the server may read a line in pieces or several at once, and puts
  its \<open>[response] \<close> before each piece.
\<close>

subsection \<open>The two sides, by bytes\<close>

text \<open>The server has written its answers to what it has read.\<close>

definition answers :: "int \<Rightarrow> event list \<Rightarrow> char list" where
  "answers sockfd t = concat (map (\<lambda>m. response (cstr m)) (messages sockfd t))"

definition answering :: "int \<Rightarrow> event list \<Rightarrow> bool" where
  "answering sockfd t \<longleftrightarrow> received sockfd t = concat (messages sockfd t) \<and>
     (full_writes t \<longrightarrow> prefix (written sockfd t) (answers sockfd t))"

lemma answers_append [simp]: "answers sockfd (s @ t) = answers sockfd s @ answers sockfd t"
  by (simp add: answers_def)

interpretation echo_bytes: loop_contract "unix_echo_body sockfd"
    "\<lambda>fds s t. received sockfd t = concat (messages sockfd t) \<and> (full_writes t \<longrightarrow> written sockfd t = answers sockfd t)"
    "\<lambda>r t. answering sockfd t" for sockfd
proof
  fix fds and s :: unit and h
  assume inv: "received sockfd h = concat (messages sockfd h) \<and> (full_writes h \<longrightarrow> written sockfd h = answers sockfd h)"
  have cs: "cstr sl = response (cstr m)" if "put_cstr 0 (response (cstr m)) (zeros UNIX_BUF_SIZE) = Some sl" for m sl
    using that response_cstr [of "cstr m"] by (auto simp: put_cstr_0 split: if_splits)
  show "vld fds (unix_echo_body sockfd s) (\<lambda>r t. case r of
        Ret (Inl s') \<Rightarrow> received sockfd (h @ t) = concat (messages sockfd (h @ t)) \<and>
          (full_writes (h @ t) \<longrightarrow> written sockfd (h @ t) = answers sockfd (h @ t))
      | Ret (Inr x) \<Rightarrow> answering sockfd (h @ t)
      | Stop z \<Rightarrow> answering sockfd (h @ t))"
    using inv unfolding unix_echo_body_def answering_def
    by (simp add: io_simps sys_ok_def cs answers_def) (auto simp: store_zeros split: if_splits)
  show "answering sockfd h" using inv by (simp add: answering_def)
qed

text \<open>The client has written what was typed and printed what it has read.\<close>

definition talking :: "int \<Rightarrow> event list \<Rightarrow> bool" where
  "talking sockfd t \<longleftrightarrow> received sockfd t = concat (messages sockfd t) \<and>
     prefix (printed t) (map cstr (messages sockfd t)) \<and> (full_writes t \<longrightarrow> prefix (written sockfd t) (typed t))"

definition talked :: "int \<Rightarrow> event list \<Rightarrow> bool" where
  "talked sockfd t \<longleftrightarrow> received sockfd t = concat (messages sockfd t) \<and>
     printed t = map cstr (messages sockfd t) \<and> (full_writes t \<longrightarrow> written sockfd t = typed t)"

interpretation unix_cli: loop_contract "unix_cli_body sockfd"
    "\<lambda>fds b t. length (fst b) = UNIX_BUF_SIZE \<and> talked sockfd t" "\<lambda>r t. talking sockfd t" for sockfd
proof
  fix fds and b :: "buf \<times> buf" and h
  assume inv: "length (fst b) = UNIX_BUF_SIZE \<and> talked sockfd h"
  show "vld fds (unix_cli_body sockfd b) (\<lambda>r t. case r of
        Ret (Inl s') \<Rightarrow> length (fst s') = UNIX_BUF_SIZE \<and> talked sockfd (h @ t)
      | Ret (Inr x) \<Rightarrow> talking sockfd (h @ t)
      | Stop z \<Rightarrow> talking sockfd (h @ t))"
    using inv unfolding unix_cli_body_def talking_def talked_def
    by (cases b) (auto simp: io_simps sys_ok_def put_cstr_0 cstr_put store_zeros UNIX_BUF_SIZE_def)
  show "talking sockfd h" using inv by (simp add: talking_def talked_def)
qed

lemma answering_law:
  assumes "unix_str_echo sockfd rs = (r, t, rs')" and "conforms fds t"
  shows "answering sockfd t"
  by (rule vldD [OF echo_bytes.loop_post assms(1) [unfolded unix_str_echo_def] assms(2)]) (simp add: answers_def)

lemma talking_law:
  assumes "unix_str_cli sockfd rs = (r, t, rs')" and "conforms fds t"
  shows "talking sockfd t"
  by (rule vldD [OF unix_cli.loop_post assms(1) [unfolded unix_str_cli_def] assms(2)]) (simp add: talked_def)

subsection \<open>Both together\<close>

text \<open>What a stream without a NUL brought is shown whole, in whatever pieces it was read.\<close>

lemma map_cstr_id: "NUL \<notin> set (concat ms) \<Longrightarrow> map cstr ms = ms"
  by (induction ms) (auto simp: cstr_id)

lemma answers_whole:
  assumes "map cstr (messages sockfd t) = messages sockfd t"
  shows "answers sockfd t = concat (map (\<lambda>m. ''[response] '' @ m) (messages sockfd t))"
proof -
  have "map (\<lambda>m. response (cstr m)) (messages sockfd t) = map response (map cstr (messages sockfd t))" by simp
  also have "\<dots> = map (\<lambda>m. ''[response] '' @ m) (messages sockfd t)"
    unfolding assms by (simp add: response_def)
  finally show ?thesis by (simp only: answers_def)
qed

lemma answers_no_NUL: "NUL \<notin> set (answers sockfd t)"
  using response_cstr by (auto simp: answers_def)

lemma prefix_no_NUL: "prefix xs ys \<Longrightarrow> NUL \<notin> set ys \<Longrightarrow> NUL \<notin> set xs"
  by (auto dest: set_mono_prefix)

lemma prefix_concat: "prefix xs ys \<Longrightarrow> prefix (concat xs) (concat ys)"
  by (auto simp: prefix_def)

text \<open>
  C25: What a user of the echo over a local stream sees. Take any run of the client and any run of the
  server's child that a reliable stream connects, with no write cut short on either side. The server has
  cut a first part of what the user typed into the pieces \<open>ms\<close>, wherever its reads happened to end, not at
  the ends of the lines; and the text that the client has printed is a first part of these pieces, each
  behind one \<open>[response] \<close>.
\<close>

theorem local_stream_users_see_their_text:
  assumes client: "unix_str_cli c rs1 = (r1, tc, rs1')" "conforms fds1 tc"
    and server: "unix_str_echo s rs2 = (r2, ts, rs2')" "conforms fds2 ts"
    and stream: "prefix (received s ts) (written c tc)" "prefix (received c tc) (written s ts)"
    and whole: "full_writes tc" "full_writes ts"
  shows "\<exists>ms. prefix (concat ms) (typed tc) \<and>
    prefix (concat (printed tc)) (concat (map (\<lambda>m. ''[response] '' @ m) ms))"
proof (intro exI conjI)
  let ?ms = "messages s ts"
  have sv: "received s ts = concat ?ms" "prefix (written s ts) (answers s ts)"
    using answering_law [OF server] whole by (simp_all add: answering_def)
  have cl: "received c tc = concat (messages c tc)" "prefix (printed tc) (map cstr (messages c tc))"
      "prefix (written c tc) (typed tc)"
    using talking_law [OF client] whole by (simp_all add: talking_def)
  show typed: "prefix (concat ?ms) (typed tc)"
    using stream(1) cl(3) sv(1) by (metis prefix_order.order_trans)
  then have "map cstr ?ms = ?ms" by (intro map_cstr_id prefix_no_NUL [OF _ typed_no_NUL])
  then have ans: "answers s ts = concat (map (\<lambda>m. ''[response] '' @ m) ?ms)"
    by (rule answers_whole)
  have got: "prefix (concat (messages c tc)) (answers s ts)"
    using stream(2) cl(1) sv(2) by (metis prefix_order.order_trans)
  then have "map cstr (messages c tc) = messages c tc" by (intro map_cstr_id prefix_no_NUL [OF _ answers_no_NUL])
  with cl(2) have "prefix (concat (printed tc)) (concat (messages c tc))" by (simp add: prefix_concat)
  from prefix_order.order_trans [OF this got]
  show "prefix (concat (printed tc)) (concat (map (\<lambda>m. ''[response] '' @ m) ?ms))"
    unfolding ans .
qed

theorem local_stream_users_see_their_text_witness:
  "case (unix_str_cli 3 [line_reply ''hi'', ok 2, got ''[response] hi''], unix_str_echo 4 [got ''hi'', ok 13]) of
     ((r1, tc, _), (r2, ts, _)) \<Rightarrow> printed tc = [''[response] hi''] \<and> typed tc = ''hi'' \<and>
       (\<exists>ms. prefix (concat ms) ''hi'' \<and> prefix ''[response] hi'' (concat (map (\<lambda>m. ''[response] '' @ m) ms)))"
proof -
  let ?c = "unix_str_cli 3 [line_reply ''hi'', ok 2, got ''[response] hi'']"
  let ?s = "unix_str_echo 4 [got ''hi'', ok 13]"
  obtain tc where c: "?c = (Stop Blocked, tc, [])" "conforms {0, 1, 2, 3} tc"
    and c2: "full_writes tc" "printed tc = [''[response] hi'']" "typed tc = ''hi''"
      "received 3 tc = ''[response] hi''" "written 3 tc = ''hi''"
    by (simp add: run_simps unix_str_cli_def unix_cli_body_def line_reply_def UNIX_BUF_SIZE_def cong: lazy)
  obtain ts where s: "?s = (Stop Blocked, ts, [])" "conforms {0, 1, 2, 4} ts"
    and s2: "full_writes ts" "received 4 ts = ''hi''" "written 4 ts = ''[response] hi''"
    by (simp add: run_simps unix_str_echo_def unix_echo_body_def UNIX_BUF_SIZE_def response_def cong: lazy)
  have "\<exists>ms. prefix (concat ms) (typed tc) \<and>
      prefix (concat (printed tc)) (concat (map (\<lambda>m. ''[response] '' @ m) ms))"
    by (rule local_stream_users_see_their_text [OF c s]) (simp_all add: c2 s2)
  then show ?thesis unfolding c(1) s(1) by (simp add: c2)
qed

end
