(* ===== verification/Spec2Isabelle.thy ===== *)
theory Spec2Isabelle
  imports No_Spin Board_Server Datagram_Pair Unix_Pair
begin

text \<open>
  Socket programs in C: servers and clients over TCP, UDP and local sockets that wait with \<open>select\<close>,
  \<open>epoll\<close>, signals or one process per connection. Every program is one file of \<open>src/C\<close> or \<open>src/ameba\<close> with
  its own \<open>main\<close>; they share no code, but they are written after the same patterns and talk to each other
  over sockets.

  \<^bold>\<open>How a program is modelled.\<close> A C function is a function of the replies that the kernel will give to its
  system calls (\<open>Sys\<close>): run on a list of replies it gives a result, the trace of its calls, replies and
  output, and the replies left. A run that needs a reply when none is left stops as \<open>Blocked\<close>: it waits in
  that call. So a server that never ends is a total function, and a theorem on all lists of replies is a
  theorem on every finite prefix of every execution; no fuel is needed. \<open>exit\<close>, \<open>abort\<close>, an unending
  loop without system calls (\<open>Diverge\<close>, which no program has: \<open>No_Spin\<close>) and undefined behaviour (\<open>Fault\<close>)
  are results. The models follow the
  C code statement by statement: \<open>sys c (\<lambda>a. \<dots>)\<close> is a call with its reply \<open>a\<close>, \<open>rv a\<close> what it returned and
  \<open>en a\<close> the value of \<open>errno\<close>; a \<open>while\<close> loop is \<open>loop body\<close>, with \<open>Inl\<close> for going round and \<open>Inr\<close> for leaving;
  \<open>fits\<close>, \<open>with_cstr\<close>, \<open>arr_get\<close>, \<open>arr_set\<close> and the \<open>fd_set\<close> macros check the bounds that C does not. An
  argument called \<open>junk\<close> is what an uninitialised variable happens to hold.

  \<^bold>\<open>What is assumed.\<close> \<open>conforms fds t\<close> says that the replies in \<open>t\<close> keep what the manual pages of Linux
  promise when the descriptors \<open>fds\<close> are open at the start: a read brings no more than was asked for, a new
  descriptor is not one in use, a call on a closed descriptor fails with \<open>EBADF\<close>, and so on; errors, short
  reads, short writes and interruptions may come at any call. What a theorem needs besides (a file keeps
  what was written, a stream delivers in order, \<open>open\<close> takes the lowest descriptor) is a hypothesis of its own.
  Output to the terminal and the log succeeds. The \<open>malloc\<close> of \<open>Http_Client\<close>, \<open>strerror\<close>, \<open>gai_strerror\<close>, \<open>tmpnam\<close>, the resolver of
  \<open>Lookup\<close> and \<open>recvline\<close>'s buffer are parameters.

  \<^bold>\<open>The theories.\<close>
  \<^item> \<open>Prelude\<close>: the collections of rewrite rules, arrays as lists, \<open>int\<close>. \<open>C_Strings\<close>: buffers, strings, \<open>sprintf\<close>,
    \<open>atoi\<close>, byte order. \<open>Sys\<close>: calls, replies, programs, the contract of the kernel, weakest preconditions
    (\<open>vld\<close>), and two interfaces, \<open>loop_contract\<close> (an invariant of the loop's head that sees the open
    descriptors and the trace, and a postcondition) and \<open>busy_loop\<close> (no turn without a call, hence
    never \<open>Diverge\<close>). \<open>Trace\<close>: what was received, written, sent, printed, and the interface \<open>byte_queue\<close>. \<open>Eval\<close>: running
    programs on concrete replies. \<open>Same_Calls\<close>: when two programs make the same calls, and
    that a run takes one reply for each of its calls.
  \<^item> \<open>Nonblock_Client\<close>: \<open>C/nonblock_stream_client.c\<close>, a relay between the terminal and a socket through two
    arrays with pointers. \<open>str_cli\<close> relays without loss (functional), implements two queues (refinement),
    half-closes once, is memory-safe but for a socket that no \<open>fd_set\<close> holds.
  \<^item> \<open>Conn_Pool\<close>, \<open>Select_Better\<close>, \<open>Ameba_Select\<close>: \<open>C/select_srv_better.c\<close> and \<open>ameba/tcp_select_server.c\<close>, servers
    with slots for their clients; the locale \<open>pool_server\<close> proves the loop once. Which clients are served,
    which descriptors are open, and the one way to go wrong. \<open>Board_Server\<close>: the two make the same calls, but for
    \<open>getpeername\<close>, by a relation between programs that the combinators keep.
  \<^item> \<open>Select_Server\<close>: \<open>C/select_server.c\<close>, with a count of clients: the count is right, and clients may be
    stranded because the scan is bounded by it.
  \<^item> \<open>Epoll_Server\<close>: \<open>C/epoll_server.c\<close>, edge-triggered: every event is dealt with to the end, the output is the input, what is open
    is watched; the walk that binds.
  \<^item> \<open>Http_Client\<close>: \<open>C/http_client.c\<close>: the size of the request, an \<open>int\<close> that wraps around, and its text; the
    exchange, with a \<open>malloc\<close> that may fail; the end of the send and receive loops.
  \<^item> \<open>Heartbeat\<close>, \<open>Heartbeat_Router\<close>: \<open>C/heartbeat_srv.c\<close>, \<open>C/heartbeat_cli.c\<close>, \<open>C/heartbeat_android.c\<close>,
    \<open>C/heartbeat_router.c\<close>: handlers that may run at every point where a main loop waits, in \<open>accept\<close>,
    \<open>connect\<close>, \<open>recv\<close> or \<open>sleep\<close> (the step relation \<open>sig_run\<close>, over the main loop cut at these points; the locale
    \<open>sig_machine\<close> for its invariants), false alarms, pace, the count kept in a file.
  \<^item> \<open>Addr_Walk\<close>, \<open>Daytime\<close>, \<open>Daemon\<close>, \<open>Daytime_Small\<close>: the daytime programs: the walks over the addresses of
    \<open>getaddrinfo\<close>, servers and clients over TCP and UDP, the daemon and its equivalence with the foreground
    server, and the small ones (\<open>C/daytime_server.c\<close>, \<open>C/daytime_client.c\<close>, \<open>C/daytime_inetd.c\<close>).
  \<^item> \<open>Fork_Server\<close>, \<open>Echo_Stream\<close>, \<open>Unix_Stream\<close>, \<open>Multi_Conn\<close>, \<open>Tcp_Udp_Server\<close>, \<open>Credentials\<close>: the servers with a process per
    connection (\<open>C/basic_tcp_server.c\<close>, \<open>C/unix_stream_server.c\<close>, \<open>C/multi_conn_server.c\<close>,
    \<open>C/select_tcp_udp_server.c\<close>, \<open>C/unix_stream_credential_server.c\<close>), with the clients of the first two. The locale \<open>fork_server\<close> states what a turn
    keeps; its five interpretations meet in the property of this theory. \<open>Echo_Stream\<close> and
    \<open>Unix_Pair\<close> also run client and server against each other, over TCP and over a local stream.
  \<^item> \<open>Datagram\<close>: \<open>C/basic_udp_server.c\<close>, \<open>C/basic_udp_client.c\<close>, \<open>C/unix_dgram_server.c\<close>, \<open>C/unix_dgram_client.c\<close>,
    \<open>ameba/udp_server.c\<close>, \<open>ameba/udp_client.c\<close>; the locale \<open>echoes_dgrams\<close> covers both echo servers. \<open>Datagram_Pair\<close>
    runs the clients (locale \<open>asks_dgrams\<close>) and the servers against each other over a network that may lose.
  \<^item> \<open>Simple_Clients\<close>: \<open>C/basic_client.c\<close>, \<open>C/select_client.c\<close>, \<open>C/basic_server.c\<close>, \<open>C/select_cli_better.c\<close>,
    \<open>ameba/tcp_client.c\<close>. \<open>Lookup\<close>: \<open>C/gethostbyname.c\<close>, \<open>C/getservbyname.c\<close>, \<open>C/dns.c\<close>, \<open>C/endian.c\<close>. \<open>Timeouts\<close>:
    \<open>C/advio.c\<close>. \<open>Fd_Passing\<close>: \<open>C/openfile.c\<close> and \<open>C/mycat.c\<close>, a process that opens a file and passes the
    descriptor, or the error, to the one that started it; \<open>C/unixbind.c\<close>.
  \<^item> \<open>Interfaces\<close>: \<open>C/simple_interface_info.c\<close>, with a heap whose blocks can be freed: what is shown of a list in
    the heap and which of its blocks are given back, and that \<open>get_ifi_info\<close> never returns one.
  \<^item> \<open>No_Spin\<close>: the list of all programs, none of which ever has the result \<open>Diverge\<close>, by an interpretation of
    \<open>busy_loop\<close> on every loop of the repository. It shows that the combinator fits the loops, and is no property of
    the programs.

  \<^bold>\<open>Reading a theorem.\<close> \<open>reach body fds0 s0 fds s h\<close>: the loop, started in state \<open>s0\<close> with the descriptors \<open>fds0\<close>
  open, can be at its head in state \<open>s\<close> with \<open>fds\<close> open after the trace \<open>h\<close>. The properties are numbered; each
  with a hypothesis has an example after it, run by rewriting, that meets the hypotheses.

  \<^bold>\<open>Bounds.\<close> Buffers have the sizes of the code, \<open>fd_set\<close> holds the descriptors 0 to 1023, \<open>int\<close> is 32 bits wide
  where a counter is incremented or sizes are added up, ports and addresses are bytes in network order.

  \<^bold>\<open>Not modelled.\<close> Of \<open>C/advio.c\<close> the variants of \<open>dg_cli\<close> under \<open>USE_SIGALRM\<close> and \<open>USE_SO_RECVTIMEO\<close>,
  which do not compile. The scripts in Lua and Python. Outputs to the terminal that fail, names of local sockets in
  the abstract name space, and signals that come between two statements neither of which waits. \<open>C/unix_stream_credential_server.c\<close> does not compile as it is; \<open>Credentials\<close> says
  how it is read.\<close>

subsection \<open>Properties that span components\<close>

text \<open>
  C23: The five servers that fork keep nothing of a connection. However many connections have come, and
  whatever has failed, at the head of the loop the process is still the parent, it has open exactly the
  descriptors it started with, and it listens on the same socket: the accepted socket is closed in the
  parent on every path that comes back, and no child ever comes back.
\<close>

theorem forking_servers_keep_nothing:
  assumes "reach (tcp_srv_body l) fds0 () fds s1 h \<or> reach (unix_srv_body l) fds0 () fds s1 h \<or>
      reach (cred_srv_body c l) fds0 () fds s1 h \<or> reach mc_body fds0 m fds s2 h \<or> reach (tu_body l u) fds0 b fds s3 h"
    and "l \<in> fds0" and "master_sock m \<in> fds0"
  shows "fds = fds0 \<and> \<not> in_child h \<and> (reach mc_body fds0 m fds s2 h \<longrightarrow> master_sock s2 = master_sock m)"
  using assms tcp_srv.stays unix_srv.stays cred_srv.stays mc_srv.stays tu_srv.stays by metis

definition fork_script :: "reply list list" where
  "fork_script = [[ok 5, ok 77, ok 0], [fail EINTR], [ok 5, ok 78, ok 0]]"

theorem forking_servers_keep_nothing_witness:
  "case turns (tcp_srv_body 3) () fork_script of Some (s, h) \<Rightarrow>
     conforms {0, 1, 2, 3} h \<and> fds_run {0, 1, 2, 3} h = {0, 1, 2, 3} \<and> \<not> in_child h \<and> length h = 9
   | None \<Rightarrow> False"
proof -
  obtain h where t: "turns (tcp_srv_body 3) () fork_script = Some ((), h)" and c: "conforms {0, 1, 2, 3} h"
    and n: "length h = 9"
    by (simp add: fork_script_def run_simps tcp_srv_body_def cong: lazy)
  from turns_reach [OF t c]
  have "reach (tcp_srv_body 3) {0, 1, 2, 3} () (fds_run {0, 1, 2, 3} h) () h" .
  from forking_servers_keep_nothing [where l = 3 and m = "\<lparr>master_sock = 3, new_sock = 0\<rparr>", OF disjI1, OF this] t c n
  show ?thesis by simp
qed

end
